(* ===== verification/Kierki_Prelude.thy ===== *)
theory Kierki_Prelude
  imports Main
begin

text \<open>
  Shared groundwork of the development: the exceptions and aborts the C++ code can end in, the
  error sum with its bind, the parts of \<^verbatim>\<open>std::string\<close>, \<^verbatim>\<open>std::to_string\<close>, \<^verbatim>\<open>atoi\<close>,
  \<^verbatim>\<open>std::unordered_map\<close> and \<^verbatim>\<open>size_t\<close> arithmetic the sources use, and the generic lemmas about
  them that the components share.
\<close>

text \<open>A returned flag exists, whichever it is.\<close>

lemma ex_flag [simp]: "\<exists>b::bool. b" "\<exists>b::bool. \<not> b"
  by blast+

section \<open>Outcomes\<close>

text \<open>
  How a call can fail to return: \<open>Out_of_range\<close> is the exception of \<^verbatim>\<open>at\<close> and \<^verbatim>\<open>substr\<close>,
  \<open>Runtime_error\<close> the one the sources throw themselves, \<open>Bad_function_call\<close> the call of an empty
  \<^verbatim>\<open>std::function\<close>, \<open>Assert_failed\<close> a failing
  \<^verbatim>\<open>assert\<close>, \<open>Undefined\<close> undefined behaviour of C++ (an unchecked index out of range),
  \<open>Self_deadlock\<close> a thread locking a \<^verbatim>\<open>std::mutex\<close> it already holds.
\<close>

datatype exn =
    Out_of_range
  | Runtime_error string
  | Bad_function_call
  | Assert_failed
  | Undefined
  | Self_deadlock

type_synonym 'a res = "exn + 'a"

definition bindE :: "'a res \<Rightarrow> ('a \<Rightarrow> 'b res) \<Rightarrow> 'b res" where
  "bindE m f = (case m of Inl e \<Rightarrow> Inl e | Inr x \<Rightarrow> f x)"

lemma bindE_simps [simp]:
  "bindE (Inl e) f = Inl e"
  "bindE (Inr x) f = f x"
  by (simp_all add: bindE_def)

lemma bindE_eq_Inr [simp]: "bindE m f = Inr y \<longleftrightarrow> (\<exists>x. m = Inr x \<and> f x = Inr y)"
  by (cases m) auto

lemma Inr_eq_bindE [simp]: "Inr y = bindE m f \<longleftrightarrow> (\<exists>x. m = Inr x \<and> f x = Inr y)"
  by (cases m) auto

lemma bindE_assoc: "bindE (bindE m f) g = bindE m (\<lambda>x. bindE (f x) g)"
  by (cases m) auto

lemma bindE_cong [fundef_cong]:
  "m = m' \<Longrightarrow> (\<And>x. m' = Inr x \<Longrightarrow> f x = f' x) \<Longrightarrow> bindE m f = bindE m' f'"
  by (cases m') auto

text \<open>The loop that runs one fallible step for each element in turn.\<close>

fun foldE :: "('a \<Rightarrow> 's \<Rightarrow> 's res) \<Rightarrow> 'a list \<Rightarrow> 's \<Rightarrow> 's res" where
  "foldE f [] s = Inr s"
| "foldE f (x # xs) s = bindE (f x s) (foldE f xs)"

lemma foldE_append: "foldE f (xs @ ys) s = bindE (foldE f xs s) (foldE f ys)"
proof (induction xs arbitrary: s)
  case (Cons x xs)
  then show ?case by (cases "f x s") auto
qed simp

lemma foldE_invariant:
  assumes step: "\<And>x s. x \<in> set xs \<Longrightarrow> P s \<Longrightarrow> \<exists>s'. f x s = Inr s' \<and> P s'" and "P s"
  shows "\<exists>s'. foldE f xs s = Inr s' \<and> P s'"
  using assms
proof (induction xs arbitrary: s)
  case (Cons x xs)
  from Cons.prems obtain s1 where "f x s = Inr s1" "P s1" by fastforce
  with Cons.IH [of s1] Cons.prems(1) show ?case by auto
qed simp

text \<open>A loop that pushes one result for each element.\<close>

fun mapE :: "('a \<Rightarrow> 'b res) \<Rightarrow> 'a list \<Rightarrow> 'b list res" where
  "mapE f [] = Inr []"
| "mapE f (x # xs) = bindE (f x) (\<lambda>y. bindE (mapE f xs) (\<lambda>ys. Inr (y # ys)))"

lemma mapE_Inr_map: "(\<And>x. x \<in> set xs \<Longrightarrow> f x = Inr (g x)) \<Longrightarrow> mapE f xs = Inr (map g xs)"
  by (induction xs) auto

text \<open>A list of images is the image of a list.\<close>

lemma ex_map_list:
  "\<forall>u \<in> set us. \<exists>x. Q x \<and> u = f x \<Longrightarrow> \<exists>xs. us = map f xs \<and> (\<forall>x \<in> set xs. Q x)"
proof (induction us)
  case (Cons u us)
  then obtain x xs where "Q x" "u = f x" "us = map f xs" "\<forall>x \<in> set xs. Q x" by auto
  then show ?case by (intro exI [of _ "x # xs"]) simp
qed simp

section \<open>Strings\<close>

text \<open>\<^verbatim>\<open>s.at(i)\<close>, \<^verbatim>\<open>s.substr(pos, n)\<close> and \<^verbatim>\<open>s.substr(pos)\<close>.\<close>

definition str_at :: "string \<Rightarrow> nat \<Rightarrow> char res" where
  "str_at s i = (if i < length s then Inr (s ! i) else Inl Out_of_range)"

definition substr :: "string \<Rightarrow> nat \<Rightarrow> nat \<Rightarrow> string res" where
  "substr s pos n = (if pos \<le> length s then Inr (take n (drop pos s)) else Inl Out_of_range)"

definition substr_from :: "string \<Rightarrow> nat \<Rightarrow> string res" where
  "substr_from s pos = substr s pos (length s)"

text \<open>Subtraction on \<^verbatim>\<open>size_t\<close>, which wraps below zero.\<close>

definition szsub :: "nat \<Rightarrow> nat \<Rightarrow> nat" where
  "szsub a b = (if b \<le> a then a - b else a + 2 ^ 64 - b)"

text \<open>An \<^verbatim>\<open>int\<close> passed where a \<^verbatim>\<open>size_t\<close> is expected.\<close>

definition size_t_of :: "int \<Rightarrow> nat" where
  "size_t_of k = nat (k mod 2 ^ 64)"

lemma szsub_ge [simp]: "b \<le> a \<Longrightarrow> szsub a b = a - b"
  by (simp add: szsub_def)

lemma str_at_append [simp]: "str_at (p @ c # q) (length p) = Inr c"
  by (simp add: str_at_def)

lemma substr_append [simp]: "substr (p @ c @ q) (length p) (length c) = Inr c"
  by (simp add: substr_def)

lemma str_at_eq: "i < length s \<Longrightarrow> str_at s i = Inr (s ! i)"
  by (simp add: str_at_def)

lemma substr_eq: "pos \<le> length s \<Longrightarrow> substr s pos n = Inr (take n (drop pos s))"
  by (simp add: substr_def)

section \<open>Numbers as text\<close>

definition digit_char :: "nat \<Rightarrow> char" where
  "digit_char d = char_of (48 + d)"

definition is_digit :: "char \<Rightarrow> bool" where
  "is_digit c \<longleftrightarrow> c \<in> set ''0123456789''"

definition digit_val :: "char \<Rightarrow> nat" where
  "digit_val c = of_char c - 48"

fun nat_digits :: "nat \<Rightarrow> string" where
  "nat_digits n = (if n < 10 then [digit_char n] else nat_digits (n div 10) @ [digit_char (n mod 10)])"

declare nat_digits.simps [simp del]

text \<open>\<^verbatim>\<open>std::to_string\<close> of a signed and of an unsigned integer.\<close>

definition to_string :: "int \<Rightarrow> string" where
  "to_string i = (if i < 0 then ''-'' @ nat_digits (nat (- i)) else nat_digits (nat i))"

definition digits_val :: "string \<Rightarrow> nat" where
  "digits_val s = foldl (\<lambda>a c. 10 * a + digit_val c) 0 s"

definition is_space :: "char \<Rightarrow> bool" where
  "is_space c \<longleftrightarrow> c = CHR '' '' \<or> (9 \<le> (of_char c :: nat) \<and> (of_char c :: nat) \<le> 13)"

text \<open>
  \<^verbatim>\<open>atoi\<close>: blanks, an optional sign, then the longest run of digits; a value that does not fit
  a 32-bit \<^verbatim>\<open>int\<close> is undefined behaviour.
\<close>

definition atoi :: "string \<Rightarrow> int res" where
  "atoi s =
     (let t = dropWhile is_space s;
          neg = (t \<noteq> [] \<and> hd t = CHR ''-'');
          u = (if t \<noteq> [] \<and> (hd t = CHR ''-'' \<or> hd t = CHR ''+'') then tl t else t);
          v = int (digits_val (takeWhile is_digit u));
          r = (if neg then - v else v)
      in if - (2 ^ 31) \<le> r \<and> r < 2 ^ 31 then Inr r else Inl Undefined)"

lemma digit_cases: "d < 10 \<Longrightarrow> d \<in> {0, 1, 2, 3, 4, 5, 6, 7, 8, 9 :: nat}"
  by auto

lemma digit_char_simps [simp]:
  "digit_char 0 = CHR ''0''" "digit_char 1 = CHR ''1''" "digit_char (Suc 0) = CHR ''1''"
  "digit_char 2 = CHR ''2''" "digit_char 3 = CHR ''3''" "digit_char 4 = CHR ''4''"
  "digit_char 5 = CHR ''5''" "digit_char 6 = CHR ''6''" "digit_char 7 = CHR ''7''"
  "digit_char 8 = CHR ''8''" "digit_char 9 = CHR ''9''"
  by code_simp+

lemma is_digit_digit_char [simp]: "d < 10 \<Longrightarrow> is_digit (digit_char d)"
  using digit_cases [of d] by (auto simp: is_digit_def)

lemma digits_subset_iff: "set s \<subseteq> set ''0123456789'' \<longleftrightarrow> (\<forall>c \<in> set s. is_digit c)"
  unfolding is_digit_def by blast

lemma nonzero_digit_iff: "c \<in> set ''123456789'' \<longleftrightarrow> is_digit c \<and> c \<noteq> CHR ''0''"
  by (auto simp: is_digit_def)

lemma digit_val_digit_char [simp]: "d < 10 \<Longrightarrow> digit_val (digit_char d) = d"
  by (simp add: digit_val_def digit_char_def)

lemma nat_digits_Nil [simp]: "nat_digits n \<noteq> []"
  by (subst nat_digits.simps) simp

lemma nat_digits_digits: "\<forall>c \<in> set (nat_digits n). is_digit c"
proof (induction n rule: nat_digits.induct)
  case (1 n)
  then show ?case by (subst nat_digits.simps) auto
qed

lemma digits_val_snoc: "digits_val (s @ [c]) = 10 * digits_val s + digit_val c"
  by (simp add: digits_val_def)

lemma digits_val_nat_digits [simp]: "digits_val (nat_digits n) = n"
proof (induction n rule: nat_digits.induct)
  case (1 n)
  show ?case
  proof (cases "n < 10")
    case True
    then show ?thesis by (subst nat_digits.simps) (simp add: digits_val_def)
  next
    case False
    with 1 show ?thesis by (subst nat_digits.simps) (simp add: digits_val_snoc)
  qed
qed

lemma nat_digits_hd_pos: "0 < n \<Longrightarrow> hd (nat_digits n) \<noteq> CHR ''0''"
proof (induction n rule: nat_digits.induct)
  case (1 n)
  show ?case
  proof (cases "n < 10")
    case True
    with 1 digit_cases [of n] show ?thesis by (subst nat_digits.simps) auto
  next
    case False
    with 1 show ?thesis by (subst nat_digits.simps) (simp add: div_greater_zero_iff)
  qed
qed

lemma is_digit_not:
  "is_digit c \<Longrightarrow> \<not> is_space c" "is_digit c \<Longrightarrow> c \<noteq> CHR ''-''" "is_digit c \<Longrightarrow> c \<noteq> CHR ''+''"
  by (auto simp: is_digit_def is_space_def)

lemma atoi_digits:
  assumes "s \<noteq> []" and "\<forall>c \<in> set s. is_digit c" and "digits_val s < 2 ^ 31"
  shows "atoi s = Inr (int (digits_val s))"
proof -
  from assms(1,2) obtain c r where s: "s = c # r" and c: "is_digit c" by (cases s) auto
  have "int (digits_val s) < 2 ^ 31" using assms(3) by (metis of_nat_less_iff of_nat_numeral of_nat_power)
  with assms(2) s is_digit_not [OF c] show ?thesis
    by (simp add: atoi_def Let_def takeWhile_eq_all_conv [THEN iffD2])
qed

lemma atoi_nat_digits: "n < 2 ^ 31 \<Longrightarrow> atoi (nat_digits n) = Inr (int n)"
  by (subst atoi_digits) (use nat_digits_digits in auto)

lemma atoi_to_string: "0 \<le> i \<Longrightarrow> i < 2 ^ 31 \<Longrightarrow> atoi (to_string i) = Inr i"
proof -
  assume i: "0 \<le> i" "i < 2 ^ 31"
  then have "nat i < 2 ^ 31" by (simp add: nat_less_iff)
  with i show ?thesis by (simp add: to_string_def atoi_nat_digits)
qed

section \<open>Hash maps\<close>

text \<open>
  \<^verbatim>\<open>std::unordered_map\<close> as a partial map. \<open>map_at\<close> is \<^verbatim>\<open>at\<close>; \<open>touch d k m\<close> is what
  \<^verbatim>\<open>operator[]\<close> does to the map before its value is used: a missing key is inserted with the
  default value \<open>d\<close>; \<open>get d k m\<close> is the value it then yields.
\<close>

definition map_at :: "('k \<rightharpoonup> 'v) \<Rightarrow> 'k \<Rightarrow> 'v res" where
  "map_at m k = (case m k of None \<Rightarrow> Inl Out_of_range | Some v \<Rightarrow> Inr v)"

definition get :: "'v \<Rightarrow> 'k \<Rightarrow> ('k \<rightharpoonup> 'v) \<Rightarrow> 'v" where
  "get d k m = (case m k of None \<Rightarrow> d | Some v \<Rightarrow> v)"

definition touch :: "'v \<Rightarrow> 'k \<Rightarrow> ('k \<rightharpoonup> 'v) \<Rightarrow> ('k \<rightharpoonup> 'v)" where
  "touch d k m = m(k \<mapsto> get d k m)"

lemma map_at_Some [simp]: "m k = Some v \<Longrightarrow> map_at m k = Inr v"
  by (simp add: map_at_def)

lemma map_at_eq_Inr [simp]: "map_at m k = Inr v \<longleftrightarrow> m k = Some v"
  by (auto simp: map_at_def split: option.splits)

lemma get_Some [simp]: "m k = Some v \<Longrightarrow> get d k m = v"
  by (simp add: get_def)

lemma touch_Some [simp]: "m k = Some v \<Longrightarrow> touch d k m = m"
  by (auto simp: touch_def)

lemma touch_dom: "k \<in> dom m \<Longrightarrow> touch d k m = m"
  by (auto simp: touch_def)

lemma dom_touch [simp]: "dom (touch d k m) = insert k (dom m)"
  by (simp add: touch_def)

lemma get_upd [simp]: "get d k (m(k' \<mapsto> v)) = (if k = k' then v else get d k m)"
  by (simp add: get_def)

end
