(* ===== verification/Cards.thy ===== *)
theory Cards
  imports Kierki_Prelude
begin

text \<open>
  The card of \<^verbatim>\<open>common/card.cpp\<close>: suit, face text and rank, the checked constructor, the two
  text conversions and the six comparison operators, with the round trips between card and text
  and the laws of the rank order.
\<close>

section \<open>Colours\<close>

text \<open>
  \<^verbatim>\<open>enum Color\<close>. \<open>Color_raw\<close> is the value of a cast \<^verbatim>\<open>(Color) c\<close> from a character that
  names no suit: the code casts without a check.
\<close>

datatype color = COLOR_C | COLOR_D | COLOR_H | COLOR_S | Color_raw char

definition color_of_char :: "char \<Rightarrow> color" where
  "color_of_char c =
     (if c = CHR ''C'' then COLOR_C else if c = CHR ''D'' then COLOR_D
      else if c = CHR ''H'' then COLOR_H else if c = CHR ''S'' then COLOR_S
      else Color_raw c)"

fun char_of_color :: "color \<Rightarrow> char" where
  "char_of_color COLOR_C = CHR ''C''"
| "char_of_color COLOR_D = CHR ''D''"
| "char_of_color COLOR_H = CHR ''H''"
| "char_of_color COLOR_S = CHR ''S''"
| "char_of_color (Color_raw c) = c"

text \<open>The values an \<^verbatim>\<open>enum Color\<close> variable can hold: a raw value is never one of the four.\<close>

fun wf_color :: "color \<Rightarrow> bool" where
  "wf_color (Color_raw c) = (c \<notin> set ''CDHS'')"
| "wf_color _ = True"

definition suits :: "color list" where
  "suits = [COLOR_C, COLOR_D, COLOR_H, COLOR_S]"

lemma char_of_color_of_char [simp]: "char_of_color (color_of_char c) = c"
  by (simp add: color_of_char_def)

lemma color_of_char_of_color [simp]: "wf_color k \<Longrightarrow> color_of_char (char_of_color k) = k"
  by (cases k) (auto simp: color_of_char_def)

lemma wf_color_of_char [simp]: "wf_color (color_of_char c)"
  by (simp add: color_of_char_def)

lemma suits_wf: "k \<in> set suits \<Longrightarrow> wf_color k"
  by (auto simp: suits_def)

section \<open>Cards\<close>

record card =
  cvalue :: string
  col :: color
  true_val :: int

definition VALUES :: "string \<rightharpoonup> int" where
  "VALUES = map_of
     [(''2'', 2), (''3'', 3), (''4'', 4), (''5'', 5), (''6'', 6), (''7'', 7), (''8'', 8),
      (''9'', 9), (''10'', 10), (''J'', 11), (''Q'', 12), (''K'', 13), (''A'', 14)]"

text \<open>The constructor looks the rank up with \<^verbatim>\<open>VALUES.at\<close>, which throws for an unknown face.\<close>

definition Card :: "string \<Rightarrow> color \<Rightarrow> card res" where
  "Card v k = bindE (map_at VALUES v) (\<lambda>t. Inr \<lparr>cvalue = v, col = k, true_val = t\<rparr>)"

definition toString :: "card \<Rightarrow> string" where
  "toString c = cvalue c @ [char_of_color (col c)]"

definition getColor :: "card \<Rightarrow> color" where
  "getColor c = col c"

definition getValue :: "card \<Rightarrow> string" where
  "getValue c = cvalue c"

definition fromString :: "string \<Rightarrow> card res" where
  "fromString s =
     bindE (str_at s (szsub (length s) 1)) (\<lambda>c.
     bindE (substr s 0 (szsub (length s) 1)) (\<lambda>val.
     Card val (color_of_char c)))"

definition card_eq :: "card \<Rightarrow> card \<Rightarrow> bool" where
  "card_eq c d \<longleftrightarrow> true_val c = true_val d"

definition card_neq :: "card \<Rightarrow> card \<Rightarrow> bool" where
  "card_neq c d \<longleftrightarrow> \<not> card_eq c d"

definition card_lt :: "card \<Rightarrow> card \<Rightarrow> bool" where
  "card_lt c d \<longleftrightarrow> true_val c < true_val d"

definition card_le :: "card \<Rightarrow> card \<Rightarrow> bool" where
  "card_le c d \<longleftrightarrow> card_eq c d \<or> card_lt c d"

definition card_gt :: "card \<Rightarrow> card \<Rightarrow> bool" where
  "card_gt c d \<longleftrightarrow> \<not> card_le c d"

definition card_ge :: "card \<Rightarrow> card \<Rightarrow> bool" where
  "card_ge c d \<longleftrightarrow> \<not> card_lt c d"

text \<open>\<^verbatim>\<open>operator<<\<close> writes the face and the suit character.\<close>

definition print_card :: "card \<Rightarrow> string" where
  "print_card c = getValue c @ [char_of_color (getColor c)]"

section \<open>Well-formed cards\<close>

text \<open>What the constructor establishes, and the 52 cards of the game.\<close>

definition wf_card :: "card \<Rightarrow> bool" where
  "wf_card c \<longleftrightarrow> VALUES (cvalue c) = Some (true_val c) \<and> wf_color (col c)"

definition faces :: "string list" where
  "faces = [''2'', ''3'', ''4'', ''5'', ''6'', ''7'', ''8'', ''9'', ''10'', ''J'', ''Q'', ''K'', ''A'']"

definition rank_of :: "string \<Rightarrow> int" where
  "rank_of v = (case VALUES v of None \<Rightarrow> 0 | Some t \<Rightarrow> t)"

definition mk_card :: "string \<Rightarrow> color \<Rightarrow> card" where
  "mk_card v k = \<lparr>cvalue = v, col = k, true_val = rank_of v\<rparr>"

definition deck :: "card list" where
  "deck = [mk_card v k. k \<leftarrow> suits, v \<leftarrow> faces]"

definition game_card :: "card \<Rightarrow> bool" where
  "game_card c \<longleftrightarrow> wf_card c \<and> col c \<in> set suits"

lemma dom_VALUES: "VALUES v \<noteq> None \<longleftrightarrow> v \<in> set faces"
  by (auto simp: VALUES_def faces_def)

lemma VALUES_SomeD: "VALUES v = Some t \<Longrightarrow> v \<in> set faces \<and> t = rank_of v"
  using dom_VALUES [of v] by (simp add: rank_of_def)

lemma VALUES_faces: "v \<in> set faces \<Longrightarrow> VALUES v = Some (rank_of v)"
  using dom_VALUES [of v] by (auto simp: rank_of_def)

lemma face_cases: "v \<in> set faces \<Longrightarrow> (\<exists>x \<in> set ''23456789JQKA''. v = [x]) \<or> v = ''10''"
  by (auto simp: faces_def)

lemma Card_eq_Inr: "Card v k = Inr c \<longleftrightarrow> v \<in> set faces \<and> c = mk_card v k"
  by (auto simp: Card_def mk_card_def VALUES_faces dest: VALUES_SomeD)

lemma Card_mk_card: "v \<in> set faces \<Longrightarrow> Card v k = Inr (mk_card v k)"
  by (simp add: Card_eq_Inr)

lemma Card_error: "v \<notin> set faces \<Longrightarrow> Card v k = Inl Out_of_range"
  using dom_VALUES [of v] by (simp add: Card_def map_at_def)

lemma mk_card_simps [simp]:
  "cvalue (mk_card v k) = v" "col (mk_card v k) = k" "true_val (mk_card v k) = rank_of v"
  by (simp_all add: mk_card_def)

lemma mk_card_inject [simp]: "mk_card v k = mk_card w l \<longleftrightarrow> v = w \<and> k = l"
  by (auto simp: mk_card_def)

lemma wf_card_iff: "wf_card c \<longleftrightarrow> (\<exists>v k. v \<in> set faces \<and> wf_color k \<and> c = mk_card v k)"
proof
  assume "wf_card c"
  then show "\<exists>v k. v \<in> set faces \<and> wf_color k \<and> c = mk_card v k"
    by (intro exI [of _ "cvalue c"] exI [of _ "col c"])
      (auto simp: wf_card_def mk_card_def dest: VALUES_SomeD)
qed (auto simp: wf_card_def VALUES_faces)

lemma wf_card_mk_card [simp]: "wf_card (mk_card v k) \<longleftrightarrow> v \<in> set faces \<and> wf_color k"
  by (auto simp: wf_card_iff)

lemma game_card_mk_card [simp]: "game_card (mk_card v k) \<longleftrightarrow> v \<in> set faces \<and> k \<in> set suits"
  by (auto simp: game_card_def suits_wf)

lemma game_card_wf: "game_card c \<Longrightarrow> wf_card c"
  by (simp add: game_card_def)

lemma set_deck: "set deck = {c. game_card c}"
proof
  show "{c. game_card c} \<subseteq> set deck"
    by (auto simp: game_card_def wf_card_iff deck_def)
qed (auto simp: deck_def)

lemma length_deck: "length deck = 52"
  by (simp add: deck_def suits_def faces_def)

lemma distinct_deck: "distinct deck"
  by (simp add: deck_def suits_def faces_def)

text \<open>The code compares cards by face and suit text; on well-formed cards that is equality.\<close>

lemma same_card_iff:
  "wf_card c \<Longrightarrow> wf_card d \<Longrightarrow> getColor c = getColor d \<and> getValue c = getValue d \<longleftrightarrow> c = d"
  by (auto simp: wf_card_iff getColor_def getValue_def)

section \<open>Text round trips\<close>

lemma fromString_snoc: "fromString (v @ [c]) = Card v (color_of_char c)"
  by (simp add: fromString_def str_at_def substr_def)

lemma fromString_Nil: "fromString [] = Inl Out_of_range"
  by (simp add: fromString_def str_at_def)

lemma fromString_toString: "wf_card c \<Longrightarrow> fromString (toString c) = Inr c"
  by (auto simp: wf_card_iff toString_def fromString_snoc Card_mk_card)

lemma fromString_Inr:
  "fromString s = Inr c \<longleftrightarrow> (\<exists>v k. s = v @ [k] \<and> v \<in> set faces \<and> c = mk_card v (color_of_char k))"
  by (cases s rule: rev_cases) (auto simp: fromString_Nil fromString_snoc Card_eq_Inr)

lemma fromString_wf: "fromString s = Inr c \<Longrightarrow> wf_card c"
  by (auto simp: fromString_Inr)

lemma toString_fromString: "fromString s = Inr c \<Longrightarrow> toString c = s"
  by (auto simp: fromString_Inr toString_def)

lemma print_card_toString: "print_card c = toString c"
  by (simp add: print_card_def toString_def getValue_def getColor_def)

lemma toString_inject:
  "wf_card c \<Longrightarrow> wf_card d \<Longrightarrow> toString c = toString d \<longleftrightarrow> c = d"
  by (metis fromString_toString sum.inject(2))

section \<open>The order of ranks\<close>

text \<open>The six operators of \<^verbatim>\<open>Card\<close> compare ranks: a total preorder, cards of equal rank being alike.\<close>

instantiation card_ext :: (type) preorder
begin

definition less_eq_card_ext :: "'a card_ext \<Rightarrow> 'a card_ext \<Rightarrow> bool" where
  "less_eq_card_ext c d \<longleftrightarrow> true_val c \<le> true_val d"

definition less_card_ext :: "'a card_ext \<Rightarrow> 'a card_ext \<Rightarrow> bool" where
  "less_card_ext c d \<longleftrightarrow> true_val c < true_val d"

instance
  by standard (auto simp: less_eq_card_ext_def less_card_ext_def)

end

lemmas card_order = card_eq_def card_neq_def card_lt_def card_le_def card_gt_def card_ge_def
  less_eq_card_ext_def less_card_ext_def

text \<open>The six comparison operators of \<open>Card\<close> are one total preorder on ranks: \<open><=\<close> and \<open><\<close> are the
  order and its strict part, \<open>>\<close> and \<open>>=\<close> their converses, any two cards compare, and \<open>==\<close> holds
  between the cards of equal rank, whatever their suits.\<close>

theorem card_operators:
  "(card_le c d \<longleftrightarrow> c \<le> d) \<and> (card_lt c d \<longleftrightarrow> c < d) \<and> (card_gt c d \<longleftrightarrow> d < c) \<and> (card_ge c d \<longleftrightarrow> d \<le> c) \<and>
   (c \<le> d \<or> d \<le> c) \<and> (card_eq c d \<longleftrightarrow> c \<le> d \<and> d \<le> c) \<and> (card_neq c d \<longleftrightarrow> c < d \<or> d < c)"
  by (auto simp: card_order)

text \<open>The text of a card and the card determine each other: \<open>fromString\<close> accepts exactly the texts
  \<open>toString\<close> writes for the cards the constructor can make, and yields that card.\<close>

theorem card_text_roundtrip: "fromString s = Inr c \<longleftrightarrow> wf_card c \<and> toString c = s"
  using fromString_wf toString_fromString fromString_toString by blast

end
