(* ===== verification/Common_Types.thy ===== *)
theory Common_Types
  imports Cards
begin

text \<open>
  The types of \<^verbatim>\<open>common/common_types.h\<close> and the constants of \<^verbatim>\<open>common/constants.h\<close>: sides
  of the table, kinds of round, error records, tables and hands, and the seat order
  \<^verbatim>\<open>nxtSide\<close> of \<^verbatim>\<open>common/utils.cpp\<close>.
\<close>

section \<open>Constants\<close>

definition TRICKS_PER_ROUND :: nat where
  "TRICKS_PER_ROUND = 13"

definition DEFAULT_TIMEOUT :: int where
  "DEFAULT_TIMEOUT = 5"

definition MAX_PARSE_LEN :: nat where
  "MAX_PARSE_LEN = 1000"

text \<open>The values of \<^verbatim>\<open>errno\<close> the sources distinguish.\<close>

datatype errno = EPIPE | ECONNRESET | ECONNREFUSED | ENOTCONN | EAGAIN | EWOULDBLOCK | E_other int

definition SILENT_ERRS :: "errno list" where
  "SILENT_ERRS = [EPIPE, ECONNRESET, ECONNREFUSED, ENOTCONN]"

section \<open>Sides\<close>

text \<open>
  \<^verbatim>\<open>enum Side\<close>. \<open>Side_raw\<close> is the value of an unchecked cast from a character that names no
  side, which the scenario reader performs.
\<close>

datatype side = N | E | S | W | SIDE_NULL | Side_raw char

text \<open>The macro \<^verbatim>\<open>sides_\<close>, in its order.\<close>

definition sides :: "side list" where
  "sides = [N, S, W, E]"

definition side_of_char :: "char \<Rightarrow> side" where
  "side_of_char c =
     (if c = CHR ''N'' then N else if c = CHR ''E'' then E
      else if c = CHR ''S'' then S else if c = CHR ''W'' then W
      else if c = CHR 0x00 then SIDE_NULL else Side_raw c)"

fun char_of_side :: "side \<Rightarrow> char" where
  "char_of_side N = CHR ''N''"
| "char_of_side E = CHR ''E''"
| "char_of_side S = CHR ''S''"
| "char_of_side W = CHR ''W''"
| "char_of_side SIDE_NULL = CHR 0x00"
| "char_of_side (Side_raw c) = c"

text \<open>\<^verbatim>\<open>nxtSide\<close>; after the switch the function returns \<^verbatim>\<open>N\<close>.\<close>

fun nxtSide :: "side \<Rightarrow> side res" where
  "nxtSide N = Inr E"
| "nxtSide E = Inr S"
| "nxtSide S = Inr W"
| "nxtSide W = Inr N"
| "nxtSide SIDE_NULL = Inl (Runtime_error ''invalid side for nxtSide: SIDE_NULL_'')"
| "nxtSide (Side_raw c) = Inr N"

text \<open>The seat order as a function on the four sides, and a side advanced by \<open>n\<close> seats.\<close>

fun nxt :: "side \<Rightarrow> side" where
  "nxt N = E"
| "nxt E = S"
| "nxt S = W"
| "nxt W = N"
| "nxt s = s"

definition seat :: "nat \<Rightarrow> side \<Rightarrow> side" where
  "seat n s = (nxt ^^ n) s"

definition real_side :: "side \<Rightarrow> bool" where
  "real_side s \<longleftrightarrow> s \<in> set sides"

lemma set_sides [simp]: "set sides = {N, S, W, E}"
  by (simp add: sides_def)

lemma real_side_simps [simp]:
  "real_side N" "real_side E" "real_side S" "real_side W"
  "\<not> real_side SIDE_NULL" "\<not> real_side (Side_raw c)"
  by (simp_all add: real_side_def)

lemma real_side_cases [consumes 1, case_names N E S W]:
  "real_side s \<Longrightarrow> (s = N \<Longrightarrow> P) \<Longrightarrow> (s = E \<Longrightarrow> P) \<Longrightarrow> (s = S \<Longrightarrow> P) \<Longrightarrow> (s = W \<Longrightarrow> P) \<Longrightarrow> P"
  by (cases s) auto

lemma nxtSide_real: "real_side s \<Longrightarrow> nxtSide s = Inr (nxt s)"
  by (cases s) auto

lemma real_side_nxt [simp]: "real_side s \<Longrightarrow> real_side (nxt s)"
  by (cases s) auto

lemma seat_0 [simp]: "seat 0 s = s"
  by (simp add: seat_def)

lemma seat_Suc: "seat (Suc n) s = nxt (seat n s)"
  by (simp add: seat_def)

lemma seat_nxt: "seat n (nxt s) = seat (Suc n) s"
  by (simp add: seat_def funpow_swap1)

lemma real_side_seat [simp]: "real_side s \<Longrightarrow> real_side (seat n s)"
  by (induction n) (auto simp: seat_Suc)

lemma nxt4: "nxt (nxt (nxt (nxt s))) = s"
  by (cases s) auto

lemma seat_add4: "seat (n + 4) s = seat n s"
  by (simp add: seat_def numeral_eq_Suc nxt4)

lemma seat_inj_on: "real_side s \<Longrightarrow> inj_on (\<lambda>n. seat n s) {..<4}"
  by (cases s) (auto simp: inj_on_def seat_def lessThan_Suc numeral_eq_Suc)

lemma seat_surj: "real_side s \<Longrightarrow> real_side t \<Longrightarrow> \<exists>n<4. seat n s = t"
  by (cases s; cases t)
    (simp_all add: seat_def numeral_eq_Suc Ex_less_Suc2)

lemma side_of_char_of_side: "real_side s \<Longrightarrow> side_of_char (char_of_side s) = s"
  by (cases s) (auto simp: side_of_char_def)

lemma real_side_of_char: "real_side (side_of_char c) \<longleftrightarrow> c \<in> set ''NESW''"
  by (auto simp: side_of_char_def)

section \<open>Kinds of round\<close>

text \<open>\<^verbatim>\<open>enum RoundType\<close>; \<open>Round_raw\<close> is an unchecked cast from an integer outside 1 to 7.\<close>

datatype round_type =
    TRICK_PENALTY
  | HEART_PENALTY
  | QUEEN_PENALTY
  | KING_JACK_PENALTY
  | HEART_KING_PENALTY
  | SEVENTH_LAST_TRICK_PENALTY
  | EVERYTHING
  | Round_raw int

definition round_of_int :: "int \<Rightarrow> round_type" where
  "round_of_int i =
     (if i = 1 then TRICK_PENALTY else if i = 2 then HEART_PENALTY
      else if i = 3 then QUEEN_PENALTY else if i = 4 then KING_JACK_PENALTY
      else if i = 5 then HEART_KING_PENALTY else if i = 6 then SEVENTH_LAST_TRICK_PENALTY
      else if i = 7 then EVERYTHING else Round_raw i)"

fun int_of_round :: "round_type \<Rightarrow> int" where
  "int_of_round TRICK_PENALTY = 1"
| "int_of_round HEART_PENALTY = 2"
| "int_of_round QUEEN_PENALTY = 3"
| "int_of_round KING_JACK_PENALTY = 4"
| "int_of_round HEART_KING_PENALTY = 5"
| "int_of_round SEVENTH_LAST_TRICK_PENALTY = 6"
| "int_of_round EVERYTHING = 7"
| "int_of_round (Round_raw i) = i"

fun real_round :: "round_type \<Rightarrow> bool" where
  "real_round (Round_raw i) = False"
| "real_round _ = True"

lemma round_of_int_of_round: "real_round r \<Longrightarrow> round_of_int (int_of_round r) = r"
  by (cases r) (auto simp: round_of_int_def)

lemma int_of_round_bounds: "real_round r \<Longrightarrow> 1 \<le> int_of_round r \<and> int_of_round r \<le> 7"
  by (cases r) auto

text \<open>The trick numbers of a round are unchanged as \<^verbatim>\<open>size_t\<close>.\<close>

lemma size_t_small: "k \<le> TRICKS_PER_ROUND \<Longrightarrow> size_t_of (int k) = k"
  by (simp add: size_t_of_def TRICKS_PER_ROUND_def)

section \<open>Errors, tables, hands\<close>

datatype io_err_class = IO_ERR_SILENT | IO_ERR_INTERNAL | IO_ERR_EXTERNAL

record err_info =
  call :: string
  errnoVal :: errno
  errType :: io_err_class

definition Err :: "string \<Rightarrow> errno \<Rightarrow> io_err_class \<Rightarrow> err_info" where
  "Err c e k = \<lparr>call = c, errnoVal = e, errType = k\<rparr>"

lemma errType_Err [simp]: "errType (Err c e k) = k"
  by (simp add: Err_def)

text \<open>How a sequence of reads ends: end of file, or an error (\<^verbatim>\<open>EAGAIN\<close> if nothing more is there).\<close>

datatype read_end = Read_eof | Read_error errno

type_synonym hand = "card list"
type_synonym table = "card list"
type_synonym table_state = "side \<rightharpoonup> hand"
type_synonym score_map = "side \<rightharpoonup> int"
type_synonym game_scenario = "(round_type \<times> table_state \<times> side) list"
type_synonym net_address = "nat \<times> string"

end
