(* ===== verification/Send_Job.thy ===== *)
theory Send_Job
  imports Common_Types
begin

text \<open>
  The outgoing messages of \<^verbatim>\<open>common/send_job.cpp\<close>: the class hierarchy as one datatype, and
  \<^verbatim>\<open>genMsg\<close> as one function per class.
\<close>

section \<open>Jobs\<close>

text \<open>One constructor per subclass of \<^verbatim>\<open>SendJob\<close>, with its members.\<close>

datatype send_job =
    SendJobBusy "side list"
  | SendDealJob round_type side hand
  | SendJobIntro side
  | SendJobScore score_map
  | SendJobTaken table side int
  | SendJobTotal score_map
  | SendJobTrick table nat
  | SendJobWrong nat

text \<open>The member \<^verbatim>\<open>msgPrefix\<close> each constructor passes to the base class.\<close>

fun msgPrefix :: "send_job \<Rightarrow> string" where
  "msgPrefix (SendJobBusy taken) = ''BUSY''"
| "msgPrefix (SendDealJob roundType starting cards) = ''DEAL''"
| "msgPrefix (SendJobIntro s) = ''IAM''"
| "msgPrefix (SendJobScore scores) = ''SCORE''"
| "msgPrefix (SendJobTaken table s trickNo) = ''TAKEN''"
| "msgPrefix (SendJobTotal scores) = ''TOTAL''"
| "msgPrefix (SendJobTrick tableState trickNo) = ''TRICK''"
| "msgPrefix (SendJobWrong trickNo) = ''WRONG''"

section \<open>Message text\<close>

definition crlf :: string where
  "crlf = [CHR 0x0D, CHR 0x0A]"

text \<open>
  The range loop over \<^verbatim>\<open>scores\<close> visits the entries of an \<^verbatim>\<open>unordered_map\<close> in an order the
  standard leaves open: \<open>ord\<close> is that order, a list of the keys.
\<close>

fun score_text :: "side list \<Rightarrow> score_map \<Rightarrow> string" where
  "score_text [] scores = ''''"
| "score_text (s # ord) scores =
     (case scores s of
        None \<Rightarrow> score_text ord scores
      | Some v \<Rightarrow> [char_of_side s] @ to_string v @ score_text ord scores)"

fun genMsg :: "side list \<Rightarrow> send_job \<Rightarrow> string" where
  "genMsg ord (SendJobBusy taken) =
     msgPrefix (SendJobBusy taken) @ map char_of_side taken @ crlf"
| "genMsg ord (SendDealJob roundType starting cards) =
     msgPrefix (SendDealJob roundType starting cards) @ to_string (int_of_round roundType)
     @ [char_of_side starting] @ concat (map toString cards) @ crlf"
| "genMsg ord (SendJobIntro s) =
     msgPrefix (SendJobIntro s) @ [char_of_side s] @ crlf"
| "genMsg ord (SendJobScore scores) =
     msgPrefix (SendJobScore scores) @ score_text ord scores @ crlf"
| "genMsg ord (SendJobTaken table s trickNo) =
     msgPrefix (SendJobTaken table s trickNo) @ to_string trickNo
     @ concat (map toString table) @ [char_of_side s] @ crlf"
| "genMsg ord (SendJobTotal scores) =
     msgPrefix (SendJobTotal scores) @ score_text ord scores @ crlf"
| "genMsg ord (SendJobTrick tableState trickNo) =
     msgPrefix (SendJobTrick tableState trickNo) @ to_string (int trickNo)
     @ concat (map toString tableState) @ crlf"
| "genMsg ord (SendJobWrong trickNo) =
     msgPrefix (SendJobWrong trickNo) @ to_string (int trickNo) @ crlf"

text \<open>
  \<^verbatim>\<open>msg.substr(0, msg.size() - 2)\<close>, the text as the logger shows it and as the peer's reader
  passes it on; \<open>msg_body\<close> is that text of each job.
\<close>

definition strip_crlf :: "string \<Rightarrow> string" where
  "strip_crlf m = take (length m - 2) m"

fun msg_body :: "side list \<Rightarrow> send_job \<Rightarrow> string" where
  "msg_body ord (SendJobBusy taken) = ''BUSY'' @ map char_of_side taken"
| "msg_body ord (SendDealJob r s cards) =
     ''DEAL'' @ to_string (int_of_round r) @ [char_of_side s] @ concat (map toString cards)"
| "msg_body ord (SendJobIntro s) = ''IAM'' @ [char_of_side s]"
| "msg_body ord (SendJobScore scores) = ''SCORE'' @ score_text ord scores"
| "msg_body ord (SendJobTaken table s n) =
     ''TAKEN'' @ to_string n @ concat (map toString table) @ [char_of_side s]"
| "msg_body ord (SendJobTotal scores) = ''TOTAL'' @ score_text ord scores"
| "msg_body ord (SendJobTrick table k) = ''TRICK'' @ to_string (int k) @ concat (map toString table)"
| "msg_body ord (SendJobWrong k) = ''WRONG'' @ to_string (int k)"

lemma strip_crlf_append [simp]: "strip_crlf (m @ crlf) = m"
  by (simp add: strip_crlf_def crlf_def)

lemma genMsg_body: "genMsg ord j = msg_body ord j @ crlf"
  by (cases j) simp_all

lemma strip_genMsg: "strip_crlf (genMsg ord j) = msg_body ord j"
  by (simp add: genMsg_body)

end
