(* ===== verification/Job_Queue.thy ===== *)
theory Job_Queue
  imports Send_Job
begin

text \<open>
  \<^verbatim>\<open>server/job_queue.cpp\<close>: the queue through which the server hands messages and the order to
  die to a worker thread. Every operation holds the queue's mutex for its whole body, so it is one
  step. \<open>fifo\<close> is the interface the worker relies on when it drains the queue.
\<close>

section \<open>The interface\<close>

locale fifo =
  fixes new :: 'q
    and push :: "'a \<Rightarrow> 'q \<Rightarrow> 'q"
    and pop :: "'q \<Rightarrow> ('a \<times> 'q) res"
    and has :: "'q \<Rightarrow> bool"
    and contents :: "'q \<Rightarrow> 'a list"
  assumes contents_new: "contents new = []"
    and contents_push: "contents (push x q) = contents q @ [x]"
    and has_contents: "has q \<longleftrightarrow> contents q \<noteq> []"
    and pop_contents: "contents q = x # xs \<Longrightarrow> \<exists>q'. pop q = Inr (x, q') \<and> contents q' = xs"
begin

text \<open>A client that asks before it pops never fails and gets the oldest element.\<close>

lemma pop_after_has: "has q \<Longrightarrow> \<exists>x q'. pop q = Inr (x, q') \<and> contents q = x # contents q'"
  using pop_contents has_contents by (metis neq_Nil_conv)

text \<open>Elements others push between the question and the pop do not change that.\<close>

lemma has_fold_push: "has q \<Longrightarrow> has (fold push xs q)"
proof (induction xs arbitrary: q)
  case (Cons x xs)
  have "has (push x q)" by (simp add: has_contents contents_push)
  with Cons.IH show ?case by simp
qed simp

lemma contents_fold_push: "contents (fold push xs q) = contents q @ xs"
  by (induction xs arbitrary: q) (simp_all add: contents_push)

lemma pop_fold_push:
  "has q \<Longrightarrow> \<exists>q'. pop (fold push xs q) = Inr (hd (contents q), q') \<and> contents q' = tl (contents q) @ xs"
  using pop_contents [of "fold push xs q" "hd (contents q)" "tl (contents q) @ xs"]
  by (cases "contents q") (simp_all add: has_contents contents_fold_push)

end

section \<open>The code\<close>

record job_queue =
  jobsPending :: "send_job list"
  killFlag :: bool

definition JobQueue :: job_queue where
  "JobQueue = \<lparr>jobsPending = [], killFlag = False\<rparr>"

definition popNextJob :: "job_queue \<Rightarrow> (send_job \<times> job_queue) res" where
  "popNextJob q =
     (case jobsPending q of
        [] \<Rightarrow> Inl (Runtime_error ''tried to pop from empty job queue'')
      | job # rest \<Rightarrow> Inr (job, q\<lparr>jobsPending := rest\<rparr>))"

definition hasKillOrder :: "job_queue \<Rightarrow> bool" where
  "hasKillOrder q = killFlag q"

definition pushNextJob :: "send_job \<Rightarrow> job_queue \<Rightarrow> job_queue" where
  "pushNextJob job q = q\<lparr>jobsPending := jobsPending q @ [job]\<rparr>"

definition hasNextJob :: "job_queue \<Rightarrow> bool" where
  "hasNextJob q \<longleftrightarrow> jobsPending q \<noteq> []"

definition setKillOrder :: "job_queue \<Rightarrow> job_queue" where
  "setKillOrder q = q\<lparr>killFlag := True\<rparr>"

interpretation jq: fifo JobQueue pushNextJob popNextJob hasNextJob jobsPending
  by unfold_locales (auto simp: JobQueue_def pushNextJob_def popNextJob_def hasNextJob_def)

section \<open>Draining\<close>

text \<open>\<^verbatim>\<open>while (jobQueue.hasNextJob()) pendingOutgoing.push(jobQueue.popNextJob());\<close>\<close>

function drain :: "job_queue \<Rightarrow> send_job list \<Rightarrow> (job_queue \<times> send_job list) res" where
  "drain q out =
     (if hasNextJob q then bindE (popNextJob q) (\<lambda>p. drain (snd p) (out @ [fst p]))
      else Inr (q, out))"
  by pat_completeness auto
termination
proof (relation "measure (\<lambda>(q, out). length (jobsPending q))")
  fix q :: job_queue and out :: "send_job list" and p
  assume "hasNextJob q" "popNextJob q = Inr p"
  then show "((snd p, out @ [fst p]), q, out) \<in> measure (\<lambda>(q, out). length (jobsPending q))"
    by (auto simp: popNextJob_def hasNextJob_def split: list.splits)
qed simp

declare drain.simps [simp del]

lemma drain_all: "drain q out = Inr (q\<lparr>jobsPending := []\<rparr>, out @ jobsPending q)"
proof (induction q out rule: drain.induct)
  case (1 q out)
  show ?case
  proof (cases "jobsPending q")
    case Nil
    then show ?thesis by (simp add: drain.simps [of q out] hasNextJob_def)
  next
    case (Cons j js)
    then have "hasNextJob q" "popNextJob q = Inr (j, q\<lparr>jobsPending := js\<rparr>)"
      by (simp_all add: hasNextJob_def popNextJob_def)
    with 1 Cons show ?thesis by (simp add: drain.simps [of q out])
  qed
qed

lemma kill_order_stays:
  "hasKillOrder q \<Longrightarrow> hasKillOrder (pushNextJob j q)"
  "hasKillOrder q \<Longrightarrow> popNextJob q = Inr (j, q') \<Longrightarrow> hasKillOrder q'"
  "hasKillOrder (setKillOrder q)"
  by (auto simp: hasKillOrder_def pushNextJob_def popNextJob_def setKillOrder_def split: list.splits)

section \<open>Properties\<close>

text \<open>The loop that moves the queue's messages to the worker terminates without an exception and moves
  them all, in their order, leaving the order to die as it is.\<close>

theorem drain_complete: "drain q out = Inr (q\<lparr>jobsPending := []\<rparr>, out @ jobsPending q)"
  by (rule drain_all)

end
