(* ===== verification/Utils.thy ===== *)
theory Utils
  imports Common_Types
begin

text \<open>
  \<^verbatim>\<open>common/utils.cpp\<close>: removing cards from a hand, printing lists, the non-blocking send loop,
  and the formatting of addresses. The reader of scenario files is in \<open>Scenario\<close>, the resolution of
  addresses in \<open>Net_Address\<close>.
\<close>

section \<open>Removing cards from a hand\<close>

fun rmCardIfPresent :: "hand \<Rightarrow> card \<Rightarrow> hand" where
  "rmCardIfPresent [] c = []"
| "rmCardIfPresent (x # hand) c =
     (if getColor x = getColor c \<and> getValue x = getValue c then hand
      else x # rmCardIfPresent hand c)"

fun rmIntersection :: "hand \<Rightarrow> table \<Rightarrow> hand" where
  "rmIntersection hand [] = hand"
| "rmIntersection hand (ct # table) = rmIntersection (rmCardIfPresent hand ct) table"

text \<open>On well-formed cards the loop removes the first occurrence of the card itself.\<close>

lemma rmCardIfPresent_remove1:
  "wf_card c \<Longrightarrow> \<forall>x \<in> set hand. wf_card x \<Longrightarrow> rmCardIfPresent hand c = remove1 c hand"
proof (induction hand)
  case (Cons x hand)
  then show ?case using same_card_iff [of x c] by auto
qed simp

lemma set_rmCardIfPresent: "set (rmCardIfPresent hand c) \<subseteq> set hand"
  by (induction hand) auto

lemma wf_rmCardIfPresent:
  "\<forall>x \<in> set hand. P x \<Longrightarrow> \<forall>x \<in> set (rmCardIfPresent hand c). P x"
  using set_rmCardIfPresent by blast

lemma rmIntersection_minus:
  "\<forall>c \<in> set table. wf_card c \<Longrightarrow> \<forall>x \<in> set hand. wf_card x \<Longrightarrow>
   distinct hand \<Longrightarrow> rmIntersection hand table = filter (\<lambda>x. x \<notin> set table) hand"
proof (induction table arbitrary: hand)
  case (Cons c table)
  have "rmIntersection hand (c # table) = rmIntersection (remove1 c hand) table"
    using Cons.prems by (simp add: rmCardIfPresent_remove1)
  also have "\<dots> = filter (\<lambda>x. x \<notin> set table) (remove1 c hand)"
    using Cons.prems by (intro Cons.IH) (auto dest: notin_set_remove1 in_set_remove1 set_remove1_subset [THEN subsetD])
  also have "\<dots> = filter (\<lambda>x. x \<notin> set (c # table)) hand"
    using Cons.prems(3) by (simp add: distinct_remove1_removeAll removeAll_filter_not_eq) (metis (no_types))
  finally show ?case .
qed simp

section \<open>Printing\<close>

fun printList :: "('a \<Rightarrow> string) \<Rightarrow> 'a list \<Rightarrow> string" where
  "printList f [] = ''''"
| "printList f [x] = f x"
| "printList f (x # y # xs) = f x @ '', '' @ printList f (y # xs)"

definition print_side :: "side \<Rightarrow> string" where
  "print_side s = [char_of_side s]"

definition formatAddr :: "net_address \<Rightarrow> string" where
  "formatAddr addr = snd addr @ '':'' @ to_string (int (fst addr))"

section \<open>The non-blocking send loop\<close>

text \<open>
  \<^verbatim>\<open>send\<close> is the kernel's: given the offset reached and the bytes asked for it yields its return
  value and \<^verbatim>\<open>errno\<close> (\<open>None\<close> for the 0 the loop stores before the call). Every continuing
  iteration has a larger offset, so a function of the offset describes any behaviour. The model
  returns, beside the code's return value, the bytes the kernel has taken.
\<close>

type_synonym send_fun = "nat \<Rightarrow> nat \<Rightarrow> int \<times> errno option"

definition would_block :: "errno option \<Rightarrow> bool" where
  "would_block e \<longleftrightarrow> e = Some EAGAIN \<or> e = Some EWOULDBLOCK"

function send_loop :: "send_fun \<Rightarrow> string \<Rightarrow> nat \<Rightarrow> int \<times> string" where
  "send_loop send buff written =
     (if written < length buff then
        (case send written (length buff - written) of (t, e) \<Rightarrow>
           if t \<noteq> int (length buff - written) \<and> would_block e
             then (int written + t, take (written + nat t) buff)
           else if t \<le> 0 then (-1, take written buff)
           else send_loop send buff (written + nat t))
      else (int written, take written buff))"
  by pat_completeness auto
termination
  by (relation "measure (\<lambda>(send, buff, written). length buff - written)") auto

declare send_loop.simps [simp del]

definition sendNoBlockN :: "send_fun \<Rightarrow> string \<Rightarrow> int \<times> string" where
  "sendNoBlockN send buff = send_loop send buff 0"

text \<open>What POSIX promises of \<^verbatim>\<open>send\<close>: minus one, or at most the bytes asked for.\<close>

definition send_ok :: "send_fun \<Rightarrow> bool" where
  "send_ok send \<longleftrightarrow> (\<forall>w n. - 1 \<le> fst (send w n) \<and> fst (send w n) \<le> int n)"

lemma send_loop_result:
  assumes "send_ok send" and "written \<le> length buff" and "send_loop send buff written = (r, out)"
  shows "(\<exists>k. written \<le> k \<and> k \<le> length buff \<and> out = take k buff) \<and>
         r \<le> int (length buff) \<and> (r = int (length buff) \<longleftrightarrow> out = buff)"
  using assms
proof (induction send buff written rule: send_loop.induct)
  case (1 send buff written)
  show ?case
  proof (cases "written < length buff")
    case False
    with 1(4) have "r = int written" "out = take written buff"
      by (auto simp: send_loop.simps [of send buff written])
    with False 1(3) show ?thesis by auto
  next
    case True
    obtain t e where te: "send written (length buff - written) = (t, e)" by fastforce
    with 1(2) have bounds: "- 1 \<le> t" "t \<le> int (length buff - written)"
      unfolding send_ok_def by (metis fst_conv)+
    consider (block) "t \<noteq> int (length buff - written) \<and> would_block e"
      | (err) "\<not> (t \<noteq> int (length buff - written) \<and> would_block e)" "t \<le> 0"
      | (ok) "\<not> (t \<noteq> int (length buff - written) \<and> would_block e)" "\<not> t \<le> 0" by blast
    then show ?thesis
    proof cases
      case block
      with te True 1(4) have "r = int written + t" "out = take (written + nat t) buff"
        by (auto simp: send_loop.simps [of send buff written])
      with bounds block True show ?thesis by (auto simp: take_all_iff intro!: exI [of _ "written + nat t"])
    next
      case err
      with te True 1(4) have "r = - 1" "out = take written buff"
        by (auto simp: send_loop.simps [of send buff written])
      with True show ?thesis by (auto simp: take_all_iff)
    next
      case ok
      from te True ok 1(4) have rec: "send_loop send buff (written + nat t) = (r, out)"
        by (auto simp: send_loop.simps [of send buff written])
      have "written + nat t \<le> length buff" using bounds True by linarith
      from 1(1) [OF True te [symmetric] ok 1(2) this rec] show ?thesis
        using le_add1 order_trans by blast
    qed
  qed
qed

text \<open>A kernel that takes whatever it is given.\<close>

definition full_send :: send_fun where
  "full_send written k = (int k, None)"

lemma full_send_all: "sendNoBlockN full_send m = (int (length m), m)"
  by (simp add: sendNoBlockN_def send_loop.simps [of full_send m 0] send_loop.simps [of full_send m "length m"]
      full_send_def would_block_def)

section \<open>Properties\<close>

text \<open>C40: Whatever the kernel does, the loop of \<open>sendNoBlockN\<close> hands it a prefix of the buffer, returns at
  most its length, and returns its length exactly if the whole buffer has been taken.\<close>

theorem sendNoBlockN_result:
  assumes "send_ok send"
  shows "(\<exists>k \<le> length buff. snd (sendNoBlockN send buff) = take k buff) \<and>
    fst (sendNoBlockN send buff) \<le> int (length buff) \<and>
    (fst (sendNoBlockN send buff) = int (length buff) \<longleftrightarrow> snd (sendNoBlockN send buff) = buff)"
  using send_loop_result [OF assms, of 0 buff "fst (sendNoBlockN send buff)" "snd (sendNoBlockN send buff)"]
  by (auto simp: sendNoBlockN_def)

text \<open>A kernel that takes at most two bytes a call.\<close>

definition two_bytes :: send_fun where
  "two_bytes w n = (int (min 2 n), None)"

theorem sendNoBlockN_result_witness:
  "fst (sendNoBlockN two_bytes ''abc'') = 3 \<longleftrightarrow> snd (sendNoBlockN two_bytes ''abc'') = ''abc''"
  using sendNoBlockN_result [of two_bytes "''abc''"] by (auto simp: send_ok_def two_bytes_def)

text \<open>After a partial write that ends in \<open>EAGAIN\<close> the value \<open>sendNoBlockN\<close> returns is one less than the
  number of bytes the kernel has taken, the -1 of the last \<open>send\<close> being added.\<close>

theorem sendNoBlockN_again:
  "sendNoBlockN (\<lambda>w n. if w = 0 then (2, None) else (- 1, Some EAGAIN)) ''abcd'' = (1, ''ab'')"
  by (simp add: sendNoBlockN_def send_loop.simps would_block_def)

text \<open>Taking the cards of a trick out of a hand of distinct cards leaves the other cards, in order.\<close>

theorem rmIntersection_hand:
  assumes "\<forall>c \<in> set table. wf_card c" and "\<forall>x \<in> set hand. wf_card x" and "distinct hand"
  shows "rmIntersection hand table = filter (\<lambda>x. x \<notin> set table) hand"
  using assms by (rule rmIntersection_minus)

theorem rmIntersection_hand_witness:
  "rmIntersection [mk_card ''2'' COLOR_C, mk_card ''A'' COLOR_H] [mk_card ''A'' COLOR_H, mk_card ''3'' COLOR_D] =
   [mk_card ''2'' COLOR_C]"
  using rmIntersection_hand [of "[mk_card ''A'' COLOR_H, mk_card ''3'' COLOR_D]"
      "[mk_card ''2'' COLOR_C, mk_card ''A'' COLOR_H]"]
  by (simp add: faces_def)

end
