(* ===== verification/IO_Worker_State.thy ===== *)
theory IO_Worker_State
  imports Job_Queue Utils
begin

text \<open>
  The members of \<^verbatim>\<open>IOWorker\<close> (\<^verbatim>\<open>server/io_worker.h\<close>) and of its two subclasses, the
  constructors, and the small operations on them: \<^verbatim>\<open>newJob\<close>, \<^verbatim>\<open>scheduleDeath\<close>, \<^verbatim>\<open>hasWork\<close> and
  \<^verbatim>\<open>closeConn\<close>.
\<close>

section \<open>State\<close>

text \<open>Which subclass an object is, with the member only the handler has.\<close>

datatype worker_kind = IOWorkerConnect | IOWorkerHandler

text \<open>
  The callbacks are no members here: they are the server's functions, arguments of the operations
  that call them. \<open>responseTimeout\<close> is the time point in milliseconds the pointer holds, if any;
  \<open>pollMainFd\<close> is \<^verbatim>\<open>pollFds[0].fd\<close>, \<open>None\<close> while \<^verbatim>\<open>pollFds\<close> is null.
\<close>

record io_worker =
  kind :: worker_kind
  wid :: int
  wantToToQuit :: bool
  terminate :: bool
  mainFd :: int
  pipeFd :: int
  jobQueue :: job_queue
  errs :: "err_info list"
  mainSockErr :: io_err_class
  closedFd :: bool
  ownAddr :: net_address
  clientAddr :: net_address
  responseTimeout :: "int option"
  wtimeout :: int
  nextTimeout :: int
  pendingIncoming :: "string list"
  pendingOutgoing :: "send_job list"
  peerCorrupted :: bool
  pollMainFd :: "int option"
  nextIncoming :: string

text \<open>\<open>now\<close> is the clock in milliseconds.\<close>

definition IOWorker ::
  "worker_kind \<Rightarrow> int \<Rightarrow> int \<Rightarrow> int \<Rightarrow> io_err_class \<Rightarrow> net_address \<Rightarrow> net_address \<Rightarrow> int \<Rightarrow> int \<Rightarrow> io_worker"
where
  "IOWorker k pfd i sockFd ec own client tmo now =
     \<lparr>kind = k, wid = i, wantToToQuit = False, terminate = False, mainFd = sockFd, pipeFd = pfd,
      jobQueue = JobQueue, errs = [], mainSockErr = ec, closedFd = False, ownAddr = own,
      clientAddr = client, responseTimeout = Some (now + tmo * 1000), wtimeout = tmo,
      nextTimeout = - 1, pendingIncoming = [], pendingOutgoing = [], peerCorrupted = False,
      pollMainFd = None, nextIncoming = ''''\<rparr>"

definition mk_connect :: "int \<Rightarrow> int \<Rightarrow> int \<Rightarrow> net_address \<Rightarrow> int \<Rightarrow> io_worker" where
  "mk_connect pfd i sockFd own now =
     IOWorker IOWorkerConnect pfd i sockFd IO_ERR_INTERNAL own (0, '''') (- 1) now"

definition mk_handler :: "int \<Rightarrow> int \<Rightarrow> int \<Rightarrow> net_address \<Rightarrow> net_address \<Rightarrow> int \<Rightarrow> int \<Rightarrow> io_worker" where
  "mk_handler pfd i sockFd client own tmo now =
     IOWorker IOWorkerHandler pfd i sockFd IO_ERR_EXTERNAL own client tmo now"

section \<open>Operations\<close>

definition newJob :: "send_job \<Rightarrow> io_worker \<Rightarrow> io_worker" where
  "newJob job w = w\<lparr>jobQueue := pushNextJob job (jobQueue w)\<rparr>"

definition scheduleDeath :: "io_worker \<Rightarrow> io_worker" where
  "scheduleDeath w = w\<lparr>jobQueue := setKillOrder (jobQueue w)\<rparr>"

definition hasWork :: "io_worker \<Rightarrow> bool" where
  "hasWork w =
     (if pendingIncoming w \<noteq> [] then True
      else if pendingOutgoing w \<noteq> [] \<and> \<not> closedFd w then True
      else False)"

text \<open>\<open>close_res\<close> is \<^verbatim>\<open>errno\<close> when \<^verbatim>\<open>close\<close> fails.\<close>

definition closeConn :: "errno option \<Rightarrow> io_worker \<Rightarrow> io_worker" where
  "closeConn close_res w =
     (let w1 = (if \<not> closedFd w then
                  (case close_res of
                     None \<Rightarrow> w
                   | Some e \<Rightarrow> w\<lparr>errs := errs w @ [Err ''close'' e (mainSockErr w)]\<rparr>)\<lparr>closedFd := True\<rparr>
                else w)
      in w1\<lparr>wantToToQuit := True,
            pollMainFd := (case pollMainFd w1 of None \<Rightarrow> None | Some fd \<Rightarrow> Some (- 1))\<rparr>)"

lemma closeConn_flags [simp]:
  "closedFd (closeConn r w)" "wantToToQuit (closeConn r w)"
  "pendingIncoming (closeConn r w) = pendingIncoming w"
  "pendingOutgoing (closeConn r w) = pendingOutgoing w"
  "jobQueue (closeConn r w) = jobQueue w" "terminate (closeConn r w) = terminate w"
  by (auto simp: closeConn_def Let_def split: option.splits)

text \<open>A second \<^verbatim>\<open>closeConn\<close> neither closes the descriptor again nor records an error.\<close>

lemma closeConn_closed: "closedFd w \<Longrightarrow> errs (closeConn r w) = errs w"
  by (simp add: closeConn_def)

lemma hasWork_closed: "closedFd w \<Longrightarrow> hasWork w \<longleftrightarrow> pendingIncoming w \<noteq> []"
  by (simp add: hasWork_def)

end
