(* ===== verification/Regex.thy ===== *)
theory Regex
  imports Kierki_Prelude
begin

text \<open>
  The part of \<^verbatim>\<open>std::regex\<close> (ECMAScript syntax) the message patterns use: literals, character
  classes, groups, alternatives and repetition. \<open>rx_rests\<close> is a backtracking matcher that lists
  the rests of the text after each way to match a prefix; \<open>regex_match\<close> asks for the whole text,
  and is proved equal to membership in the language of the expression.
\<close>

datatype rx =
    REps
  | RCls string
  | RSeq rx rx
  | RAlt rx rx
  | RStar rx

section \<open>Derived forms\<close>

fun rlit :: "string \<Rightarrow> rx" where
  "rlit [] = REps"
| "rlit (c # s) = RSeq (RCls [c]) (rlit s)"

fun rpow :: "nat \<Rightarrow> rx \<Rightarrow> rx" where
  "rpow 0 r = REps"
| "rpow (Suc n) r = RSeq r (rpow n r)"

fun rupto :: "nat \<Rightarrow> rx \<Rightarrow> rx" where
  "rupto 0 r = REps"
| "rupto (Suc n) r = RAlt (RSeq r (rupto n r)) REps"

text \<open>\<open>r{m,n}\<close> and \<open>r{n}\<close>.\<close>

definition rrep :: "nat \<Rightarrow> nat \<Rightarrow> rx \<Rightarrow> rx" where
  "rrep m n r = RSeq (rpow m r) (rupto (n - m) r)"

section \<open>The matcher\<close>

function rx_rests :: "rx \<Rightarrow> string \<Rightarrow> string list" where
  "rx_rests REps s = [s]"
| "rx_rests (RCls cs) s = (case s of [] \<Rightarrow> [] | c # t \<Rightarrow> if c \<in> set cs then [t] else [])"
| "rx_rests (RSeq r1 r2) s = concat (map (rx_rests r2) (rx_rests r1 s))"
| "rx_rests (RAlt r1 r2) s = rx_rests r1 s @ rx_rests r2 s"
| "rx_rests (RStar r) s =
     concat (map (\<lambda>t. if length t < length s then rx_rests (RStar r) t else []) (rx_rests r s)) @ [s]"
  by pat_completeness auto
termination
  by (relation "measures [\<lambda>(r, s). size r, \<lambda>(r, s). length s]") auto

declare rx_rests.simps(5) [simp del]

definition regex_match :: "string \<Rightarrow> rx \<Rightarrow> bool" where
  "regex_match s r \<longleftrightarrow> [] \<in> set (rx_rests r s)"

declare rlit.simps [simp del]

section \<open>The language\<close>

inductive rx_lang :: "rx \<Rightarrow> string \<Rightarrow> bool" where
  eps: "rx_lang REps []"
| cls: "c \<in> set cs \<Longrightarrow> rx_lang (RCls cs) [c]"
| seq: "rx_lang r1 s1 \<Longrightarrow> rx_lang r2 s2 \<Longrightarrow> rx_lang (RSeq r1 r2) (s1 @ s2)"
| alt1: "rx_lang r1 s \<Longrightarrow> rx_lang (RAlt r1 r2) s"
| alt2: "rx_lang r2 s \<Longrightarrow> rx_lang (RAlt r1 r2) s"
| star0: "rx_lang (RStar r) []"
| star1: "rx_lang r s1 \<Longrightarrow> rx_lang (RStar r) s2 \<Longrightarrow> rx_lang (RStar r) (s1 @ s2)"

inductive_simps rx_lang_Eps [simp]: "rx_lang REps s"
inductive_simps rx_lang_Cls [simp]: "rx_lang (RCls cs) s"
inductive_simps rx_lang_Seq: "rx_lang (RSeq r1 r2) s"
inductive_simps rx_lang_Alt [simp]: "rx_lang (RAlt r1 r2) s"

lemma rx_lang_Cls_Bex: "rx_lang (RCls cs) s \<longleftrightarrow> (\<exists>c \<in> set cs. s = [c])"
  by auto

lemma rx_lang_Seq_Cls:
  "rx_lang (RSeq (RCls cs) r) s \<longleftrightarrow> (\<exists>c t. s = c # t \<and> c \<in> set cs \<and> rx_lang r t)"
  by (auto simp: rx_lang_Seq) (metis append_Cons append_Nil)

lemma rx_rests_sound: "t \<in> set (rx_rests r s) \<Longrightarrow> \<exists>p. s = p @ t \<and> rx_lang r p"
proof (induction r s arbitrary: t rule: rx_rests.induct)
  case (2 cs s)
  then show ?case by (auto split: list.splits if_splits)
next
  case (3 r1 r2 s)
  from "3.prems" obtain u where u: "u \<in> set (rx_rests r1 s)" "t \<in> set (rx_rests r2 u)" by auto
  from "3.IH"(1) [OF u(1)] "3.IH"(2) [OF u] obtain p q where
    "s = p @ u" "rx_lang r1 p" "u = q @ t" "rx_lang r2 q" by blast
  then show ?case by (intro exI [of _ "p @ q"]) (auto intro: rx_lang.seq)
next
  case (5 r s)
  show ?case
  proof (cases "t = s")
    case True
    then show ?thesis using rx_lang.star0 [of r] by simp
  next
    case False
    with "5.prems" obtain u where u: "u \<in> set (rx_rests r s)" "length u < length s"
      "t \<in> set (rx_rests (RStar r) u)" by (auto simp: rx_rests.simps(5) [of r s] split: if_splits)
    from "5.IH"(1) [OF u(1)] "5.IH"(2) [OF u(1,2,3)] obtain p q where
      "s = p @ u" "rx_lang r p" "u = q @ t" "rx_lang (RStar r) q" by blast
    then show ?thesis by (intro exI [of _ "p @ q"]) (auto intro: rx_lang.star1)
  qed
qed auto

lemma rx_rests_complete: "rx_lang r p \<Longrightarrow> t \<in> set (rx_rests r (p @ t))"
proof (induction r p arbitrary: t rule: rx_lang.induct)
  case (star0 r)
  show ?case by (simp add: rx_rests.simps(5) [of r t])
next
  case (seq r1 s1 r2 s2)
  from seq.IH(1) [of "s2 @ t"] seq.IH(2) [of t] show ?case by auto
next
  case (star1 r s1 s2)
  show ?case
  proof (cases "s1 = []")
    case True
    with star1.IH(2) show ?thesis by simp
  next
    case False
    then have "length (s2 @ t) < length ((s1 @ s2) @ t)" by simp
    with star1.IH(1) [of "s2 @ t"] star1.IH(2) [of t] show ?thesis
      by (auto simp: rx_rests.simps(5) [of r "s1 @ s2 @ t"] intro!: bexI [of _ "s2 @ t"])
  qed
qed auto

lemma regex_match_lang: "regex_match s r \<longleftrightarrow> rx_lang r s"
proof
  show "regex_match s r \<Longrightarrow> rx_lang r s"
    unfolding regex_match_def by (drule rx_rests_sound) auto
  show "rx_lang r s \<Longrightarrow> regex_match s r"
    unfolding regex_match_def using rx_rests_complete [of r s "[]"] by simp
qed

section \<open>Languages of the derived forms\<close>

lemma rx_lang_lit [simp]: "rx_lang (rlit w) s \<longleftrightarrow> s = w"
  by (induction w arbitrary: s) (auto simp: rlit.simps rx_lang_Seq)

lemma rx_lang_pow: "rx_lang (rpow n r) s \<longleftrightarrow> (\<exists>ss. length ss = n \<and> s = concat ss \<and> (\<forall>t \<in> set ss. rx_lang r t))"
proof (induction n arbitrary: s)
  case (Suc n)
  have "rx_lang (rpow (Suc n) r) s \<longleftrightarrow>
      (\<exists>p q. s = p @ q \<and> rx_lang r p \<and> (\<exists>ss. length ss = n \<and> q = concat ss \<and> (\<forall>t \<in> set ss. rx_lang r t)))"
    by (simp add: rx_lang_Seq Suc.IH)
  also have "\<dots> \<longleftrightarrow> (\<exists>ss. length ss = Suc n \<and> s = concat ss \<and> (\<forall>t \<in> set ss. rx_lang r t))"
    by (auto simp: length_Suc_conv) (metis concat.simps(2) list.set_intros set_ConsD)+
  finally show ?case .
qed auto

lemma rx_lang_upto: "rx_lang (rupto n r) s \<longleftrightarrow> (\<exists>ss. length ss \<le> n \<and> s = concat ss \<and> (\<forall>t \<in> set ss. rx_lang r t))"
proof (induction n arbitrary: s)
  case (Suc n)
  show ?case (is "?L \<longleftrightarrow> ?R")
  proof
    assume ?L
    then consider "s = []" | p q where "s = p @ q" "rx_lang r p" "rx_lang (rupto n r) q"
      by (auto simp: rx_lang_Seq)
    then show ?R
    proof cases
      case 1
      then show ?thesis by (intro exI [of _ "[]"]) simp
    next
      case 2
      then obtain ss where "length ss \<le> n" "q = concat ss" "\<forall>t \<in> set ss. rx_lang r t"
        using Suc.IH by blast
      with 2 show ?thesis by (intro exI [of _ "p # ss"]) auto
    qed
  next
    assume ?R
    then obtain ss where ss: "length ss \<le> Suc n" "s = concat ss" "\<forall>t \<in> set ss. rx_lang r t" by blast
    then show ?L by (cases ss) (auto simp: rx_lang_Seq Suc.IH)
  qed
qed auto

lemma rx_lang_rep:
  "m \<le> n \<Longrightarrow> rx_lang (rrep m n r) s \<longleftrightarrow>
   (\<exists>ss. m \<le> length ss \<and> length ss \<le> n \<and> s = concat ss \<and> (\<forall>t \<in> set ss. rx_lang r t))"
proof
  assume "m \<le> n" "rx_lang (rrep m n r) s"
  then obtain xs ys where "length xs = m" "length ys \<le> n - m" "s = concat xs @ concat ys"
    "\<forall>t \<in> set xs. rx_lang r t" "\<forall>t \<in> set ys. rx_lang r t"
    by (auto simp: rrep_def rx_lang_Seq rx_lang_pow rx_lang_upto)
  with \<open>m \<le> n\<close> show "\<exists>ss. m \<le> length ss \<and> length ss \<le> n \<and> s = concat ss \<and> (\<forall>t \<in> set ss. rx_lang r t)"
    by (intro exI [of _ "xs @ ys"]) auto
next
  assume "\<exists>ss. m \<le> length ss \<and> length ss \<le> n \<and> s = concat ss \<and> (\<forall>t \<in> set ss. rx_lang r t)"
  then obtain ss where ss: "m \<le> length ss" "length ss \<le> n" "s = concat ss" "\<forall>t \<in> set ss. rx_lang r t"
    by blast
  have "rx_lang (rpow m r) (concat (take m ss))"
    unfolding rx_lang_pow using ss by (intro exI [of _ "take m ss"]) (auto dest: in_set_takeD)
  moreover have "rx_lang (rupto (n - m) r) (concat (drop m ss))"
    unfolding rx_lang_upto using ss by (intro exI [of _ "drop m ss"]) (auto dest: in_set_dropD)
  ultimately have "rx_lang (rrep m n r) (concat (take m ss) @ concat (drop m ss))"
    unfolding rrep_def by (rule rx_lang.seq)
  then show "rx_lang (rrep m n r) s"
    using ss(3) by (simp flip: concat_append)
qed

lemma rx_lang_star_cls: "rx_lang (RStar (RCls cs)) s \<longleftrightarrow> set s \<subseteq> set cs"
proof
  show "rx_lang (RStar (RCls cs)) s \<Longrightarrow> set s \<subseteq> set cs"
    by (induction "RStar (RCls cs)" s rule: rx_lang.induct) auto
  show "set s \<subseteq> set cs \<Longrightarrow> rx_lang (RStar (RCls cs)) s"
  proof (induction s)
    case (Cons c s)
    then have "rx_lang (RStar (RCls cs)) ([c] @ s)" by (intro rx_lang.star1) auto
    then show ?case by simp
  qed (simp add: rx_lang.star0)
qed

section \<open>Properties\<close>

text \<open>The matcher that stands for \<open>std::regex_match\<close> on the patterns of the parser accepts a text exactly
  if it belongs to the language of the pattern.\<close>

theorem regex_match_correct: "regex_match s r \<longleftrightarrow> rx_lang r s"
  by (rule regex_match_lang)

end
