(* ===== verification/Net_Parser.thy ===== *)
theory Net_Parser
  imports Regex Send_Job
begin

text \<open>
  The message parser of \<^verbatim>\<open>common/network_msg_parser.cpp\<close>: the nine patterns, the extraction code
  of each with its unsigned index arithmetic and its checked reads, and the loop over the patterns.
  The lemmas say what the extraction loops read from well-formed texts.
\<close>

section \<open>Patterns\<close>

definition SIDE_RX :: rx where
  "SIDE_RX = RCls ''NSEW''"

definition CARD_RX :: rx where
  "CARD_RX =
     RSeq (RAlt (RCls ''23456789'') (RAlt (rlit ''10'') (RAlt (rlit ''J'') (RAlt (rlit ''Q'')
            (RAlt (rlit ''K'') (rlit ''A''))))))
          (RAlt (rlit ''C'') (RAlt (rlit ''D'') (RAlt (rlit ''H'') (rlit ''S''))))"

definition RN_RX :: rx where
  "RN_RX = RAlt (RCls ''123456789'') (RSeq (rlit ''1'') (RCls ''0123''))"

definition NUM_RX :: rx where
  "NUM_RX = RAlt (rlit ''0'') (RSeq (RCls ''123456789'') (RStar (RCls ''0123456789'')))"

definition patterns :: "rx list" where
  "patterns =
     [RSeq (rlit ''IAM'') SIDE_RX,
      RSeq (rlit ''BUSY'') (rrep 1 4 SIDE_RX),
      RSeq (rlit ''DEAL'') (RSeq (RCls ''1234567'') (RSeq SIDE_RX (rrep 13 13 CARD_RX))),
      RSeq (rlit ''TRICK'') (RSeq RN_RX (rrep 0 3 CARD_RX)),
      RSeq (rlit ''TRICK'') (RSeq RN_RX CARD_RX),
      RSeq (rlit ''WRONG'') RN_RX,
      RSeq (rlit ''TAKEN'') (RSeq RN_RX (RSeq (rrep 4 4 CARD_RX) SIDE_RX)),
      RSeq (rlit ''SCORE'') (rrep 4 4 (RSeq SIDE_RX NUM_RX)),
      RSeq (rlit ''TOTAL'') (rrep 4 4 (RSeq SIDE_RX NUM_RX))]"

definition PATTERN_NO :: nat where
  "PATTERN_NO = 9"

section \<open>Extraction\<close>

type_synonym parse_resp = "(string \<times> string) list"

fun busy_sides :: "nat \<Rightarrow> string \<Rightarrow> nat \<Rightarrow> parse_resp res" where
  "busy_sides 0 m j = Inr []"
| "busy_sides (Suc n) m j =
     bindE (substr m j 1) (\<lambda>x. bindE (busy_sides n m (j + 1)) (\<lambda>rest. Inr ((''side'', x) # rest)))"

text \<open>One card read forwards at \<open>itr\<close>: its text and the index after it.\<close>

definition read_card :: "string \<Rightarrow> nat \<Rightarrow> (string \<times> nat) res" where
  "read_card m itr =
     bindE (str_at m itr) (\<lambda>c.
     if c = CHR ''1'' then bindE (substr m itr 3) (\<lambda>card. Inr (card, itr + 1 + 2))
     else bindE (substr m itr 2) (\<lambda>card. Inr (card, itr + 2)))"

fun deal_cards :: "nat \<Rightarrow> string \<Rightarrow> nat \<Rightarrow> parse_resp res" where
  "deal_cards 0 m itr = Inr []"
| "deal_cards (Suc n) m itr =
     bindE (read_card m itr) (\<lambda>(card, itr').
     bindE (deal_cards n m itr') (\<lambda>rest. Inr ((''card'', card) # rest)))"

text \<open>\<^verbatim>\<open>while (itr < m.size())\<close>: every turn moves the index forward.\<close>

function trick_cards :: "string \<Rightarrow> nat \<Rightarrow> parse_resp res" where
  "trick_cards m itr =
     (if itr < length m then
        bindE (read_card m itr) (\<lambda>p.
        bindE (trick_cards m (snd p)) (\<lambda>rest. Inr ((''card'', fst p) # rest)))
      else Inr [])"
  by pat_completeness auto
termination
  by (relation "measure (\<lambda>(m, itr). length m - itr)")
    (auto simp: read_card_def split: if_splits)

declare trick_cards.simps [simp del]

text \<open>Four cards read backwards, \<open>itr\<close> at the last character of the next one.\<close>

fun taken_cards :: "nat \<Rightarrow> string \<Rightarrow> nat \<Rightarrow> (parse_resp \<times> nat) res" where
  "taken_cards 0 m itr = Inr ([], itr)"
| "taken_cards (Suc n) m itr =
     bindE (str_at m (szsub itr 1)) (\<lambda>c.
     bindE (if c = CHR ''0'' then substr m (szsub itr 2) 3 else substr m (szsub itr 1) 2) (\<lambda>card.
     bindE (taken_cards n m (szsub (if c = CHR ''0'' then szsub itr 1 else itr) 2)) (\<lambda>(rest, itr').
     Inr ((''card'', card) # rest, itr'))))"

function score_end :: "string \<Rightarrow> nat \<Rightarrow> nat" where
  "score_end m itr =
     (if itr + 1 < length m \<and> is_digit (m ! (itr + 1)) then score_end m (itr + 1) else itr)"
  by pat_completeness auto
termination
  by (relation "measure (\<lambda>(m, itr). length m - itr)") auto

declare score_end.simps [simp del]

fun score_pairs :: "nat \<Rightarrow> string \<Rightarrow> nat \<Rightarrow> parse_resp res" where
  "score_pairs 0 m itr = Inr []"
| "score_pairs (Suc n) m itr =
     bindE (substr m itr 1) (\<lambda>sd.
     let start = itr + 1; last = score_end m start in
     bindE (substr m start (szsub last start + 1)) (\<lambda>sc.
     bindE (score_pairs n m (last + 1)) (\<lambda>rest.
     Inr ((''side'', sd) # (''score'', sc) # rest))))"

fun parse_case :: "nat \<Rightarrow> string \<Rightarrow> parse_resp res" where
  "parse_case i m =
     (if i = 0 then
        bindE (substr m 3 1) (\<lambda>s. Inr [(''type'', ''IAM''), (''side'', s)])
      else if i = 1 then
        bindE (busy_sides (length m - 4) m 4) (\<lambda>ss. Inr ((''type'', ''BUSY'') # ss))
      else if i = 2 then
        bindE (substr m 4 1) (\<lambda>mode.
        bindE (substr m 5 1) (\<lambda>s.
        bindE (deal_cards TRICKS_PER_ROUND m 6) (\<lambda>cs.
        Inr ((''type'', ''DEAL'') # (''round_mode'', mode) # (''side'', s) # cs))))
      else if i = 3 then
        bindE (if length m \<le> 7 then bindE (substr_from m 5) (\<lambda>rn. Inr (rn, 7))
               else bindE (str_at m 7) (\<lambda>ind.
                 if ind = CHR ''C'' \<or> ind = CHR ''H'' \<or> ind = CHR ''D'' \<or> ind = CHR ''S''
                    \<or> ind = CHR ''0''
                 then bindE (substr m 5 1) (\<lambda>rn. Inr (rn, 6))
                 else bindE (substr m 5 2) (\<lambda>rn. Inr (rn, 7)))) (\<lambda>(rn, itr).
        bindE (trick_cards m itr) (\<lambda>cs.
        Inr ((''type'', ''TRICK_S'') # (''rn'', rn) # cs)))
      else if i = 4 then
        bindE (str_at m (szsub (length m) 2)) (\<lambda>c.
        bindE (if c = CHR ''0'' then bindE (substr m (szsub (length m) 3) 3) (\<lambda>card. Inr (card, szsub (length m) 4))
               else bindE (substr m (szsub (length m) 2) 2) (\<lambda>card. Inr (card, szsub (length m) 3))) (\<lambda>(card, itr).
        bindE (substr m 5 (szsub itr 4)) (\<lambda>rn.
        Inr (rev [(''card'', card), (''rn'', rn), (''type'', ''TRICK_C'')]))))
      else if i = 5 then
        bindE (substr_from m 5) (\<lambda>rn. Inr [(''type'', ''WRONG''), (''rn'', rn)])
      else if i = 6 then
        bindE (substr_from m (szsub (length m) 1)) (\<lambda>s.
        bindE (taken_cards 4 m (szsub (length m) 2)) (\<lambda>(cs, itr).
        bindE (substr m 5 (szsub itr 4)) (\<lambda>rn.
        Inr (rev ((''side'', s) # cs @ [(''rn'', rn), (''type'', ''TAKEN'')])))))
      else if i = 7 then
        bindE (score_pairs 4 m 5) (\<lambda>ss. Inr ((''type'', ''SCORE'') # ss))
      else if i = 8 then
        bindE (score_pairs 4 m 5) (\<lambda>ss. Inr ((''type'', ''TOTAL'') # ss))
      else Inl Assert_failed)"

declare parse_case.simps [simp del]

text \<open>The loop over the patterns: the server reads only patterns 0 and 4, a client the others.\<close>

function parse_loop :: "nat \<Rightarrow> string \<Rightarrow> bool \<Rightarrow> parse_resp res" where
  "parse_loop i m serverSide =
     (if i < PATTERN_NO then
        if (if serverSide then i \<noteq> 0 \<and> i \<noteq> 4 else i = 0 \<or> i = 4)
        then parse_loop (i + 1) m serverSide
        else if regex_match m (patterns ! i) then parse_case i m
        else parse_loop (i + 1) m serverSide
      else Inr [])"
  by pat_completeness auto
termination
  by (relation "measure (\<lambda>(i, m, b). PATTERN_NO - i)") auto

declare parse_loop.simps [simp del]

definition parseNetMsg :: "string \<Rightarrow> bool \<Rightarrow> parse_resp res" where
  "parseNetMsg m serverSide = parse_loop 0 m serverSide"

section \<open>Texts of cards, trick numbers, sides and scores\<close>

definition card_text :: "string \<Rightarrow> bool" where
  "card_text t \<longleftrightarrow> (\<exists>v \<in> set faces. \<exists>k \<in> set ''CDHS''. t = v @ [k])"

definition rn_text :: "string \<Rightarrow> bool" where
  "rn_text t \<longleftrightarrow> t \<in> {''1'', ''2'', ''3'', ''4'', ''5'', ''6'', ''7'', ''8'', ''9'', ''10'', ''11'', ''12'', ''13''}"

definition num_text :: "string \<Rightarrow> bool" where
  "num_text t \<longleftrightarrow> t \<noteq> [] \<and> (\<forall>c \<in> set t. is_digit c) \<and> (t = ''0'' \<or> hd t \<noteq> CHR ''0'')"

lemma face_lang:
  "rx_lang (RAlt (RCls ''23456789'') (RAlt (rlit ''10'') (RAlt (rlit ''J'') (RAlt (rlit ''Q'')
     (RAlt (rlit ''K'') (rlit ''A'')))))) t \<longleftrightarrow> t \<in> set faces"
  by (simp only: rx_lang_Alt rx_lang_Cls_Bex rx_lang_lit faces_def list.set bex_simps
      insert_iff empty_iff disj_assoc simp_thms)

lemma suit_lang:
  "rx_lang (RAlt (rlit ''C'') (RAlt (rlit ''D'') (RAlt (rlit ''H'') (rlit ''S'')))) t
   \<longleftrightarrow> (\<exists>k \<in> set ''CDHS''. t = [k])"
  by auto

lemma card_text_lang: "rx_lang CARD_RX t \<longleftrightarrow> card_text t"
  unfolding CARD_RX_def rx_lang_Seq face_lang suit_lang card_text_def by blast

lemma rn_text_lang: "rx_lang RN_RX t \<longleftrightarrow> rn_text t"
  by (auto simp: RN_RX_def rx_lang_Seq rn_text_def)

lemma side_text_lang: "rx_lang SIDE_RX t \<longleftrightarrow> (\<exists>c \<in> set ''NSEW''. t = [c])"
  by (auto simp: SIDE_RX_def)

lemma num_text_lang: "rx_lang NUM_RX t \<longleftrightarrow> num_text t"
proof (cases t)
  case Nil
  then show ?thesis by (simp add: NUM_RX_def rx_lang_Seq num_text_def)
next
  case (Cons c r)
  have "rx_lang (RSeq (RCls ''123456789'') (RStar (RCls ''0123456789''))) (c # r) \<longleftrightarrow>
      c \<in> set ''123456789'' \<and> set r \<subseteq> set ''0123456789''"
    unfolding rx_lang_Seq_Cls rx_lang_star_cls by simp
  then have "rx_lang NUM_RX t \<longleftrightarrow> t = ''0'' \<or> is_digit c \<and> c \<noteq> CHR ''0'' \<and> (\<forall>c \<in> set r. is_digit c)"
    by (simp only: NUM_RX_def rx_lang_Alt rx_lang_lit Cons nonzero_digit_iff digits_subset_iff conj_assoc)
  moreover have "is_digit (CHR ''0'')" by (simp add: is_digit_def)
  ultimately show ?thesis using Cons by (auto simp: num_text_def)
qed

lemma card_text_cases [consumes 1, case_names short ten]:
  assumes "card_text t"
  obtains v k where "t = [v, k]" "v \<in> set ''23456789JQKA''" "k \<in> set ''CDHS''"
    | k where "t = [CHR ''1'', CHR ''0'', k]" "k \<in> set ''CDHS''"
proof -
  from assms obtain v k where t: "t = v @ [k]" "v \<in> set faces" "k \<in> set ''CDHS''"
    unfolding card_text_def by blast
  from face_cases [OF t(2)] show thesis using that t(1,3) by (elim disjE bexE) auto
qed

lemma card_text_toString: "game_card c \<Longrightarrow> card_text (toString c)"
  by (auto simp: game_card_def wf_card_iff card_text_def toString_def suits_def)

lemma card_text_fromString:
  assumes "card_text t"
  shows "\<exists>c. fromString t = Inr c \<and> game_card c \<and> toString c = t"
proof -
  from assms obtain v k where t: "t = v @ [k]" "v \<in> set faces" "k \<in> set ''CDHS''"
    unfolding card_text_def by blast
  moreover have "color_of_char k \<in> set suits"
    using t(3) by (auto simp: suits_def color_of_char_def)
  ultimately show ?thesis by (simp add: fromString_snoc Card_mk_card toString_def)
qed

lemma rn_text_digits: "1 \<le> n \<Longrightarrow> n \<le> 13 \<Longrightarrow> rn_text (nat_digits n)"
proof -
  assume "1 \<le> n" "n \<le> 13"
  then have "n \<in> {1, 2, 3, 4, 5, 6, 7, 8, 9, 10, 11, 12, 13}" by (simp; presburger)
  then show ?thesis by (auto simp: rn_text_def nat_digits.simps)
qed

lemma num_text_digits: "num_text (nat_digits n)"
  using nat_digits_digits [of n] nat_digits_hd_pos [of n]
  by (cases "n = 0") (auto simp: num_text_def nat_digits.simps [of 0])

lemma rn_text_cases [consumes 1, case_names one two]:
  assumes "rn_text t"
  obtains d where "t = [d]" "d \<in> set ''123456789''"
    | d where "t = [CHR ''1'', d]" "d \<in> set ''0123''"
  using assms by (auto simp: rn_text_def)

section \<open>The extraction loops\<close>

lemma busy_sides_ok:
  "busy_sides (length ss) (p @ ss) (length p) = Inr (map (\<lambda>c. (''side'', [c])) ss)"
proof (induction ss arbitrary: p)
  case (Cons c ss)
  have "substr (p @ c # ss) (length p) 1 = Inr [c]" by (simp add: substr_def)
  with Cons.IH [of "p @ [c]"] show ?case by simp
qed simp

lemma read_card_ok:
  "card_text t \<Longrightarrow> read_card (p @ t @ q) (length p) = Inr (t, length p + length t)"
  by (cases t rule: card_text_cases) (auto simp: read_card_def substr_def str_at_def)

lemma deal_cards_ok:
  "\<forall>t \<in> set ts. card_text t \<Longrightarrow>
   deal_cards (length ts) (p @ concat ts @ q) (length p) = Inr (map (\<lambda>t. (''card'', t)) ts)"
proof (induction ts arbitrary: p)
  case (Cons t ts)
  have "read_card (p @ t @ concat ts @ q) (length p) = Inr (t, length (p @ t))"
    using read_card_ok [of t p "concat ts @ q"] Cons.prems by simp
  with Cons.IH [of "p @ t"] Cons.prems show ?case by simp
qed simp

lemma trick_cards_ok:
  "\<forall>t \<in> set ts. card_text t \<Longrightarrow>
   trick_cards (p @ concat ts) (length p) = Inr (map (\<lambda>t. (''card'', t)) ts)"
proof (induction ts arbitrary: p)
  case Nil
  show ?case by (simp add: trick_cards.simps)
next
  case (Cons t ts)
  have r: "read_card (p @ t @ concat ts) (length p) = Inr (t, length (p @ t))"
    using read_card_ok [of t p "concat ts"] Cons.prems by simp
  have "t \<noteq> []" using Cons.prems by (auto simp: card_text_def)
  with r Cons.IH [of "p @ t"] Cons.prems show ?case
    by (simp add: trick_cards.simps [of "p @ t @ concat ts" "length p"])
qed

lemma taken_cards_ok:
  "\<forall>t \<in> set ts. card_text t \<Longrightarrow> p \<noteq> [] \<Longrightarrow>
   taken_cards (length ts) (p @ concat (rev ts) @ q) (length (p @ concat (rev ts)) - 1) =
   Inr (map (\<lambda>t. (''card'', t)) ts, length p - 1)"
proof (induction ts arbitrary: q)
  case (Cons t ts)
  define P where "P = p @ concat (rev ts)"
  have P: "0 < length P" using Cons.prems by (simp add: P_def)
  have IH: "taken_cards (length ts) (P @ t @ q) (length P - 1) = Inr (map (\<lambda>t. (''card'', t)) ts, length p - 1)"
    using Cons.IH [of "t @ q"] Cons.prems by (simp add: P_def)
  have "card_text t" using Cons.prems by simp
  then have "taken_cards (Suc (length ts)) (P @ t @ q) (length (P @ t) - 1) =
      Inr ((''card'', t) # map (\<lambda>t. (''card'', t)) ts, length p - 1)"
  proof (cases t rule: card_text_cases)
    case (short v k)
    then have "str_at (P @ t @ q) (length P) = Inr v" "v \<noteq> CHR ''0''"
      "substr (P @ t @ q) (length P) 2 = Inr t"
      by (auto simp: str_at_def substr_def)
    moreover obtain n where "length P = Suc n" using P gr0_implies_Suc by blast
    ultimately show ?thesis using IH short(1) by simp
  next
    case (ten k)
    then have "str_at (P @ t @ q) (Suc (length P)) = Inr (CHR ''0'')"
      "substr (P @ t @ q) (length P) 3 = Inr t"
      by (auto simp: str_at_def substr_def nth_append)
    moreover obtain n where "length P = Suc n" using P gr0_implies_Suc by blast
    ultimately show ?thesis using IH ten(1) by simp
  qed
  then show ?case by (simp add: P_def)
qed simp

lemma score_end_ok:
  "\<forall>c \<in> set ds. is_digit c \<Longrightarrow> q = [] \<or> \<not> is_digit (hd q) \<Longrightarrow>
   score_end (p @ d # ds @ q) (length p) = length p + length ds"
proof (induction ds arbitrary: p d)
  case Nil
  then show ?case
    by (cases q) (auto simp: score_end.simps [of "p @ d # x" "length p" for x] nth_append)
next
  case (Cons c ds)
  have "score_end (p @ d # c # ds @ q) (length p) = score_end ((p @ [d]) @ c # ds @ q) (length (p @ [d]))"
    using Cons.prems by (simp add: score_end.simps [of "p @ d # c # ds @ q" "length p"] nth_append)
  with Cons.IH [of "p @ [d]" c] Cons.prems show ?case by simp
qed

definition pair_text :: "char \<times> string \<Rightarrow> string" where
  "pair_text = (\<lambda>(s, d). s # d)"

lemma score_pairs_ok:
  "\<forall>(s, d) \<in> set ps. s \<in> set ''NSEW'' \<and> num_text d \<Longrightarrow>
   score_pairs (length ps) (p @ concat (map pair_text ps)) (length p) =
   Inr (concat (map (\<lambda>(s, d). [(''side'', [s]), (''score'', d)]) ps))"
proof (induction ps arbitrary: p)
  case (Cons x ps)
  obtain s d where x: "x = (s, d)" by (cases x)
  let ?q = "concat (map pair_text ps)"
  have "num_text d" using Cons.prems x by auto
  then obtain c ds where d: "d = c # ds" and ds: "\<forall>c \<in> set ds. is_digit c"
    by (cases d) (auto simp: num_text_def)
  have q: "?q = [] \<or> \<not> is_digit (hd ?q)"
    using Cons.prems by (cases ps) (auto simp: pair_text_def is_digit_def)
  have last: "score_end (p @ s # c # ds @ ?q) (Suc (length p)) = Suc (length p + length ds)"
    using score_end_ok [OF ds q, of "p @ [s]" c] by simp
  have "substr (p @ s # c # ds @ ?q) (length p) 1 = Inr [s]"
    and "substr (p @ s # c # ds @ ?q) (Suc (length p)) (Suc (length ds)) = Inr d"
    by (simp_all add: substr_def d)
  moreover have "score_pairs (length ps) (p @ s # c # ds @ ?q) (Suc (Suc (length p + length ds))) =
      Inr (concat (map (\<lambda>(s, d). [(''side'', [s]), (''score'', d)]) ps))"
    using Cons.IH [of "p @ s # c # ds"] Cons.prems by simp
  ultimately show ?case using last by (simp add: x d pair_text_def Let_def)
qed simp

end
