(* ===== verification/Net_Parser_Correct.thy ===== *)
theory Net_Parser_Correct
  imports Net_Parser
begin

text \<open>
  Correctness of the message parser: the parts of the messages each pattern matches, the fields
  the code reads from them, and from both the result of \<^verbatim>\<open>parseNetMsg\<close> on every text.
\<close>

section \<open>What each pattern matches and what is read from it\<close>

definition card_fields :: "string list \<Rightarrow> parse_resp" where
  "card_fields ts = map (\<lambda>t. (''card'', t)) ts"

definition side_fields :: "string \<Rightarrow> parse_resp" where
  "side_fields ss = map (\<lambda>c. (''side'', [c])) ss"

definition score_fields :: "(char \<times> string) list \<Rightarrow> parse_resp" where
  "score_fields ps = concat (map (\<lambda>(s, d). [(''side'', [s]), (''score'', d)]) ps)"

text \<open>A message taken apart: its fields as texts.\<close>

datatype msg_parts =
    M_Iam char
  | M_Busy string
  | M_Deal char char "string list"
  | M_Trick_S string "string list"
  | M_Trick_C string string
  | M_Wrong string
  | M_Taken string "string list" char
  | M_Score "(char \<times> string) list"
  | M_Total "(char \<times> string) list"

fun parts_ok :: "msg_parts \<Rightarrow> bool" where
  "parts_ok (M_Iam s) = (s \<in> set ''NSEW'')"
| "parts_ok (M_Busy ss) = (1 \<le> length ss \<and> length ss \<le> 4 \<and> (\<forall>s \<in> set ss. s \<in> set ''NSEW''))"
| "parts_ok (M_Deal r s ts) =
     (r \<in> set ''1234567'' \<and> s \<in> set ''NSEW'' \<and> length ts = 13 \<and> (\<forall>t \<in> set ts. card_text t))"
| "parts_ok (M_Trick_S rn ts) = (rn_text rn \<and> length ts \<le> 3 \<and> (\<forall>t \<in> set ts. card_text t))"
| "parts_ok (M_Trick_C rn t) = (rn_text rn \<and> card_text t)"
| "parts_ok (M_Wrong rn) = rn_text rn"
| "parts_ok (M_Taken rn ts s) =
     (rn_text rn \<and> length ts = 4 \<and> (\<forall>t \<in> set ts. card_text t) \<and> s \<in> set ''NSEW'')"
| "parts_ok (M_Score ps) = (length ps = 4 \<and> (\<forall>(s, d) \<in> set ps. s \<in> set ''NSEW'' \<and> num_text d))"
| "parts_ok (M_Total ps) = (length ps = 4 \<and> (\<forall>(s, d) \<in> set ps. s \<in> set ''NSEW'' \<and> num_text d))"

fun parts_text :: "msg_parts \<Rightarrow> string" where
  "parts_text (M_Iam s) = ''IAM'' @ [s]"
| "parts_text (M_Busy ss) = ''BUSY'' @ ss"
| "parts_text (M_Deal r s ts) = ''DEAL'' @ [r] @ [s] @ concat ts"
| "parts_text (M_Trick_S rn ts) = ''TRICK'' @ rn @ concat ts"
| "parts_text (M_Trick_C rn t) = ''TRICK'' @ rn @ t"
| "parts_text (M_Wrong rn) = ''WRONG'' @ rn"
| "parts_text (M_Taken rn ts s) = ''TAKEN'' @ rn @ concat ts @ [s]"
| "parts_text (M_Score ps) = ''SCORE'' @ concat (map pair_text ps)"
| "parts_text (M_Total ps) = ''TOTAL'' @ concat (map pair_text ps)"

fun parts_fields :: "msg_parts \<Rightarrow> parse_resp" where
  "parts_fields (M_Iam s) = [(''type'', ''IAM''), (''side'', [s])]"
| "parts_fields (M_Busy ss) = (''type'', ''BUSY'') # side_fields ss"
| "parts_fields (M_Deal r s ts) =
     (''type'', ''DEAL'') # (''round_mode'', [r]) # (''side'', [s]) # card_fields ts"
| "parts_fields (M_Trick_S rn ts) = (''type'', ''TRICK_S'') # (''rn'', rn) # card_fields ts"
| "parts_fields (M_Trick_C rn t) = [(''type'', ''TRICK_C''), (''rn'', rn), (''card'', t)]"
| "parts_fields (M_Wrong rn) = [(''type'', ''WRONG''), (''rn'', rn)]"
| "parts_fields (M_Taken rn ts s) =
     (''type'', ''TAKEN'') # (''rn'', rn) # card_fields ts @ [(''side'', [s])]"
| "parts_fields (M_Score ps) = (''type'', ''SCORE'') # score_fields ps"
| "parts_fields (M_Total ps) = (''type'', ''TOTAL'') # score_fields ps"

fun parts_pattern :: "msg_parts \<Rightarrow> nat" where
  "parts_pattern (M_Iam s) = 0"
| "parts_pattern (M_Busy ss) = 1"
| "parts_pattern (M_Deal r s ts) = 2"
| "parts_pattern (M_Trick_S rn ts) = 3"
| "parts_pattern (M_Trick_C rn t) = 4"
| "parts_pattern (M_Wrong rn) = 5"
| "parts_pattern (M_Taken rn ts s) = 6"
| "parts_pattern (M_Score ps) = 7"
| "parts_pattern (M_Total ps) = 8"

lemma parse_case_trick_s:
  assumes "rn_text rn" and "\<forall>t \<in> set ts. card_text t"
  shows "parse_case 3 (''TRICK'' @ rn @ concat ts) = Inr (parts_fields (M_Trick_S rn ts))"
proof -
  let ?m = "''TRICK'' @ rn @ concat ts"
  have cards: "trick_cards ?m (5 + length rn) = Inr (card_fields ts)"
    using trick_cards_ok [OF assms(2), of "''TRICK'' @ rn"] by (simp add: card_fields_def eval_nat_numeral)
  show ?thesis
  proof (cases ts)
    case Nil
    with assms(1) show ?thesis
      by (cases rn rule: rn_text_cases)
        (auto simp: parse_case.simps substr_from_def substr_def card_fields_def trick_cards.simps)
  next
    case (Cons t us)
    then have t: "card_text t" using assms(2) by simp
    from assms(1) show ?thesis
    proof (cases rn rule: rn_text_cases)
      case (one d)
      then have "rn = [d]" by simp
      with t cards Cons show ?thesis
        by (cases t rule: card_text_cases)
          (auto simp: parse_case.simps str_at_def substr_def eval_nat_numeral)
    next
      case (two d)
      then have "rn = [CHR ''1'', d]" by simp
      with t cards Cons show ?thesis
        by (cases t rule: card_text_cases)
          (auto simp: parse_case.simps str_at_def substr_def eval_nat_numeral)
    qed
  qed
qed

lemma parse_case_trick_c:
  assumes "rn_text rn" and "card_text t"
  shows "parse_case 4 (''TRICK'' @ rn @ t) = Inr (parts_fields (M_Trick_C rn t))"
  using assms(2,1)
proof (cases t rule: card_text_cases)
  case (short v k)
  then have "v \<noteq> CHR ''0''" by auto
  with assms(1) short(1) show ?thesis
    by (cases rn rule: rn_text_cases) (simp_all add: parse_case.simps str_at_def substr_def)
next
  case (ten k)
  with assms(1) show ?thesis
    by (cases rn rule: rn_text_cases) (simp_all add: parse_case.simps str_at_def substr_def)
qed

lemma parse_case_taken:
  assumes "rn_text rn" and "length ts = 4" and "\<forall>t \<in> set ts. card_text t"
  shows "parse_case 6 (''TAKEN'' @ rn @ concat ts @ [s]) = Inr (parts_fields (M_Taken rn ts s))"
proof -
  let ?m = "''TAKEN'' @ rn @ concat ts @ [s]"
  let ?p = "''TAKEN'' @ rn"
  have "ts \<noteq> []" "\<forall>t \<in> set ts. t \<noteq> []" using assms(2,3) by (auto simp: card_text_def)
  then have ne: "concat ts \<noteq> []" by (cases ts) auto
  have cards: "taken_cards 4 ?m (length ?m - 2) = Inr (card_fields (rev ts), length ?p - 1)"
    using taken_cards_ok [of "rev ts" ?p "[s]"] assms(2,3) by (simp add: card_fields_def)
  have side: "substr_from ?m (length ?m - 1) = Inr [s]"
    by (simp add: substr_from_def substr_def)
  have "substr ?m 5 (length ?p - 1 - 4) = Inr rn"
    using assms(1) by (cases rn rule: rn_text_cases) (simp_all add: substr_def)
  moreover have "1 \<le> length rn" using assms(1) by (cases rn rule: rn_text_cases) auto
  moreover have "szsub (length ?m) 1 = length ?m - 1" "szsub (length ?m) 2 = length ?m - 2"
    by (simp_all)
  moreover have "szsub (length ?p - 1) 4 = length ?p - 1 - 4" by simp
  ultimately show ?thesis
    using cards side by (simp add: parse_case.simps card_fields_def rev_map del: append.simps length_append)
qed

lemma parse_case_parts:
  assumes "parts_ok p"
  shows "parse_case (parts_pattern p) (parts_text p) = Inr (parts_fields p)"
  using assms
proof (cases p)
  case (M_Busy ss)
  then show ?thesis
    using busy_sides_ok [of ss "''BUSY''"]
    by (simp add: parse_case.simps side_fields_def eval_nat_numeral)
next
  case (M_Deal r s ts)
  with assms have "deal_cards 13 (''DEAL'' @ [r, s] @ concat ts) 6 = Inr (card_fields ts)"
    using deal_cards_ok [of ts "''DEAL'' @ [r, s]" "[]"] by (simp add: card_fields_def eval_nat_numeral)
  with M_Deal show ?thesis by (simp add: parse_case.simps substr_def TRICKS_PER_ROUND_def)
next
  case (M_Score ps)
  with assms show ?thesis
    using score_pairs_ok [of ps "''SCORE''"]
    by (simp add: parse_case.simps score_fields_def eval_nat_numeral)
next
  case (M_Total ps)
  with assms show ?thesis
    using score_pairs_ok [of ps "''TOTAL''"]
    by (simp add: parse_case.simps score_fields_def eval_nat_numeral)
next
  case (M_Trick_S rn ts)
  with assms have "rn_text rn" "\<forall>t \<in> set ts. card_text t" by simp_all
  then show ?thesis unfolding M_Trick_S parts_pattern.simps parts_text.simps
    by (rule parse_case_trick_s)
next
  case (M_Trick_C rn t)
  with assms parse_case_trick_c [of rn t] show ?thesis
    by (simp only: parts_ok.simps parts_pattern.simps parts_text.simps)
next
  case (M_Taken rn ts s)
  with assms have "rn_text rn" "length ts = 4" "\<forall>t \<in> set ts. card_text t" by simp_all
  then show ?thesis unfolding M_Taken parts_pattern.simps parts_text.simps
    by (rule parse_case_taken)
qed (simp_all add: parse_case.simps substr_def substr_from_def)

text \<open>Every text a pattern matches is the text of well-formed parts of that pattern.\<close>

lemma rx_lang_lit_Seq: "rx_lang (RSeq (rlit w) r) m \<longleftrightarrow> (\<exists>t. m = w @ t \<and> rx_lang r t)"
  by (auto simp: rx_lang_Seq)

lemma rep_cards_le:
  "rx_lang (rrep 0 n CARD_RX) t \<longleftrightarrow> (\<exists>ts. t = concat ts \<and> length ts \<le> n \<and> (\<forall>t \<in> set ts. card_text t))"
  unfolding rx_lang_rep [OF le0] card_text_lang by (auto simp: le0)

lemma rep_cards_exact:
  "rx_lang (rrep n n CARD_RX) t \<longleftrightarrow> (\<exists>ts. t = concat ts \<and> length ts = n \<and> (\<forall>t \<in> set ts. card_text t))"
  unfolding rx_lang_rep [OF order_refl] card_text_lang by (metis order_antisym order_refl)

lemma rep_sides:
  assumes "rx_lang (rrep 1 4 SIDE_RX) t"
  shows "1 \<le> length t \<and> length t \<le> 4 \<and> (\<forall>s \<in> set t. s \<in> set ''NSEW'')"
proof -
  have "1 \<le> (4 :: nat)" by simp
  from assms [unfolded rx_lang_rep [OF this] side_text_lang] obtain us where
    us: "1 \<le> length us" "length us \<le> 4" "t = concat us"
    "\<forall>u \<in> set us. \<exists>c \<in> set ''NSEW''. u = [c]" by blast
  from us(4) obtain cs where cs: "us = map (\<lambda>c. [c]) cs" "\<forall>c \<in> set cs. c \<in> set ''NSEW''"
    using ex_map_list [of us "\<lambda>c. c \<in> set ''NSEW''" "\<lambda>c. [c]"] by auto
  have "concat (map (\<lambda>c. [c]) cs) = cs" by (induction cs) auto
  with us cs show ?thesis by simp
qed

lemma rep_pairs:
  assumes "rx_lang (rrep 4 4 (RSeq SIDE_RX NUM_RX)) t"
  obtains ps where "length ps = 4" "t = concat (map pair_text ps)"
    "\<forall>(s, d) \<in> set ps. s \<in> set ''NSEW'' \<and> num_text d"
proof -
  from assms obtain us where us: "length us = 4" "t = concat us"
    "\<forall>u \<in> set us. rx_lang (RSeq SIDE_RX NUM_RX) u"
    by (auto simp: rx_lang_rep)
  have "\<forall>u \<in> set us. \<exists>x. (case x of (s, d) \<Rightarrow> s \<in> set ''NSEW'' \<and> num_text d) \<and> u = pair_text x"
  proof
    fix u
    assume "u \<in> set us"
    with us(3) have "rx_lang (RSeq SIDE_RX NUM_RX) u" by blast
    then obtain s d where "s \<in> set ''NSEW''" "num_text d" "u = s # d"
      unfolding SIDE_RX_def rx_lang_Seq_Cls num_text_lang by blast
    then show "\<exists>x. (case x of (s, d) \<Rightarrow> s \<in> set ''NSEW'' \<and> num_text d) \<and> u = pair_text x"
      by (intro exI [of _ "(s, d)"]) (simp add: pair_text_def del: list.set)
  qed
  then obtain ps where "us = map pair_text ps" "\<forall>x \<in> set ps. case x of (s, d) \<Rightarrow> s \<in> set ''NSEW'' \<and> num_text d"
    using ex_map_list by blast
  with us that show thesis by simp
qed

lemma nth_patterns:
  "patterns ! 0 = RSeq (rlit ''IAM'') SIDE_RX"
  "patterns ! 1 = RSeq (rlit ''BUSY'') (rrep 1 4 SIDE_RX)"
  "patterns ! 2 = RSeq (rlit ''DEAL'') (RSeq (RCls ''1234567'') (RSeq SIDE_RX (rrep 13 13 CARD_RX)))"
  "patterns ! 3 = RSeq (rlit ''TRICK'') (RSeq RN_RX (rrep 0 3 CARD_RX))"
  "patterns ! 4 = RSeq (rlit ''TRICK'') (RSeq RN_RX CARD_RX)"
  "patterns ! 5 = RSeq (rlit ''WRONG'') RN_RX"
  "patterns ! 6 = RSeq (rlit ''TAKEN'') (RSeq RN_RX (RSeq (rrep 4 4 CARD_RX) SIDE_RX))"
  "patterns ! 7 = RSeq (rlit ''SCORE'') (rrep 4 4 (RSeq SIDE_RX NUM_RX))"
  "patterns ! 8 = RSeq (rlit ''TOTAL'') (rrep 4 4 (RSeq SIDE_RX NUM_RX))"
  by (simp_all add: patterns_def)

lemmas nth_patterns_simps = nth_patterns nth_patterns(2) [unfolded One_nat_def]

lemma pattern_parts:
  assumes "i < PATTERN_NO" and m: "rx_lang (patterns ! i) m"
  shows "\<exists>p. parts_ok p \<and> parts_pattern p = i \<and> parts_text p = m"
proof -
  from assms(1) have "i \<in> {0, 1, 2, 3, 4, 5, 6, 7, 8}" by (simp add: PATTERN_NO_def; presburger)
  then consider "i = 0" | "i = 1" | "i = 2" | "i = 3" | "i = 4" | "i = 5" | "i = 6" | "i = 7" | "i = 8"
    by blast
  then show ?thesis
  proof cases
    case 1
    from m [unfolded 1 nth_patterns rx_lang_lit_Seq side_text_lang] obtain c where "c \<in> set ''NSEW''" "m = ''IAM'' @ [c]" by blast
    with 1 show ?thesis by (intro exI [of _ "M_Iam c"]) (simp del: list.set)
  next
    case 2
    from m [unfolded 2 nth_patterns, unfolded rx_lang_lit_Seq] obtain t where "m = ''BUSY'' @ t" "rx_lang (rrep 1 4 SIDE_RX) t" by blast
    with 2 rep_sides [of t] show ?thesis by (intro exI [of _ "M_Busy t"]) (simp del: list.set)
  next
    case 3
    from m [unfolded 3 nth_patterns rx_lang_lit_Seq] obtain t0 where
      t0: "m = ''DEAL'' @ t0"
      "rx_lang (RSeq (RCls ''1234567'') (RSeq SIDE_RX (rrep 13 13 CARD_RX))) t0" by blast
    from t0(2) [unfolded rx_lang_Seq_Cls] obtain r t1 where
      t1: "t0 = r # t1" "r \<in> set ''1234567''" "rx_lang (RSeq SIDE_RX (rrep 13 13 CARD_RX)) t1"
      by (elim exE conjE)
    from t1(3) [unfolded rx_lang_Seq_Cls SIDE_RX_def] obtain s t where
      t2: "t1 = s # t" "s \<in> set ''NSEW''" "rx_lang (rrep 13 13 CARD_RX) t"
      by (elim exE conjE)
    have "m = ''DEAL'' @ r # s # t" using t0(1) t1(1) t2(1) by (simp only:)
    note parts = this t1(2) t2(2,3)
    from parts(4) [unfolded rep_cards_exact] obtain ts where
      ts: "t = concat ts" "length ts = 13" "\<forall>t \<in> set ts. card_text t" by blast
    have "parts_ok (M_Deal r s ts)" "parts_text (M_Deal r s ts) = m"
      using parts(1-3) ts
      by (simp_all only: parts_ok.simps parts_text.simps append_Cons append_Nil simp_thms)
    then show ?thesis using 3 parts_pattern.simps(3) by blast
  next
    case 4
    from m [unfolded 4 nth_patterns, unfolded rx_lang_lit_Seq, unfolded rx_lang_Seq rn_text_lang] obtain rn t where "m = ''TRICK'' @ rn @ t" "rn_text rn" "rx_lang (rrep 0 3 CARD_RX) t" by blast
    moreover from this(3) obtain ts where "t = concat ts" "length ts \<le> 3" "\<forall>t \<in> set ts. card_text t"
      unfolding rep_cards_le by blast
    ultimately show ?thesis using 4 by (intro exI [of _ "M_Trick_S rn ts"]) simp
  next
    case 5
    from m [unfolded 5 nth_patterns, unfolded rx_lang_lit_Seq, unfolded rx_lang_Seq rn_text_lang card_text_lang] obtain rn t where "m = ''TRICK'' @ rn @ t" "rn_text rn" "card_text t" by blast
    with 5 show ?thesis by (intro exI [of _ "M_Trick_C rn t"]) simp
  next
    case 6
    from m [unfolded 6 nth_patterns, unfolded rx_lang_lit_Seq, unfolded rn_text_lang] obtain rn where "m = ''WRONG'' @ rn" "rn_text rn" by blast
    with 6 show ?thesis by (intro exI [of _ "M_Wrong rn"]) simp
  next
    case 7
    from m [unfolded 7 nth_patterns, unfolded rx_lang_lit_Seq, unfolded rx_lang_Seq rn_text_lang side_text_lang] obtain rn t s where "m = ''TAKEN'' @ rn @ t @ [s]" "rn_text rn"
      "rx_lang (rrep 4 4 CARD_RX) t" "s \<in> set ''NSEW''" by blast
    moreover from this(3) obtain ts where "t = concat ts" "length ts = 4" "\<forall>t \<in> set ts. card_text t"
      unfolding rep_cards_exact by blast
    ultimately show ?thesis using 7 by (intro exI [of _ "M_Taken rn ts s"]) (simp del: list.set)
  next
    case 8
    from m [unfolded 8 nth_patterns, unfolded rx_lang_lit_Seq] obtain t where "m = ''SCORE'' @ t" "rx_lang (rrep 4 4 (RSeq SIDE_RX NUM_RX)) t" by blast
    with 8 rep_pairs [of t] show ?thesis by (metis parts_ok.simps(8) parts_pattern.simps(8) parts_text.simps(8))
  next
    case 9
    from m [unfolded 9 nth_patterns, unfolded rx_lang_lit_Seq] obtain t where "m = ''TOTAL'' @ t" "rx_lang (rrep 4 4 (RSeq SIDE_RX NUM_RX)) t" by blast
    with 9 rep_pairs [of t] show ?thesis by (metis parts_ok.simps(9) parts_pattern.simps(9) parts_text.simps(9))
  qed
qed

lemma rep_cardsI:
  "m \<le> length ts \<Longrightarrow> length ts \<le> n \<Longrightarrow> \<forall>t \<in> set ts. card_text t \<Longrightarrow>
   rx_lang (rrep m n CARD_RX) (concat ts)"
  using rx_lang_rep [of m n CARD_RX "concat ts"] by (auto simp: card_text_lang)

lemma rep_clsI:
  assumes "m \<le> n" "m \<le> length ss" "length ss \<le> n" "\<forall>s \<in> set ss. s \<in> set cs"
  shows "rx_lang (rrep m n (RCls cs)) ss"
proof -
  have "concat (map (\<lambda>c. [c]) ss) = ss" by (induction ss) auto
  with assms show ?thesis
    unfolding rx_lang_rep [OF assms(1)] rx_lang_Cls_Bex
    by (intro exI [of _ "map (\<lambda>c. [c]) ss"]) auto
qed

lemma rep_sidesI:
  "1 \<le> length ss \<Longrightarrow> length ss \<le> 4 \<Longrightarrow> \<forall>s \<in> set ss. s \<in> set ''NSEW'' \<Longrightarrow>
   rx_lang (rrep 1 4 SIDE_RX) ss"
  unfolding SIDE_RX_def by (rule rep_clsI) simp_all

lemma rep_pairsI:
  assumes "length ps = 4" "\<forall>(s, d) \<in> set ps. s \<in> set ''NSEW'' \<and> num_text d"
  shows "rx_lang (rrep 4 4 (RSeq SIDE_RX NUM_RX)) (concat (map pair_text ps))"
proof -
  have "\<forall>u \<in> set (map pair_text ps). rx_lang (RSeq SIDE_RX NUM_RX) u"
    using assms(2) by (auto simp: pair_text_def SIDE_RX_def rx_lang_Seq_Cls num_text_lang simp del: list.set)
  moreover have "length (map pair_text ps) = 4" using assms(1) by simp
  ultimately show ?thesis unfolding rx_lang_rep [OF order_refl] by (metis order_refl)
qed

lemma sideI: "s \<in> set ''NSEW'' \<Longrightarrow> rx_lang SIDE_RX [s]"
  unfolding SIDE_RX_def by (rule rx_lang.cls)

lemmas match_intros = rx_lang.seq rx_lang.cls sideI rep_sidesI rep_pairsI rep_cardsI
  rn_text_lang [THEN iffD2] card_text_lang [THEN iffD2]

lemma rep_cards_exactI:
  "length ts = n \<Longrightarrow> \<forall>t \<in> set ts. card_text t \<Longrightarrow> rx_lang (rrep n n CARD_RX) (concat ts)"
  unfolding rep_cards_exact by blast

lemma deal_match:
  assumes "r \<in> set ''1234567''" and "s \<in> set ''NSEW''" and "length ts = 13"
    and "\<forall>t \<in> set ts. card_text t"
  shows "rx_lang (RSeq (rlit ''DEAL'') (RSeq (RCls ''1234567'') (RSeq SIDE_RX (rrep 13 13 CARD_RX))))
     (''DEAL'' @ [r] @ [s] @ concat ts)"
proof -
  have "rx_lang (rlit ''DEAL'') ''DEAL''" by (simp only: rx_lang_lit)
  moreover have "rx_lang (RSeq (RCls ''1234567'') (RSeq SIDE_RX (rrep 13 13 CARD_RX))) ([r] @ [s] @ concat ts)"
    by (rule rx_lang.seq [OF rx_lang.cls [OF assms(1)]
        rx_lang.seq [OF sideI [OF assms(2)] rep_cards_exactI [OF assms(3,4)]]])
  ultimately show ?thesis by (rule rx_lang.seq)
qed

lemma parts_match:
  assumes "parts_ok p"
  shows "rx_lang (patterns ! parts_pattern p) (parts_text p)"
proof (cases p)
  case (M_Deal r s ts)
  with assms have "r \<in> set ''1234567''" "s \<in> set ''NSEW''" "length ts = 13" "\<forall>t \<in> set ts. card_text t"
    by (simp_all only: parts_ok.simps) blast+
  then show ?thesis
    unfolding M_Deal parts_pattern.simps parts_text.simps nth_patterns by (rule deal_match)
next
  case (M_Iam s)
  with assms show ?thesis
    by (simp only: parts_ok.simps parts_pattern.simps parts_text.simps nth_patterns)
      (intro rx_lang.seq sideI; simp)
next
  case (M_Busy ss)
  with assms show ?thesis
    by (simp only: parts_ok.simps parts_pattern.simps parts_text.simps nth_patterns)
      (intro rx_lang.seq rep_sidesI; simp)
next
  case (M_Trick_S rn ts)
  with assms show ?thesis
    by (simp only: parts_ok.simps parts_pattern.simps parts_text.simps nth_patterns)
      (intro rx_lang.seq rep_cardsI; simp add: rn_text_lang)
next
  case (M_Trick_C rn t)
  with assms show ?thesis
    by (simp only: parts_ok.simps parts_pattern.simps parts_text.simps nth_patterns)
      (intro rx_lang.seq; simp add: rn_text_lang card_text_lang)
next
  case (M_Wrong rn)
  with assms show ?thesis
    by (simp only: parts_ok.simps parts_pattern.simps parts_text.simps nth_patterns)
      (intro rx_lang.seq; simp add: rn_text_lang)
next
  case (M_Taken rn ts s)
  with assms show ?thesis
    by (simp only: parts_ok.simps parts_pattern.simps parts_text.simps nth_patterns)
      (intro rx_lang.seq rep_cardsI sideI; simp add: rn_text_lang)
next
  case (M_Score ps)
  with assms show ?thesis
    by (simp only: parts_ok.simps parts_pattern.simps parts_text.simps nth_patterns)
      (intro rx_lang.seq rep_pairsI; simp)
next
  case (M_Total ps)
  with assms show ?thesis
    by (simp only: parts_ok.simps parts_pattern.simps parts_text.simps nth_patterns)
      (intro rx_lang.seq rep_pairsI; simp)
qed

section \<open>The parser as a whole\<close>

text \<open>The patterns one side looks at match disjoint sets of texts, so the first match is the only one.\<close>

fun parts_server :: "msg_parts \<Rightarrow> bool" where
  "parts_server (M_Iam s) = True"
| "parts_server (M_Trick_C rn t) = True"
| "parts_server _ = False"

lemma parts_pattern_less: "parts_pattern p < PATTERN_NO"
  by (cases p) (simp_all add: PATTERN_NO_def)

lemma parts_pattern_unique:
  assumes "parts_text p = parts_text q" and "parts_server p = parts_server q"
  shows "parts_pattern p = parts_pattern q"
  using assms by (cases p; cases q) simp_all

lemma parts_server_pattern: "parts_server p \<longleftrightarrow> parts_pattern p = 0 \<or> parts_pattern p = 4"
  by (cases p) simp_all

definition pattern_skipped :: "nat \<Rightarrow> bool \<Rightarrow> bool" where
  "pattern_skipped i b \<longleftrightarrow> (if b then i \<noteq> 0 \<and> i \<noteq> 4 else i = 0 \<or> i = 4)"

lemma parse_loop_hit:
  "i < PATTERN_NO \<Longrightarrow> \<not> pattern_skipped i b \<Longrightarrow> regex_match m (patterns ! i) \<Longrightarrow>
   parse_loop i m b = parse_case i m"
  by (simp add: parse_loop.simps [of i m b] pattern_skipped_def)

lemma parse_loop_next:
  "i < PATTERN_NO \<Longrightarrow> pattern_skipped i b \<or> \<not> regex_match m (patterns ! i) \<Longrightarrow>
   parse_loop i m b = parse_loop (i + 1) m b"
  by (auto simp: parse_loop.simps [of i m b] pattern_skipped_def)

lemma parse_loop_end: "\<not> i < PATTERN_NO \<Longrightarrow> parse_loop i m b = Inr []"
  by (simp add: parse_loop.simps [of i m b])

lemma parts_not_skipped: "\<not> pattern_skipped (parts_pattern p) b \<longleftrightarrow> parts_server p = b"
  by (auto simp: pattern_skipped_def parts_server_pattern)

lemma other_pattern_no_match:
  assumes "i < PATTERN_NO" "i \<noteq> parts_pattern p"
  shows "pattern_skipped i (parts_server p) \<or> \<not> regex_match (parts_text p) (patterns ! i)"
proof (rule ccontr)
  assume "\<not> ?thesis"
  then obtain q where "parts_ok q" "parts_pattern q = i" "parts_text q = parts_text p"
    and "\<not> pattern_skipped i (parts_server p)"
    using pattern_parts [OF assms(1)] by (auto simp: regex_match_lang)
  with parts_not_skipped [of q "parts_server p"] parts_pattern_unique [of q p] assms(2)
  show False by simp
qed

lemma parse_loop_parts:
  assumes ok: "parts_ok p"
  shows "i \<le> parts_pattern p \<Longrightarrow> parse_loop i (parts_text p) (parts_server p) = Inr (parts_fields p)"
proof (induction "parts_pattern p - i" arbitrary: i)
  case 0
  then have i: "i = parts_pattern p" by simp
  have "regex_match (parts_text p) (patterns ! i)"
    using i parts_match [OF ok] by (simp add: regex_match_lang)
  with i parts_pattern_less parts_not_skipped have
    "parse_loop i (parts_text p) (parts_server p) = parse_case i (parts_text p)"
    by (intro parse_loop_hit) auto
  with i parse_case_parts [OF ok] show ?case by simp
next
  case (Suc k)
  then have lt: "i < PATTERN_NO" and ne: "i \<noteq> parts_pattern p" and le: "i + 1 \<le> parts_pattern p"
    using parts_pattern_less [of p] by auto
  have "parse_loop (i + 1) (parts_text p) (parts_server p) = Inr (parts_fields p)"
    using Suc le by (intro Suc.hyps(1)) auto
  with parse_loop_next [OF lt other_pattern_no_match [OF lt ne]] show ?case by simp
qed

lemma parse_loop_none:
  assumes none: "\<And>p. parts_ok p \<Longrightarrow> parts_server p = b \<Longrightarrow> parts_text p \<noteq> m"
  shows "parse_loop i m b = Inr []"
proof (induction "PATTERN_NO - i" arbitrary: i)
  case 0
  then show ?case by (simp add: parse_loop_end)
next
  case (Suc k)
  then have lt: "i < PATTERN_NO" by simp
  have "pattern_skipped i b \<or> \<not> regex_match m (patterns ! i)"
  proof (rule ccontr)
    assume "\<not> ?thesis"
    then obtain q where "parts_ok q" "parts_pattern q = i" "parts_text q = m" "\<not> pattern_skipped i b"
      using pattern_parts [OF lt] by (auto simp: regex_match_lang)
    with parts_not_skipped [of q b] none [of q] show False by simp
  qed
  with parse_loop_next [OF lt this] Suc show ?case by simp
qed

lemma parseNetMsg_parts:
  "parts_ok p \<Longrightarrow> parseNetMsg (parts_text p) (parts_server p) = Inr (parts_fields p)"
  by (simp add: parseNetMsg_def parse_loop_parts)

lemma parseNetMsg_cases:
  obtains (parts) p where "parts_ok p" "parts_server p = b" "m = parts_text p"
      "parseNetMsg m b = Inr (parts_fields p)"
    | (none) "parseNetMsg m b = Inr []"
proof (cases "\<exists>p. parts_ok p \<and> parts_server p = b \<and> m = parts_text p")
  case True
  then show thesis using parts parseNetMsg_parts by blast
next
  case False
  then have "parse_loop 0 m b = Inr []" by (intro parse_loop_none) blast
  then show thesis using none by (simp add: parseNetMsg_def)
qed

end
