(* ===== verification/Protocol.thy ===== *)
theory Protocol
  imports Net_Parser_Correct Send_Job "HOL-Library.Multiset"
begin

text \<open>
  The protocol as a whole: every message the programs send is read back as its fields by the peer's
  parser. \<open>job_parts\<close> takes a job apart the way \<^verbatim>\<open>Net_Parser_Correct\<close> describes messages;
  \<open>client_job\<close> is the card a client sends.
\<close>

section \<open>Jobs that are well-formed\<close>

text \<open>\<open>ord\<close> is the iteration order of the score map: its four keys.\<close>

definition scores_ok :: "side list \<Rightarrow> score_map \<Rightarrow> bool" where
  "scores_ok ord scores \<longleftrightarrow>
     mset ord = mset sides \<and> (\<forall>t \<in> set sides. \<exists>v. scores t = Some v \<and> 0 \<le> v)"

fun job_ok :: "side list \<Rightarrow> send_job \<Rightarrow> bool" where
  "job_ok ord (SendJobBusy taken) \<longleftrightarrow> taken \<noteq> [] \<and> length taken \<le> 4 \<and> (\<forall>t \<in> set taken. real_side t)"
| "job_ok ord (SendDealJob r s cards) \<longleftrightarrow>
     real_round r \<and> real_side s \<and> length cards = TRICKS_PER_ROUND \<and> (\<forall>c \<in> set cards. game_card c)"
| "job_ok ord (SendJobIntro s) \<longleftrightarrow> real_side s"
| "job_ok ord (SendJobScore scores) \<longleftrightarrow> scores_ok ord scores"
| "job_ok ord (SendJobTaken tab s n) \<longleftrightarrow>
     length tab = 4 \<and> (\<forall>c \<in> set tab. game_card c) \<and> real_side s \<and> 1 \<le> n \<and> n \<le> int TRICKS_PER_ROUND"
| "job_ok ord (SendJobTotal scores) \<longleftrightarrow> scores_ok ord scores"
| "job_ok ord (SendJobTrick tab n) \<longleftrightarrow>
     length tab \<le> 3 \<and> (\<forall>c \<in> set tab. game_card c) \<and> 1 \<le> n \<and> n \<le> TRICKS_PER_ROUND"
| "job_ok ord (SendJobWrong n) \<longleftrightarrow> 1 \<le> n \<and> n \<le> TRICKS_PER_ROUND"

definition score_parts :: "side list \<Rightarrow> score_map \<Rightarrow> (char \<times> string) list" where
  "score_parts ord scores = map (\<lambda>t. (char_of_side t, to_string (get 0 t scores))) ord"

fun job_parts :: "side list \<Rightarrow> send_job \<Rightarrow> msg_parts" where
  "job_parts ord (SendJobBusy taken) = M_Busy (map char_of_side taken)"
| "job_parts ord (SendDealJob r s cards) =
     M_Deal (digit_char (nat (int_of_round r))) (char_of_side s) (map toString cards)"
| "job_parts ord (SendJobIntro s) = M_Iam (char_of_side s)"
| "job_parts ord (SendJobScore scores) = M_Score (score_parts ord scores)"
| "job_parts ord (SendJobTaken tab s n) = M_Taken (to_string n) (map toString tab) (char_of_side s)"
| "job_parts ord (SendJobTotal scores) = M_Total (score_parts ord scores)"
| "job_parts ord (SendJobTrick tab n) = M_Trick_S (to_string (int n)) (map toString tab)"
| "job_parts ord (SendJobWrong n) = M_Wrong (to_string (int n))"

lemma char_of_side_NSEW: "real_side s \<Longrightarrow> char_of_side s \<in> set ''NSEW''"
  by (cases s) auto

lemma rn_text_to_string: "1 \<le> n \<Longrightarrow> n \<le> int TRICKS_PER_ROUND \<Longrightarrow> rn_text (to_string n)"
  using rn_text_digits [of "nat n"] by (simp add: to_string_def TRICKS_PER_ROUND_def)

lemma num_text_to_string: "0 \<le> n \<Longrightarrow> num_text (to_string n)"
  using num_text_digits [of "nat n"] by (simp add: to_string_def)

lemma round_char: "real_round r \<Longrightarrow> digit_char (nat (int_of_round r)) \<in> set ''1234567''"
  by (cases r) simp_all

lemma scores_ok_ord: "scores_ok ord scores \<Longrightarrow> set ord = set sides \<and> length ord = 4"
  using mset_eq_setD [of ord sides] mset_eq_length [of ord sides] by (simp add: scores_ok_def) (simp add: sides_def)

lemma score_parts_ok:
  assumes "scores_ok ord scores"
  shows "length (score_parts ord scores) = 4 \<and>
    (\<forall>(s, d) \<in> set (score_parts ord scores). s \<in> set ''NSEW'' \<and> num_text d)"
proof -
  have ord: "set ord = set sides" "length ord = 4" using scores_ok_ord [OF assms] by auto
  have "char_of_side t \<in> set ''NSEW'' \<and> num_text (to_string (get 0 t scores))" if "t \<in> set ord" for t
  proof -
    have t: "real_side t" using that ord by (simp add: real_side_def)
    have "\<forall>t \<in> set sides. \<exists>v. scores t = Some v \<and> 0 \<le> v"
      using assms unfolding scores_ok_def by (rule conjunct2)
    moreover have "t \<in> set sides" using that by (simp only: ord)
    ultimately obtain v where "scores t = Some v" "0 \<le> v" by (metis bspec)
    then have "num_text (to_string (get 0 t scores))" by (simp add: num_text_to_string)
    then show ?thesis by (intro conjI char_of_side_NSEW t)
  qed
  then have "\<forall>p \<in> set (score_parts ord scores). fst p \<in> set ''NSEW'' \<and> num_text (snd p)"
    unfolding score_parts_def set_map ball_simps fst_conv snd_conv by blast
  moreover have "length (score_parts ord scores) = 4" using ord by (simp add: score_parts_def)
  ultimately show ?thesis unfolding case_prod_beta by (intro conjI)
qed

lemma score_text_parts:
  assumes "scores_ok ord scores"
  shows "score_text ord scores = concat (map pair_text (score_parts ord scores))"
proof -
  have "score_text xs scores = concat (map pair_text (score_parts xs scores))" if "set xs \<subseteq> set sides" for xs
    using that
  proof (induction xs)
    case (Cons t xs)
    then have "t \<in> set sides" by simp
    then obtain v where "scores t = Some v" using assms unfolding scores_ok_def by blast
    with Cons show ?case by (simp add: score_parts_def pair_text_def)
  qed (simp add: score_parts_def)
  with scores_ok_ord [OF assms] show ?thesis by simp
qed

lemma int_of_round_text: "real_round r \<Longrightarrow> to_string (int_of_round r) = [digit_char (nat (int_of_round r))]"
  by (cases r) (simp_all add: to_string_def nat_digits.simps)

lemma job_parts_text: "job_ok ord j \<Longrightarrow> parts_text (job_parts ord j) = msg_body ord j"
  by (cases j) (simp_all add: int_of_round_text score_text_parts)

lemma cards_text: "\<forall>c \<in> set cs. game_card c \<Longrightarrow> \<forall>t \<in> set (map toString cs). card_text t"
  by (simp add: card_text_toString)

lemma job_parts_ok: "job_ok ord j \<Longrightarrow> parts_ok (job_parts ord j)"
proof (cases j)
  case (SendJobBusy taken)
  assume "job_ok ord j"
  with SendJobBusy char_of_side_NSEW show ?thesis
    by (simp only: job_ok.simps job_parts.simps parts_ok.simps length_map set_map ball_simps)
      (simp add: Suc_le_eq)
next
  case (SendDealJob r s cards)
  assume "job_ok ord j"
  then have ok: "real_round r" "real_side s" "length cards = 13" "\<forall>c \<in> set cards. game_card c"
    by (simp_all add: SendDealJob TRICKS_PER_ROUND_def)
  show ?thesis
    unfolding SendDealJob job_parts.simps parts_ok.simps length_map
    by (intro conjI round_char char_of_side_NSEW cards_text ok)
next
  case (SendJobScore scores)
  assume "job_ok ord j"
  then have "scores_ok ord scores" by (simp add: SendJobScore)
  then show ?thesis unfolding SendJobScore job_parts.simps parts_ok.simps by (rule score_parts_ok)
next
  case (SendJobTotal scores)
  assume "job_ok ord j"
  then have "scores_ok ord scores" by (simp add: SendJobTotal)
  then show ?thesis unfolding SendJobTotal job_parts.simps parts_ok.simps by (rule score_parts_ok)
next
  case (SendJobTaken tab s n)
  assume "job_ok ord j"
  then have ok: "length tab = 4" "\<forall>c \<in> set tab. game_card c" "real_side s" "1 \<le> n" "n \<le> int TRICKS_PER_ROUND"
    by (simp_all add: SendJobTaken)
  show ?thesis
    unfolding SendJobTaken job_parts.simps parts_ok.simps length_map
    by (intro conjI rn_text_to_string char_of_side_NSEW cards_text ok)
next
  case (SendJobIntro s)
  assume "job_ok ord j"
  with SendJobIntro char_of_side_NSEW [of s] show ?thesis
    by (simp only: job_ok.simps job_parts.simps parts_ok.simps)
next
  case (SendJobTrick tab n)
  assume "job_ok ord j"
  with SendJobTrick rn_text_to_string [of "int n"] cards_text [of tab] show ?thesis by simp
next
  case (SendJobWrong n)
  assume "job_ok ord j"
  with SendJobWrong rn_text_to_string [of "int n"] show ?thesis by simp
qed

section \<open>Round trips\<close>

fun from_client :: "send_job \<Rightarrow> bool" where
  "from_client (SendJobIntro s) = True"
| "from_client _ = False"

text \<open>What a server's job is read as by a client, and an introduction by the server.\<close>

lemma read_job:
  assumes "job_ok ord j"
  shows "parseNetMsg (strip_crlf (genMsg ord j)) (from_client j) = Inr (parts_fields (job_parts ord j))"
proof -
  have "parts_server (job_parts ord j) = from_client j" by (cases j) simp_all
  with parseNetMsg_parts [OF job_parts_ok [OF assms]] job_parts_text [OF assms] show ?thesis
    by (simp add: strip_genMsg)
qed

text \<open>The card a client plays: \<^verbatim>\<open>SendJobTrick\<close> with a table of one card, read by the server.\<close>

lemma read_client_card:
  assumes "game_card c" and "1 \<le> n" and "n \<le> TRICKS_PER_ROUND"
  shows "parseNetMsg (strip_crlf (genMsg ord (SendJobTrick [c] n))) True =
    Inr [(''type'', ''TRICK_C''), (''rn'', to_string (int n)), (''card'', toString c)]"
proof -
  have "parts_ok (M_Trick_C (to_string (int n)) (toString c))"
    using assms rn_text_to_string [of "int n"] card_text_toString [of c] by simp
  from parseNetMsg_parts [OF this] show ?thesis by (simp only: strip_genMsg) simp
qed

text \<open>The parser is total: it never fails, and what it accepts is what the grammar describes.\<close>

lemma parse_total:
  "(\<exists>p. parts_ok p \<and> parts_server p = b \<and> m = parts_text p \<and> parseNetMsg m b = Inr (parts_fields p)) \<or>
   parseNetMsg m b = Inr [] \<and> (\<nexists>p. parts_ok p \<and> parts_server p = b \<and> m = parts_text p)"
proof (cases rule: parseNetMsg_cases [of b m])
  case (parts p)
  then show ?thesis by blast
next
  case none
  have "parts_fields p \<noteq> []" for p by (cases p) simp_all
  with none parseNetMsg_parts show ?thesis by fastforce
qed

section \<open>Properties\<close>

text \<open>C21: Every well-formed message of the server, and the introduction a client sends, is read back by the
  peer's parser as the fields of the job it was made from.\<close>

theorem message_roundtrip:
  assumes "job_ok ord j"
  shows "parseNetMsg (strip_crlf (genMsg ord j)) (from_client j) = Inr (parts_fields (job_parts ord j))"
  using assms by (rule read_job)

theorem message_roundtrip_witness:
  "parseNetMsg (strip_crlf (genMsg [] (SendJobTrick [mk_card ''10'' COLOR_C] 1))) False =
   Inr [(''type'', ''TRICK_S''), (''rn'', ''1''), (''card'', ''10C'')]"
  using message_roundtrip [of "[]" "SendJobTrick [mk_card ''10'' COLOR_C] 1"]
  by (simp add: faces_def suits_def TRICKS_PER_ROUND_def card_fields_def toString_def to_string_def
      nat_digits.simps del: genMsg.simps)

text \<open>The card a client plays is read by the server as the trick number and the text of that card.\<close>

theorem client_card_roundtrip:
  assumes "game_card c" and "1 \<le> n" and "n \<le> TRICKS_PER_ROUND"
  shows "parseNetMsg (strip_crlf (genMsg ord (SendJobTrick [c] n))) True =
    Inr [(''type'', ''TRICK_C''), (''rn'', to_string (int n)), (''card'', toString c)]"
  using assms by (rule read_client_card)

theorem client_card_roundtrip_witness:
  "parseNetMsg (strip_crlf (genMsg [] (SendJobTrick [mk_card ''10'' COLOR_C] 1))) True =
    Inr [(''type'', ''TRICK_C''), (''rn'', to_string (int 1)), (''card'', toString (mk_card ''10'' COLOR_C))]"
  by (rule client_card_roundtrip) (simp_all add: faces_def suits_def TRICKS_PER_ROUND_def)

text \<open>C22: The parser never fails. It yields the fields of a message of the grammar meant for its side, or,
  if the text is no such message, the empty list.\<close>

theorem parser_total:
  "(\<exists>p. parts_ok p \<and> parts_server p = b \<and> m = parts_text p \<and> parseNetMsg m b = Inr (parts_fields p)) \<or>
   parseNetMsg m b = Inr [] \<and> (\<nexists>p. parts_ok p \<and> parts_server p = b \<and> m = parts_text p)"
  by (rule parse_total)

end
