(* ===== verification/Msg_Fields.thy ===== *)
theory Msg_Fields
  imports Protocol
begin

text \<open>
  How both programs use what \<^verbatim>\<open>parseNetMsg\<close> returns: \<^verbatim>\<open>parsed[i].second\<close>, casts of its
  characters and \<^verbatim>\<open>atoi\<close> of its numbers; and what these yield on the fields of a well-formed message.
\<close>

section \<open>Access to the fields\<close>

text \<open>\<^verbatim>\<open>v[i].second\<close> is unchecked.\<close>

definition field :: "parse_resp \<Rightarrow> nat \<Rightarrow> string res" where
  "field ps i = (if i < length ps then Inr (snd (ps ! i)) else Inl Undefined)"

text \<open>\<^verbatim>\<open>s[0]\<close> of a string, which is the terminator if the string is empty.\<close>

definition first_char :: "string \<Rightarrow> char" where
  "first_char s = (case s of [] \<Rightarrow> CHR 0x00 | c # cs \<Rightarrow> c)"

text \<open>\<^verbatim>\<open>Card::fromString(v[i].second)\<close>.\<close>

definition field_card :: "parse_resp \<Rightarrow> nat \<Rightarrow> card res" where
  "field_card ps i = bindE (field ps i) fromString"

lemma field_Cons_0 [simp]: "field (p # ps) 0 = Inr (snd p)"
  by (simp add: field_def)

lemma field_Cons_Suc [simp]: "field (p # ps) (Suc i) = field ps i"
  by (simp add: field_def)

lemma field_numeral [simp]: "field (p # ps) (numeral k) = field ps (pred_numeral k)"
  by (simp add: numeral_eq_Suc)

lemma field_Nil [simp]: "field [] i = Inl Undefined"
  by (simp add: field_def)

section \<open>Fields of well-formed messages\<close>

lemma trick_numbers:
  "map (\<lambda>n. to_string (int n)) [1..<14] =
     [''1'', ''2'', ''3'', ''4'', ''5'', ''6'', ''7'', ''8'', ''9'', ''10'', ''11'', ''12'', ''13'']"
  by code_simp

lemma rn_text_number:
  assumes "rn_text rn"
  obtains n where "1 \<le> n" "n \<le> TRICKS_PER_ROUND" "rn = to_string (int n)"
proof -
  have "rn \<in> set (map (\<lambda>n. to_string (int n)) [1..<14])"
    using assms unfolding trick_numbers rn_text_def by simp
  then obtain n where "1 \<le> n" "n < 14" "rn = to_string (int n)" by auto
  then show thesis by (intro that [of n]) (simp_all add: TRICKS_PER_ROUND_def)
qed

lemma rn_text_atoi: "rn_text rn \<Longrightarrow> \<exists>n. atoi rn = Inr (int n) \<and> 1 \<le> n \<and> n \<le> TRICKS_PER_ROUND"
  by (elim rn_text_number) (auto simp: atoi_to_string TRICKS_PER_ROUND_def)

section \<open>Texts of one line\<close>

definition one_line :: "string \<Rightarrow> bool" where
  "one_line m \<longleftrightarrow> CHR 0x0A \<notin> set m"

lemma one_line_digits: "one_line (nat_digits n)"
proof -
  have "\<not> is_digit (CHR 0x0A)" by (simp add: is_digit_def)
  then show ?thesis using nat_digits_digits [of n] unfolding one_line_def by blast
qed

lemma one_line_append: "one_line (p @ q) \<longleftrightarrow> one_line p \<and> one_line q"
  by (auto simp: one_line_def)

lemma one_line_card:
  assumes "game_card c"
  shows "one_line (toString c) \<and> length (toString c) \<le> 3"
proof -
  obtain v k where "toString c = v @ [char_of_color k]" "v \<in> set faces" "k \<in> set suits"
    using assms by (auto simp: game_card_def wf_card_iff toString_def)
  then show ?thesis by (auto simp: one_line_def faces_def suits_def)
qed

lemma one_line_Cons: "one_line (c # p) \<longleftrightarrow> c \<noteq> CHR 0x0A \<and> one_line p"
  by (auto simp: one_line_def)

lemma one_line_Nil: "one_line []"
  by (simp add: one_line_def)

lemma one_line_concat: "one_line (concat ts) \<longleftrightarrow> (\<forall>t \<in> set ts. one_line t)"
  by (auto simp: one_line_def)

lemma one_line_number: "one_line (to_string i)"
  using one_line_digits by (simp add: to_string_def one_line_Cons)

lemma one_line_side: "real_side s \<Longrightarrow> char_of_side s \<noteq> CHR 0x0A"
  by (cases s) simp_all

lemmas one_line_simps = one_line_Nil one_line_Cons one_line_append one_line_concat one_line_number

lemma one_line_sides: "\<forall>s \<in> set ts. real_side s \<Longrightarrow> one_line (map char_of_side ts)"
  by (induction ts) (auto simp: one_line_simps one_line_side)

lemma one_line_cards: "\<forall>c \<in> set cs. game_card c \<Longrightarrow> one_line (concat (map toString cs))"
  using one_line_card by (simp add: one_line_concat)

lemma one_line_scores: "\<forall>t \<in> set ord. real_side t \<Longrightarrow> one_line (score_text ord scores)"
  using one_line_side by (induction ord) (auto simp: one_line_simps split: option.split)

text \<open>Every message is one line.\<close>

lemma one_line_job: "job_ok ord j \<Longrightarrow> one_line (msg_body ord j)"
proof (cases j)
  case (SendJobScore scores)
  assume "job_ok ord j"
  with SendJobScore scores_ok_ord [of ord scores] have "\<forall>t \<in> set ord. real_side t" by (simp add: real_side_def)
  with SendJobScore show ?thesis by (simp add: one_line_simps one_line_scores)
next
  case (SendJobTotal scores)
  assume "job_ok ord j"
  with SendJobTotal scores_ok_ord [of ord scores] have "\<forall>t \<in> set ord. real_side t" by (simp add: real_side_def)
  with SendJobTotal show ?thesis by (simp add: one_line_simps one_line_scores)
next
  case (SendDealJob r s cards)
  assume "job_ok ord j"
  with SendDealJob one_line_cards [of cards] one_line_side [of s] show ?thesis by (simp add: one_line_simps)
next
  case (SendJobTaken tab s n)
  assume "job_ok ord j"
  with SendJobTaken one_line_cards [of tab] one_line_side [of s] show ?thesis by (simp add: one_line_simps)
next
  case (SendJobTrick tab n)
  assume "job_ok ord j"
  with SendJobTrick one_line_cards [of tab] show ?thesis by (simp add: one_line_simps)
qed (auto simp: one_line_simps one_line_sides one_line_side)

end
