(* ===== verification/IO_Worker.thy ===== *)
theory IO_Worker
  imports IO_Worker_State Msg_Fields
begin

text \<open>
  The code a worker's thread runs: \<^verbatim>\<open>IOWorker::run\<close> with \<^verbatim>\<open>handlePipe\<close> and \<^verbatim>\<open>handleQueue\<close>
  (\<^verbatim>\<open>server/io_worker.cpp\<close>) and the two \<^verbatim>\<open>socketAction\<close> (\<^verbatim>\<open>server/io_worker_handler.cpp\<close>,
  \<^verbatim>\<open>server/io_worker_connect.cpp\<close>). What the system calls of one turn of the loop yield is an
  input of the turn; the callbacks are those of a context on any shared state \<open>'s\<close>.
\<close>

section \<open>The world outside\<close>

datatype poll_res = Poll_timeout | Poll_error errno | Poll_ready

datatype accept_res = Accept_error errno | Accepted int net_address

text \<open>
  One turn: the bytes that have arrived on the socket since the last one, what \<^verbatim>\<open>poll\<close>, the reads,
  \<^verbatim>\<open>accept\<close> and \<^verbatim>\<open>close\<close> yield, how the kernel takes the \<open>k\<close>-th message sent and the
  \<^verbatim>\<open>errno\<close> if it does not take all of it, the clock in milliseconds, and the order in which score
  maps are iterated.
\<close>

record turn_in =
  pollRes :: poll_res
  arrived :: string
  pipeEnd :: read_end
  sockEnd :: read_end
  acceptRes :: accept_res
  closeRes :: "errno option"
  kernel :: "nat \<Rightarrow> send_fun"
  sendErrno :: errno
  clock :: int
  scoreOrder :: "side list"

text \<open>The socket: bytes not yet read, messages and bytes sent; and what has been given to the logger.\<close>

record wire =
  rxBytes :: string
  txCount :: nat
  txBytes :: string
  msgLog :: "(net_address \<times> net_address \<times> string) list"

definition fresh_wire :: wire where
  "fresh_wire = \<lparr>rxBytes = '''', txCount = 0, txBytes = '''', msgLog = []\<rparr>"

definition log_msg :: "net_address \<Rightarrow> net_address \<Rightarrow> string \<Rightarrow> wire \<Rightarrow> wire" where
  "log_msg from to m n = n\<lparr>msgLog := msgLog n @ [(from, to, m)]\<rparr>"

section \<open>The context of a worker\<close>

text \<open>
  The members other threads use are the queue, which lives in the object the manager holds, and
  whatever the callbacks reach; the thread alone uses the rest of its object. \<open>execCb\<close> is given the
  closure of \<^verbatim>\<open>handleQueue\<close> and what it captures.
\<close>

record 's worker_ctx =
  ownQueue :: "'s \<Rightarrow> job_queue"
  setQueue :: "job_queue \<Rightarrow> 's \<Rightarrow> 's"
  exitCb :: "err_info list \<Rightarrow> int \<Rightarrow> bool \<Rightarrow> 's \<Rightarrow> (bool \<times> 's) res"
  timeoutCb :: "int \<Rightarrow> 's \<Rightarrow> (unit \<times> 's) res"
  execCb :: "(io_worker \<times> wire \<Rightarrow> io_worker \<times> wire) \<Rightarrow> io_worker \<times> wire \<Rightarrow> 's
               \<Rightarrow> ((bool \<times> io_worker \<times> wire) \<times> 's) res"
  introCb :: "side \<Rightarrow> int \<Rightarrow> 's \<Rightarrow> (bool \<times> 's) res"
  trickCb :: "int \<Rightarrow> card \<Rightarrow> int \<Rightarrow> 's \<Rightarrow> (bool \<times> 's) res"
  invalidCb :: "int \<Rightarrow> 's \<Rightarrow> (bool \<times> 's) res"
  accCb :: "int \<Rightarrow> net_address \<Rightarrow> 's \<Rightarrow> (unit \<times> 's) res"

type_synonym 's thread = "io_worker \<times> wire \<times> 's"

text \<open>Sequencing of steps that may not return (\<open>None\<close>) or fail.\<close>

definition bindO :: "'a res option \<Rightarrow> ('a \<Rightarrow> 'b res option) \<Rightarrow> 'b res option" where
  "bindO m f = (case m of None \<Rightarrow> None | Some (Inl e) \<Rightarrow> Some (Inl e) | Some (Inr x) \<Rightarrow> f x)"

lemma bindO_simps [simp]:
  "bindO None f = None" "bindO (Some (Inl e)) f = Some (Inl e)" "bindO (Some (Inr x)) f = f x"
  by (simp_all add: bindO_def)

lemma bindO_assoc: "bindO (bindO m f) g = bindO m (\<lambda>x. bindO (f x) g)"
  by (simp add: bindO_def split: option.split sum.split)

section \<open>Reading\<close>

definition handlePipe :: "turn_in \<Rightarrow> io_worker \<Rightarrow> io_worker" where
  "handlePipe i w =
     (case pipeEnd i of
        Read_eof \<Rightarrow> w
      | Read_error e \<Rightarrow>
          if e \<noteq> EAGAIN \<and> e \<noteq> EWOULDBLOCK
          then w\<lparr>errs := errs w @ [Err ''read'' e IO_ERR_INTERNAL], terminate := True\<rparr>
          else w)"

text \<open>
  The loop over \<^verbatim>\<open>recv\<close>. It stops with a message pending, or when the buffer has become too
  long, with \<^verbatim>\<open>readRes = 1\<close> (\<open>None\<close>); otherwise the bytes are used up and the socket's state is
  what \<^verbatim>\<open>recv\<close> reports.
\<close>

definition ends_message :: "string \<Rightarrow> bool" where
  "ends_message buf \<longleftrightarrow>
     1 < length buf \<and> buf ! (length buf - 1) = CHR 0x0A \<and> buf ! (length buf - 2) = CHR 0x0D"

fun recv_loop :: "turn_in \<Rightarrow> string \<Rightarrow> io_worker \<Rightarrow> read_end option \<times> string \<times> io_worker" where
  "recv_loop i [] w = (if pendingIncoming w = [] then (Some (sockEnd i), [], w) else (None, [], w))"
| "recv_loop i (c # cs) w =
     (if pendingIncoming w = [] then
        let w1 = w\<lparr>nextIncoming := nextIncoming w @ [c]\<rparr> in
        if MAX_PARSE_LEN < length (nextIncoming w1)
        then (None, cs, closeConn (closeRes i) (w1\<lparr>peerCorrupted := True\<rparr>))
        else if ends_message (nextIncoming w1)
        then recv_loop i cs (w1\<lparr>pendingIncoming := pendingIncoming w1 @ [strip_crlf (nextIncoming w1)],
                                nextIncoming := ''''\<rparr>)
        else recv_loop i cs w1
      else (None, c # cs, w))"

definition read_socket :: "turn_in \<Rightarrow> io_worker \<times> wire \<Rightarrow> io_worker \<times> wire" where
  "read_socket i t =
     (case t of (w, n) \<Rightarrow>
        if closedFd w then (w, n)
        else case recv_loop i (rxBytes n) w of (readRes, rest, w1) \<Rightarrow>
          (case readRes of
             None \<Rightarrow> w1
           | Some Read_eof \<Rightarrow> closeConn (closeRes i) w1
           | Some (Read_error e) \<Rightarrow>
               if e \<in> set SILENT_ERRS
               then closeConn (closeRes i) (w1\<lparr>errs := errs w1 @ [Err ''recv'' e IO_ERR_SILENT]\<rparr>)
               else if e \<noteq> EAGAIN \<and> e \<noteq> EWOULDBLOCK
               then closeConn (closeRes i) (w1\<lparr>errs := errs w1 @ [Err ''recv'' e IO_ERR_EXTERNAL]\<rparr>)
               else w1,
           n\<lparr>rxBytes := rest\<rparr>))"

section \<open>Messages\<close>

definition forget_timeout :: "io_worker \<Rightarrow> io_worker" where
  "forget_timeout w = w\<lparr>nextTimeout := - 1, responseTimeout := None\<rparr>"

text \<open>The message is dropped from the queue and logged.\<close>

definition took_msg :: "string \<Rightarrow> io_worker \<times> wire \<Rightarrow> io_worker \<times> wire" where
  "took_msg m t =
     (case t of (w, n) \<Rightarrow>
        (forget_timeout (w\<lparr>pendingIncoming := tl (pendingIncoming w)\<rparr>),
         log_msg (clientAddr w) (ownAddr w) m n))"

definition reject_msg :: "string \<Rightarrow> io_worker \<times> wire \<Rightarrow> io_worker \<times> wire" where
  "reject_msg m t = (case took_msg m t of (w, n) \<Rightarrow> (w\<lparr>wantToToQuit := True\<rparr>, n))"

text \<open>The body of the loop over \<^verbatim>\<open>pendingIncoming\<close>; the flag is false where the code breaks.\<close>

definition handle_msg :: "'s worker_ctx \<Rightarrow> string \<Rightarrow> 's thread \<Rightarrow> (bool \<times> 's thread) res" where
  "handle_msg cx m t =
     (case t of (w, n, s) \<Rightarrow>
        bindE (parseNetMsg m True) (\<lambda>parsed.
        if parsed = [] then
          bindE (invalidCb cx (wid w) s) (\<lambda>(ok, s).
          case (if ok then reject_msg m (w, n) else (w, n)) of (w, n) \<Rightarrow> Inr (False, w, n, s))
        else bindE (field parsed 0) (\<lambda>type.
        if type = ''IAM'' then
          bindE (field parsed 1) (\<lambda>f.
          bindE (introCb cx (side_of_char (first_char f)) (wid w) s) (\<lambda>(ok, s).
          case (if ok then took_msg m (w, n) else (forget_timeout w, n)) of (w, n) \<Rightarrow> Inr (ok, w, n, s)))
        else if type = ''TRICK_C'' then
          bindE (bindE (field parsed 1) atoi) (\<lambda>trickNo.
          bindE (field_card parsed 2) (\<lambda>c.
          bindE (trickCb cx trickNo c (wid w) s) (\<lambda>(ok, s).
          case (if ok then took_msg m (w, n) else (forget_timeout w, n)) of (w, n) \<Rightarrow> Inr (ok, w, n, s))))
        else
          bindE (invalidCb cx (wid w) s) (\<lambda>(ok, s).
          case (if ok then reject_msg m (w, n) else (w, n)) of (w, n) \<Rightarrow> Inr (\<not> ok, w, n, s)))))"

partial_function (option) msg_loop :: "'s worker_ctx \<Rightarrow> 's thread \<Rightarrow> 's thread res option" where
  "msg_loop cx t =
     (case pendingIncoming (fst t) of
        [] \<Rightarrow> Some (Inr t)
      | m # ms \<Rightarrow>
          (case handle_msg cx m t of
             Inl e \<Rightarrow> Some (Inl e)
           | Inr r \<Rightarrow> if fst r then msg_loop cx (snd r) else Some (Inr (snd r))))"

text \<open>\<^verbatim>\<open>if (exitCb(errs, id, hasWork())) terminate = true;\<close> the flag is what the callback returned.\<close>

definition call_exit :: "'s worker_ctx \<Rightarrow> 's thread \<Rightarrow> (bool \<times> 's thread) res" where
  "call_exit cx t =
     (case t of (w, n, s) \<Rightarrow>
        bindE (exitCb cx (errs w) (wid w) (hasWork w) s) (\<lambda>(quit, s).
        Inr (quit, if quit then w\<lparr>terminate := True\<rparr> else w, n, s)))"

definition handler_action :: "'s worker_ctx \<Rightarrow> turn_in \<Rightarrow> 's thread \<Rightarrow> 's thread res option" where
  "handler_action cx i t =
     (case t of (w, n, s) \<Rightarrow>
        if wantToToQuit w then Some (Inr t)
        else case read_socket i (w, n) of (w1, n1) \<Rightarrow>
          bindO (msg_loop cx (w1, n1, s)) (\<lambda>t2.
          if peerCorrupted (fst t2) then Some (bindE (call_exit cx t2) (\<lambda>r. Inr (snd r)))
          else Some (Inr t2)))"

definition connect_action :: "'s worker_ctx \<Rightarrow> turn_in \<Rightarrow> 's thread \<Rightarrow> 's thread res" where
  "connect_action cx i t =
     (case t of (w, n, s) \<Rightarrow>
        (case acceptRes i of
           Accept_error e \<Rightarrow>
             if e = EAGAIN \<or> e = EWOULDBLOCK then Inr t else Inl (Runtime_error '''')
         | Accepted fd addr \<Rightarrow> bindE (accCb cx fd addr s) (\<lambda>(u, s). Inr (w, n, s))))"

definition socketAction :: "'s worker_ctx \<Rightarrow> turn_in \<Rightarrow> 's thread \<Rightarrow> 's thread res option" where
  "socketAction cx i t =
     (case kind (fst t) of
        IOWorkerHandler \<Rightarrow> handler_action cx i t
      | IOWorkerConnect \<Rightarrow> Some (connect_action cx i t))"

section \<open>Sending\<close>

text \<open>The closure of \<^verbatim>\<open>handleQueue\<close>, for the message at the front of \<^verbatim>\<open>pendingOutgoing\<close>.\<close>

definition send_front :: "turn_in \<Rightarrow> io_worker \<times> wire \<Rightarrow> io_worker \<times> wire" where
  "send_front i t =
     (case t of (w, n) \<Rightarrow>
        let m = genMsg (scoreOrder i) (hd (pendingOutgoing w));
            w1 = w\<lparr>pendingOutgoing := tl (pendingOutgoing w)\<rparr>
        in case sendNoBlockN (kernel i (txCount n)) m of (sendResp, taken) \<Rightarrow>
             let n1 = n\<lparr>txCount := txCount n + 1, txBytes := txBytes n @ taken\<rparr> in
             if sendResp \<noteq> int (length m)
             then ((closeConn (closeRes i)
                      (w1\<lparr>errs := errs w1 @ [Err ''send'' (sendErrno i) (mainSockErr w1)]\<rparr>))\<lparr>terminate := True\<rparr>, n1)
             else (w1\<lparr>responseTimeout := Some (clock i + wtimeout w1 * 1000), nextTimeout := wtimeout w1 * 1000\<rparr>,
                   log_msg (ownAddr w1) (clientAddr w1) (strip_crlf m) n1))"

partial_function (option) queue_loop :: "'s worker_ctx \<Rightarrow> turn_in \<Rightarrow> 's thread \<Rightarrow> 's thread res option" where
  "queue_loop cx i t =
     (case t of (w, n, s) \<Rightarrow>
        if pendingOutgoing w = [] then Some (Inr t)
        else (case execCb cx (send_front i) (w, n) s of
                Inl e \<Rightarrow> Some (Inl e)
              | Inr r \<Rightarrow>
                  if fst (fst r) then queue_loop cx i (fst (snd (fst r)), snd (snd (fst r)), snd r)
                  else Some (Inr (fst (snd (fst r)), snd (snd (fst r)), snd r))))"

definition handleQueue :: "'s worker_ctx \<Rightarrow> turn_in \<Rightarrow> 's thread \<Rightarrow> 's thread res option" where
  "handleQueue cx i t = (if closedFd (fst t) then Some (Inr t) else queue_loop cx i t)"

text \<open>The jobs of the queue become pending.\<close>

definition take_jobs :: "'s worker_ctx \<Rightarrow> 's thread \<Rightarrow> 's thread res" where
  "take_jobs cx t =
     (case t of (w, n, s) \<Rightarrow>
        bindE (drain (ownQueue cx s) (pendingOutgoing w)) (\<lambda>(q, out).
        Inr (w\<lparr>pendingOutgoing := out\<rparr>, n, setQueue cx q s)))"

section \<open>The loop\<close>

text \<open>The descriptor \<^verbatim>\<open>poll\<close> sees for the socket: it is negated while a message is pending.\<close>

definition polled_fd :: "io_worker \<Rightarrow> int option" where
  "polled_fd w = map_option (\<lambda>fd. if pendingIncoming w \<noteq> [] then fd * - 1 else fd) (pollMainFd w)"

definition next_timeout :: "'s worker_ctx \<Rightarrow> turn_in \<Rightarrow> 's thread \<Rightarrow> 's thread res" where
  "next_timeout cx i t =
     (case t of (w, n, s) \<Rightarrow>
        if nextTimeout w = - 1 then
          (case responseTimeout w of
             Some deadline \<Rightarrow>
               if 0 < wtimeout w then
                 if deadline - clock i < 0
                 then bindE (timeoutCb cx (wid w) s) (\<lambda>(u, s). Inr (w\<lparr>nextTimeout := - 1\<rparr>, n, s))
                 else Inr (w\<lparr>nextTimeout := deadline - clock i\<rparr>, n, s)
               else Inr (w\<lparr>nextTimeout := - 1\<rparr>, n, s)
           | None \<Rightarrow> Inr (w\<lparr>nextTimeout := - 1\<rparr>, n, s))
        else Inr t)"

text \<open>The end of a turn, from the kill order on.\<close>

definition kill_part :: "'s worker_ctx \<Rightarrow> turn_in \<Rightarrow> 's thread \<Rightarrow> 's thread res option" where
  "kill_part cx i t =
     (if hasKillOrder (ownQueue cx (snd (snd t))) then
        bindO (Some (take_jobs cx t)) (\<lambda>t.
        bindO (handleQueue cx i t) (\<lambda>(w, n, s).
        Some (Inr (closeConn (closeRes i) w, n, s))))
      else Some (Inr t))"

definition quit_part :: "'s worker_ctx \<Rightarrow> turn_in \<Rightarrow> 's thread \<Rightarrow> 's thread res" where
  "quit_part cx i t =
     (if wantToToQuit (fst t) then
        bindE (call_exit cx t) (\<lambda>(quit, t). if quit then Inr t else next_timeout cx i t)
      else next_timeout cx i t)"

definition ready_part :: "'s worker_ctx \<Rightarrow> turn_in \<Rightarrow> 's thread \<Rightarrow> 's thread res option" where
  "ready_part cx i t =
     (case t of (w, n, s) \<Rightarrow>
        let w1 = handlePipe i w in
        if terminate w1 then Some (Inr (w1, n, s))
        else bindO (socketAction cx i (w1, n, s)) (\<lambda>t2.
             if terminate (fst t2) then Some (Inr t2)
             else bindO (Some (take_jobs cx t2)) (\<lambda>t3.
                  bindO (handleQueue cx i t3) (\<lambda>t4.
                  if terminate (fst t4) then Some (Inr t4)
                  else bindO (kill_part cx i t4) (\<lambda>t5. Some (quit_part cx i t5))))))"

definition turn :: "'s worker_ctx \<Rightarrow> turn_in \<Rightarrow> 's thread \<Rightarrow> 's thread res option" where
  "turn cx i t =
     (case t of (w0, n0, s) \<Rightarrow>
        let w = w0\<lparr>nextTimeout := - 1\<rparr>; n = n0\<lparr>rxBytes := rxBytes n0 @ arrived i\<rparr> in
        case pollRes i of
          Poll_timeout \<Rightarrow>
            Some (bindE (timeoutCb cx (wid w) s) (\<lambda>(u, s). Inr (forget_timeout w, n, s)))
        | Poll_error e \<Rightarrow>
            Some (bindE (call_exit cx (closeConn (closeRes i)
                           (w\<lparr>errs := errs w @ [Err ''poll'' e (mainSockErr w)]\<rparr>), n, s)) (\<lambda>r. Inr (snd r)))
        | Poll_ready \<Rightarrow> ready_part cx i (w, n, s))"

text \<open>
  \<^verbatim>\<open>run\<close>: the descriptors are made non-blocking, the loop takes one turn for each return of
  \<^verbatim>\<open>poll\<close>, and the callback is told of the end. With the list used up the thread waits in
  \<^verbatim>\<open>poll\<close>.
\<close>

fun run_loop :: "'s worker_ctx \<Rightarrow> turn_in list \<Rightarrow> 's thread \<Rightarrow> 's thread res option" where
  "run_loop cx [] t =
     (if terminate (fst t) then Some (bindE (call_exit cx t) (\<lambda>r. Inr (snd r))) else Some (Inr t))"
| "run_loop cx (i # is) t =
     (if terminate (fst t) then Some (bindE (call_exit cx t) (\<lambda>r. Inr (snd r)))
      else bindO (turn cx i t) (run_loop cx is))"

definition fcntl_step :: "errno option \<Rightarrow> io_worker \<Rightarrow> io_worker" where
  "fcntl_step r w =
     (case r of
        None \<Rightarrow> w
      | Some e \<Rightarrow> w\<lparr>errs := errs w @ [Err ''fcntl'' e (mainSockErr w)], terminate := True\<rparr>)"

definition run :: "'s worker_ctx \<Rightarrow> errno option \<Rightarrow> errno option \<Rightarrow> turn_in list \<Rightarrow> 's thread \<Rightarrow> 's thread res option"
where
  "run cx fcntl_pipe fcntl_main is t =
     (case t of (w, n, s) \<Rightarrow>
        run_loop cx is (fcntl_step fcntl_main (fcntl_step fcntl_pipe (w\<lparr>pollMainFd := Some (mainFd w)\<rparr>)), n, s))"

end
