(* ===== verification/IO_Worker_Correct.thy ===== *)
theory IO_Worker_Correct
  imports IO_Worker
begin

text \<open>
  What the thread of a worker does: how it cuts the bytes it reads into messages, how it sends its
  jobs, and, against any server that keeps the laws of the locale \<open>worker_server\<close>, that a turn of
  its loop returns and keeps the server's invariant whatever the network does.
\<close>

section \<open>The fields of the worker that never change\<close>

definition same_worker :: "io_worker \<Rightarrow> io_worker \<Rightarrow> bool" where
  "same_worker w w' \<longleftrightarrow> kind w' = kind w \<and> wid w' = wid w \<and> mainFd w' = mainFd w \<and> wtimeout w' = wtimeout w \<and>
     ownAddr w' = ownAddr w \<and> clientAddr w' = clientAddr w"

lemma same_worker_refl [simp]: "same_worker w w"
  by (simp add: same_worker_def)

lemma same_worker_trans: "same_worker u v \<Longrightarrow> same_worker v w \<Longrightarrow> same_worker u w"
  by (simp add: same_worker_def)

lemma same_closeConn [simp]: "same_worker u (closeConn r w) \<longleftrightarrow> same_worker u w"
  by (auto simp: closeConn_def same_worker_def Let_def split: option.splits)

lemma closeConn_more [simp]:
  "nextIncoming (closeConn r w) = nextIncoming w" "peerCorrupted (closeConn r w) = peerCorrupted w"
  "kind (closeConn r w) = kind w" "wid (closeConn r w) = wid w"
  by (auto simp: closeConn_def Let_def split: option.splits)

section \<open>Framing\<close>

text \<open>The buffers of a worker between two turns: at most one message pending and no complete one unread.\<close>

definition buffers_ok :: "io_worker \<Rightarrow> bool" where
  "buffers_ok w \<longleftrightarrow> length (pendingIncoming w) \<le> 1 \<and>
     (\<not> peerCorrupted w \<longrightarrow> length (nextIncoming w) \<le> MAX_PARSE_LEN) \<and>
     (pendingIncoming w \<noteq> [] \<longrightarrow> nextIncoming w = '''' \<or> peerCorrupted w)"

lemma recv_loop_stops: "pendingIncoming w \<noteq> [] \<Longrightarrow> recv_loop i bs w = (None, bs, w)"
  by (cases bs) simp_all

text \<open>Bytes that complete no message are collected.\<close>

lemma recv_loop_collects:
  assumes "pendingIncoming w = []" and "\<And>k. k < length bs \<Longrightarrow> \<not> ends_message (nextIncoming w @ take (Suc k) bs)"
    and "length (nextIncoming w @ bs) \<le> MAX_PARSE_LEN"
  shows "recv_loop i (bs @ rest) w = recv_loop i rest (w\<lparr>nextIncoming := nextIncoming w @ bs\<rparr>)"
  using assms
proof (induction bs arbitrary: w)
  case (Cons b bs)
  let ?w = "w\<lparr>nextIncoming := nextIncoming w @ [b]\<rparr>"
  have "\<not> ends_message (nextIncoming ?w)" using Cons.prems(2) [of 0] by simp
  moreover have "recv_loop i (bs @ rest) ?w = recv_loop i rest (?w\<lparr>nextIncoming := nextIncoming ?w @ bs\<rparr>)"
  proof (rule Cons.IH)
    fix k assume "k < length bs"
    then show "\<not> ends_message (nextIncoming ?w @ take (Suc k) bs)" using Cons.prems(2) [of "Suc k"] by simp
  qed (use Cons.prems in simp_all)
  ultimately show ?case using Cons.prems(1,3) by simp
qed simp

text \<open>A text without the line feed is never taken for the end of a message before its own CRLF.\<close>

lemma ends_message_crlf: "ends_message (m @ crlf)"
  by (simp add: ends_message_def crlf_def nth_append)

lemma not_ends_message: "CHR 0x0A \<notin> set buf \<Longrightarrow> \<not> ends_message buf"
  by (auto simp: ends_message_def in_set_conv_nth)

lemma recv_loop_message:
  assumes "pendingIncoming w = []" and "nextIncoming w = p" and "one_line (p @ q)"
    and "length (p @ q) + 2 \<le> MAX_PARSE_LEN"
  shows "recv_loop i (q @ crlf @ rest) w =
    (None, rest, w\<lparr>pendingIncoming := [p @ q], nextIncoming := ''''\<rparr>)"
proof -
  let ?w = "w\<lparr>nextIncoming := p @ q @ [CHR 0x0D]\<rparr>"
  have no: "\<not> ends_message (p @ take k (q @ [CHR 0x0D]))" for k
    using assms(3) set_take_subset [of k "q @ [CHR 0x0D]"]
    by (intro not_ends_message) (auto simp: one_line_def)
  have "recv_loop i ((q @ [CHR 0x0D]) @ [CHR 0x0A] @ rest) w = recv_loop i ([CHR 0x0A] @ rest) ?w"
    by (subst recv_loop_collects) (use assms no in simp_all)
  moreover have "ends_message ((p @ q) @ crlf)" by (rule ends_message_crlf)
  moreover have "strip_crlf ((p @ q) @ crlf) = p @ q" by (rule strip_crlf_append)
  ultimately show ?thesis
    using assms(1,4) by (simp add: crlf_def recv_loop_stops)
qed

text \<open>Whatever arrives, the buffers stay in bounds.\<close>

lemma recv_loop_frame:
  "recv_loop i bs w = (r, rest, w') \<Longrightarrow> buffers_ok w \<Longrightarrow>
   buffers_ok w' \<and> same_worker w w' \<and> terminate w' = terminate w \<and> pendingOutgoing w' = pendingOutgoing w \<and>
   jobQueue w' = jobQueue w \<and> (peerCorrupted w \<longrightarrow> peerCorrupted w')"
proof (induction i bs w rule: recv_loop.induct)
  case (2 i c cs w)
  let ?w1 = "w\<lparr>nextIncoming := nextIncoming w @ [c]\<rparr>"
  show ?case
  proof (cases "pendingIncoming w = []")
    case empty: True
    show ?thesis
    proof (cases "MAX_PARSE_LEN < length (nextIncoming ?w1)")
      case True
      with 2(3) empty have "w' = closeConn (closeRes i) (?w1\<lparr>peerCorrupted := True\<rparr>)" by simp
      with 2(4) empty show ?thesis by (simp add: buffers_ok_def) (simp add: same_worker_def)
    next
      case le: False
      show ?thesis
      proof (cases "ends_message (nextIncoming ?w1)")
        case True
        let ?w2 = "?w1\<lparr>pendingIncoming := pendingIncoming ?w1 @ [strip_crlf (nextIncoming ?w1)], nextIncoming := ''''\<rparr>"
        have "buffers_ok ?w2" using empty 2(4) by (simp add: buffers_ok_def)
        with 2(1) [OF empty refl le True] 2(3) empty le True show ?thesis by (simp add: same_worker_def)
      next
        case False
        have "buffers_ok ?w1" using empty le 2(4) by (auto simp: buffers_ok_def)
        with 2(2) [OF empty refl le False] 2(3) empty le False show ?thesis by (simp add: same_worker_def)
      qed
    qed
  next
    case False
    with 2(3,4) show ?thesis by simp
  qed
qed (auto split: if_splits)

lemma buffers_closeConn [simp]: "buffers_ok (closeConn r w) = buffers_ok w"
  by (simp add: buffers_ok_def)

lemma buffers_errs [simp]: "buffers_ok (w\<lparr>errs := es\<rparr>) = buffers_ok w"
  by (simp add: buffers_ok_def)

lemma same_worker_errs [simp]: "same_worker u (w\<lparr>errs := es\<rparr>) = same_worker u w"
  by (simp add: same_worker_def)

lemma read_socket_frame:
  assumes "read_socket i (w, n) = (w', n')" and "buffers_ok w"
  shows "buffers_ok w' \<and> same_worker w w' \<and> terminate w' = terminate w \<and> pendingOutgoing w' = pendingOutgoing w"
proof (cases "closedFd w")
  case True
  with assms show ?thesis by (simp add: read_socket_def)
next
  case False
  obtain r rest w1 where r: "recv_loop i (rxBytes n) w = (r, rest, w1)" by (metis prod_cases3)
  note f = recv_loop_frame [OF r assms(2)]
  from assms(1) r False f show ?thesis
    by (auto simp: read_socket_def split: option.splits read_end.splits if_splits)
qed

section \<open>Total correctness of steps\<close>

text \<open>The step returns, without an exception, and what it returns satisfies \<open>P\<close>.\<close>

definition yields :: "'a res \<Rightarrow> ('a \<Rightarrow> bool) \<Rightarrow> bool" where
  "yields r P \<longleftrightarrow> (\<exists>x. r = Inr x \<and> P x)"

definition returns :: "'a res option \<Rightarrow> ('a \<Rightarrow> bool) \<Rightarrow> bool" where
  "returns r P \<longleftrightarrow> (\<exists>x. r = Some (Inr x) \<and> P x)"

lemma yields_Inr [simp]: "yields (Inr x) P \<longleftrightarrow> P x"
  by (simp add: yields_def)

lemma returns_Some [simp]: "returns (Some r) P \<longleftrightarrow> yields r P"
  by (auto simp: returns_def yields_def)

lemma yields_bindE: "yields m Q \<Longrightarrow> (\<And>x. Q x \<Longrightarrow> yields (f x) P) \<Longrightarrow> yields (bindE m f) P"
  by (auto simp: yields_def)

lemma returns_bindO: "returns m Q \<Longrightarrow> (\<And>x. Q x \<Longrightarrow> returns (f x) P) \<Longrightarrow> returns (bindO m f) P"
  by (auto simp: returns_def)

lemma yields_mono: "yields m Q \<Longrightarrow> (\<And>x. Q x \<Longrightarrow> P x) \<Longrightarrow> yields m P"
  by (auto simp: yields_def)

lemma returns_mono: "returns m Q \<Longrightarrow> (\<And>x. Q x \<Longrightarrow> P x) \<Longrightarrow> returns m P"
  by (auto simp: returns_def)

section \<open>What a worker relies on\<close>

text \<open>
  \<open>good\<close> is the server's invariant; a worker is \<open>present\<close> when the server knows it and \<open>alive\<close>
  until the server has told it to end; \<open>may_intro\<close> holds when it may introduce its player.
\<close>

locale worker_server =
  fixes cx :: "'s worker_ctx" and good :: "'s \<Rightarrow> bool" and present alive may_intro :: "int \<Rightarrow> 's \<Rightarrow> bool"
  assumes set_queue: "good s \<Longrightarrow> good (setQueue cx q s)"
    and set_queue_alive: "alive ix s \<Longrightarrow> alive ix (setQueue cx q s)"
    and alive_present: "alive ix s \<Longrightarrow> present ix s"
    and exit_ok: "good s \<Longrightarrow> present ix s \<Longrightarrow>
      yields (exitCb cx es ix hw s) (\<lambda>(b, s'). good s' \<and> present ix s' \<and> (alive ix s \<longrightarrow> \<not> b \<longrightarrow> alive ix s'))"
    and timeout_ok: "good s \<Longrightarrow> alive ix s \<Longrightarrow> yields (timeoutCb cx ix s) (\<lambda>(u, s'). good s' \<and> alive ix s')"
    and exec_ok: "good s \<Longrightarrow> alive ix s \<Longrightarrow>
      yields (execCb cx f x s) (\<lambda>((ran, y), s'). good s' \<and> alive ix s' \<and> y = (if ran then f x else x))"
    and intro_ok: "good s \<Longrightarrow> alive ix s \<Longrightarrow> may_intro ix s \<Longrightarrow> real_side t \<Longrightarrow>
      yields (introCb cx t ix s) (\<lambda>(b, s'). good s' \<and> alive ix s')"
    and trick_ok: "good s \<Longrightarrow> alive ix s \<Longrightarrow> wf_card c \<Longrightarrow>
      yields (trickCb cx k c ix s) (\<lambda>(b, s'). good s' \<and> alive ix s')"
    and invalid_ok: "good s \<Longrightarrow> alive ix s \<Longrightarrow> yields (invalidCb cx ix s) (\<lambda>(b, s'). good s' \<and> alive ix s')"
    and acc_ok: "good s \<Longrightarrow> alive ix s \<Longrightarrow> yields (accCb cx fd a s) (\<lambda>(u, s'). good s' \<and> alive ix s')"

text \<open>The thread of \<open>w0\<close> runs in a good state, or has ended in one.\<close>

definition live_thread :: "('s \<Rightarrow> bool) \<Rightarrow> (int \<Rightarrow> 's \<Rightarrow> bool) \<Rightarrow> io_worker \<Rightarrow> 's thread \<Rightarrow> bool" where
  "live_thread good alive w0 t \<longleftrightarrow>
     (case t of (w, n, s) \<Rightarrow> good s \<and> buffers_ok w \<and> same_worker w0 w \<and> alive (wid w0) s)"

definition thread_ok :: "('s \<Rightarrow> bool) \<Rightarrow> (int \<Rightarrow> 's \<Rightarrow> bool) \<Rightarrow> (int \<Rightarrow> 's \<Rightarrow> bool) \<Rightarrow> io_worker \<Rightarrow> 's thread \<Rightarrow> bool"
where
  "thread_ok good present alive w0 t \<longleftrightarrow> live_thread good alive w0 t \<or> terminate (fst t) \<and> live_thread good present w0 t"

text \<open>The message introduces a player.\<close>

definition introduces :: "string \<Rightarrow> bool" where
  "introduces m \<longleftrightarrow> (\<exists>c. m = ''IAM'' @ [c])"

text \<open>The message the handler would take up in this turn.\<close>

definition next_message :: "turn_in \<Rightarrow> 's thread \<Rightarrow> string list" where
  "next_message i t =
     (case t of (w, n, s) \<Rightarrow>
        pendingIncoming (fst (read_socket i (handlePipe i (w\<lparr>nextTimeout := - 1\<rparr>),
                                             n\<lparr>rxBytes := rxBytes n @ arrived i\<rparr>))))"

text \<open>The input in a turn is one the worker's code deals with: a failing \<^verbatim>\<open>accept\<close> is not.\<close>

definition turn_input :: "('s \<Rightarrow> bool) \<Rightarrow> turn_in \<Rightarrow> 's thread \<Rightarrow> bool" where
  "turn_input may i t \<longleftrightarrow>
     (if kind (fst t) = IOWorkerHandler
      then \<forall>m \<in> set (next_message i t). introduces m \<longrightarrow> may (snd (snd t))
      else \<forall>e. acceptRes i = Accept_error e \<longrightarrow> would_block (Some e))"

lemma real_side_NSEW: "s \<in> set ''NSEW'' \<Longrightarrow> real_side (side_of_char s)"
  by (auto simp: side_of_char_def real_side_def)

section \<open>A job is sent\<close>

lemma send_front_frame:
  assumes "send_front i (w, n) = (w', n')"
  shows "same_worker w w'" "buffers_ok w' = buffers_ok w" "pendingOutgoing w' = tl (pendingOutgoing w)"
  using assms
  by (auto simp: send_front_def same_worker_def buffers_ok_def Let_def closeConn_def
      split: prod.splits if_splits option.splits)

lemma live_thread_close [simp]:
  "live_thread good alive w0 (closeConn r w, n, s) = live_thread good alive w0 (w, n, s)"
  "live_thread good alive w0 (w\<lparr>errs := es\<rparr>, n, s) = live_thread good alive w0 (w, n, s)"
  by (simp_all add: live_thread_def)

section \<open>A message is handled\<close>

text \<open>What the parser lets through of the text of a message, on the server's side.\<close>

lemma server_message_cases:
  obtains (none) "parseNetMsg m True = Inr []"
    | (intro) c where "m = ''IAM'' @ [c]" "c \<in> set ''NSEW''"
        "parseNetMsg m True = Inr [(''type'', ''IAM''), (''side'', [c])]"
    | (card) rn t k c where "parseNetMsg m True = Inr [(''type'', ''TRICK_C''), (''rn'', rn), (''card'', t)]"
        "atoi rn = Inr (int k)" "1 \<le> k" "k \<le> TRICKS_PER_ROUND" "fromString t = Inr c" "wf_card c"
proof (cases rule: parseNetMsg_cases [of True m])
  case (parts p)
  then show thesis
  proof (cases p)
    case (M_Iam c)
    with parts show thesis by (intro intro [of c]) (simp_all only: parts_ok.simps parts_text.simps parts_fields.simps)
  next
    case (M_Trick_C rn t)
    with parts have "rn_text rn" "card_text t" by simp_all
    with rn_text_atoi card_text_fromString game_card_wf obtain k c where
      "atoi rn = Inr (int k)" "1 \<le> k" "k \<le> TRICKS_PER_ROUND" "fromString t = Inr c" "wf_card c" by metis
    with parts M_Trick_C show thesis by (intro card [of rn t k c]) simp_all
  qed simp_all
next
  case none
  then show thesis by (rule that(1))
qed

lemma took_msg_frame:
  "took_msg m (w, n) = (w', n') \<Longrightarrow> pendingIncoming w' = tl (pendingIncoming w) \<and> same_worker w w' \<and>
     terminate w' = terminate w \<and> nextIncoming w' = nextIncoming w \<and> peerCorrupted w' = peerCorrupted w"
  "reject_msg m (w, n) = (w', n') \<Longrightarrow> pendingIncoming w' = tl (pendingIncoming w) \<and> same_worker w w' \<and>
     terminate w' = terminate w \<and> nextIncoming w' = nextIncoming w \<and> peerCorrupted w' = peerCorrupted w"
  by (auto simp: took_msg_def reject_msg_def forget_timeout_def same_worker_def)

lemma buffers_forget [simp]: "buffers_ok (forget_timeout w) = buffers_ok w"
  by (simp add: buffers_ok_def forget_timeout_def)

lemma same_worker_forget [simp]: "same_worker u (forget_timeout w) = same_worker u w"
  by (simp add: same_worker_def forget_timeout_def)

lemma buffers_popped:
  assumes "buffers_ok w" and "pendingIncoming w = [m]" and "pendingIncoming w' = tl (pendingIncoming w)"
    and "nextIncoming w' = nextIncoming w" and "peerCorrupted w' = peerCorrupted w"
  shows "buffers_ok w' \<and> pendingIncoming w' = []"
  using assms by (simp add: buffers_ok_def)

lemma live_threadE:
  assumes "live_thread good alive w0 t"
  obtains w n s where "t = (w, n, s)" "good s" "buffers_ok w" "same_worker w0 w" "alive (wid w0) s" "wid w = wid w0"
    "kind w = kind w0"
  using assms by (cases t) (auto simp: live_thread_def same_worker_def)

text \<open>What has to hold after a callback has taken, or not taken, a message.\<close>

definition msg_post :: "('s \<Rightarrow> bool) \<Rightarrow> (int \<Rightarrow> 's \<Rightarrow> bool) \<Rightarrow> io_worker \<Rightarrow> io_worker \<Rightarrow> bool \<times> 's thread \<Rightarrow> bool" where
  "msg_post good alive w0 w r \<longleftrightarrow>
     live_thread good alive w0 (snd r) \<and> terminate (fst (snd r)) = terminate w \<and>
     (fst r \<longrightarrow> pendingIncoming (fst (snd r)) = [])"

lemma msg_post_cases:
  assumes live: "live_thread good alive w0 (w, n, s)" and m: "pendingIncoming w = [m]"
    and s': "good s'" "alive (wid w0) s'"
  shows "took_msg m (w, n) = (w1, n1) \<Longrightarrow> msg_post good alive w0 w (b, w1, n1, s')"
    and "reject_msg m (w, n) = (w1, n1) \<Longrightarrow> msg_post good alive w0 w (b, w1, n1, s')"
    and "msg_post good alive w0 w (False, forget_timeout w, n, s')"
    and "msg_post good alive w0 w (False, w, n, s')"
proof -
  have w: "buffers_ok w" "same_worker w0 w" using live by (simp_all add: live_thread_def)
  then show "msg_post good alive w0 w (False, w, n, s')" "msg_post good alive w0 w (False, forget_timeout w, n, s')"
    using s' by (simp_all add: msg_post_def live_thread_def) (simp add: forget_timeout_def)
  show "msg_post good alive w0 w (b, w1, n1, s')" if "took_msg m (w, n) = (w1, n1)"
    using took_msg_frame(1) [OF that] buffers_popped [OF w(1) m, of w1] same_worker_trans [OF w(2), of w1] s'
    by (simp add: msg_post_def live_thread_def)
  show "msg_post good alive w0 w (b, w1, n1, s')" if "reject_msg m (w, n) = (w1, n1)"
    using took_msg_frame(2) [OF that] buffers_popped [OF w(1) m, of w1] same_worker_trans [OF w(2), of w1] s'
    by (simp add: msg_post_def live_thread_def)
qed

context worker_server
begin

lemma handle_msg_ok:
  assumes live: "live_thread good alive w0 (w, n, s)" and m: "pendingIncoming w = [m]"
    and may: "introduces m \<longrightarrow> may_intro (wid w0) s"
  shows "yields (handle_msg cx m (w, n, s)) (msg_post good alive w0 w)"
proof -
  have s: "good s" "alive (wid w0) s" "wid w = wid w0" using live by (auto elim: live_threadE)
  note post = msg_post_cases [OF live m]
  show ?thesis
  proof (cases rule: server_message_cases [of m])
    case none
    have "yields (invalidCb cx (wid w0) s) (\<lambda>(b, s'). good s' \<and> alive (wid w0) s')" using invalid_ok s by simp
    then obtain b s' where "invalidCb cx (wid w0) s = Inr (b, s')" "good s'" "alive (wid w0) s'"
      by (auto simp: yields_def)
    with none s show ?thesis by (auto simp: handle_msg_def split: prod.splits intro: post(2,4))
  next
    case (intro c)
    then have "yields (introCb cx (side_of_char c) (wid w0) s) (\<lambda>(b, s'). good s' \<and> alive (wid w0) s')"
      using intro_ok [OF s(1,2) _ real_side_NSEW] may by (auto simp: introduces_def)
    then obtain b s' where "introCb cx (side_of_char c) (wid w0) s = Inr (b, s')" "good s'" "alive (wid w0) s'"
      by (auto simp: yields_def)
    with intro(3) s show ?thesis
      by (auto simp: handle_msg_def first_char_def split: prod.splits intro: post(1,3))
  next
    case (card rn t k c)
    have "yields (trickCb cx (int k) c (wid w0) s) (\<lambda>(b, s'). good s' \<and> alive (wid w0) s')"
      using trick_ok card(6) s by simp
    then obtain b s' where "trickCb cx (int k) c (wid w0) s = Inr (b, s')" "good s'" "alive (wid w0) s'"
      by (auto simp: yields_def)
    with card s show ?thesis
      by (auto simp: handle_msg_def field_card_def split: prod.splits intro: post(1,3))
  qed
qed

lemma msg_loop_ok:
  assumes live: "live_thread good alive w0 (w, n, s)"
    and intro: "\<forall>m \<in> set (pendingIncoming w). introduces m \<longrightarrow> may_intro (wid w0) s"
  shows "returns (msg_loop cx (w, n, s)) (\<lambda>t'. live_thread good alive w0 t' \<and> terminate (fst t') = terminate w)"
proof (cases "pendingIncoming w")
  case Nil
  with live show ?thesis by (simp add: msg_loop.simps [of cx "(w, n, s)"])
next
  case (Cons m ms)
  then have m: "pendingIncoming w = [m]" using live by (simp add: live_thread_def buffers_ok_def)
  from handle_msg_ok [OF live m] intro m obtain b t where
    "handle_msg cx m (w, n, s) = Inr (b, t)" "msg_post good alive w0 w (b, t)" by (auto simp: yields_def)
  with m show ?thesis
    by (auto simp: msg_loop.simps [of cx "(w, n, s)"] msg_loop.simps [of cx t] msg_post_def)
qed

text \<open>The exit callback: either the thread ends or it lives on.\<close>

lemma call_exit_ok:
  assumes "live_thread good present w0 t" and "alive (wid w0) (snd (snd t)) \<or> terminate (fst t)"
  shows "yields (call_exit cx t) (\<lambda>(quit, t'). thread_ok good present alive w0 t' \<and>
    (terminate (fst t) \<or> quit \<longrightarrow> terminate (fst t')) \<and>
    (\<not> quit \<and> alive (wid w0) (snd (snd t)) \<longrightarrow> live_thread good alive w0 t'))"
proof -
  obtain w n s where t: "t = (w, n, s)" "good s" "buffers_ok w" "same_worker w0 w" "present (wid w0) s"
    "wid w = wid w0" using assms(1) by (rule live_threadE)
  have "same_worker w0 (w\<lparr>terminate := True\<rparr>)" "buffers_ok (w\<lparr>terminate := True\<rparr>)"
    using t(3,4) by (simp_all add: same_worker_def buffers_ok_def)
  with exit_ok [OF t(2,5), of "errs w" "hasWork w"] t assms(2) show ?thesis
    by (auto simp: call_exit_def yields_def thread_ok_def live_thread_def)
qed

lemma live_present: "live_thread good alive w0 t \<Longrightarrow> live_thread good present w0 t"
  by (cases t) (auto simp: live_thread_def alive_present)

lemma live_ok: "live_thread good alive w0 t \<Longrightarrow> thread_ok good present alive w0 t"
  by (simp add: thread_ok_def)

lemma exit_drop:
  assumes "live_thread good alive w0 t"
  shows "yields (bindE (call_exit cx t) (\<lambda>r. Inr (snd r))) (thread_ok good present alive w0)"
  using call_exit_ok [OF live_present [OF assms]] assms
  by (auto simp: yields_def elim!: live_threadE)

lemma handler_action_ok:
  assumes live: "live_thread good alive w0 (w, n, s)"
    and may: "\<forall>m \<in> set (pendingIncoming (fst (read_socket i (w, n)))). introduces m \<longrightarrow> may_intro (wid w0) s"
  shows "returns (handler_action cx i (w, n, s)) (thread_ok good present alive w0)"
proof (cases "wantToToQuit w")
  case True
  with live show ?thesis by (simp add: handler_action_def live_ok)
next
  case False
  obtain w1 n1 where r: "read_socket i (w, n) = (w1, n1)" by (meson surj_pair)
  have "live_thread good alive w0 (w1, n1, s)"
    using live read_socket_frame [OF r] same_worker_trans by (auto simp: live_thread_def)
  from msg_loop_ok [OF this] may r have
    "returns (msg_loop cx (w1, n1, s)) (\<lambda>t'. live_thread good alive w0 t' \<and> terminate (fst t') = terminate w1)" by simp
  then show ?thesis using False r
    by (simp add: handler_action_def) (erule returns_bindO, use exit_drop live_ok in auto)
qed

lemma connect_action_ok:
  assumes live: "live_thread good alive w0 t"
    and acc: "\<forall>e. acceptRes i = Accept_error e \<longrightarrow> would_block (Some e)"
  shows "yields (connect_action cx i t) (live_thread good alive w0)"
proof -
  obtain w n s where t: "t = (w, n, s)" "good s" "buffers_ok w" "same_worker w0 w" "alive (wid w0) s"
    using live by (rule live_threadE)
  then show ?thesis using acc acc_ok [OF t(2,5)]
    by (auto simp: connect_action_def would_block_def yields_def live_thread_def split: accept_res.splits)
qed

lemma socketAction_ok:
  assumes live: "live_thread good alive w0 (w, n, s)"
    and input: "if kind w0 = IOWorkerHandler
       then \<forall>m \<in> set (pendingIncoming (fst (read_socket i (w, n)))). introduces m \<longrightarrow> may_intro (wid w0) s
       else \<forall>e. acceptRes i = Accept_error e \<longrightarrow> would_block (Some e)"
  shows "returns (socketAction cx i (w, n, s)) (thread_ok good present alive w0)"
proof (cases "kind w0")
  case IOWorkerHandler
  with live input handler_action_ok [OF live] show ?thesis by (auto simp: socketAction_def live_thread_def same_worker_def)
next
  case IOWorkerConnect
  have "yields (connect_action cx i (w, n, s)) (thread_ok good present alive w0)"
    using connect_action_ok [OF live] input IOWorkerConnect by (auto intro: yields_mono live_ok)
  with IOWorkerConnect live show ?thesis by (simp add: socketAction_def live_thread_def same_worker_def)
qed

lemma queue_loop_ok:
  "live_thread good alive w0 (w, n, s) \<Longrightarrow> returns (queue_loop cx i (w, n, s)) (live_thread good alive w0)"
proof (induction "length (pendingOutgoing w)" arbitrary: w n s)
  case 0
  then show ?case by (simp add: queue_loop.simps [of cx i "(w, n, s)"])
next
  case (Suc k)
  then have s: "good s" "alive (wid w0) s" and ne: "pendingOutgoing w \<noteq> []" by (auto simp: live_thread_def)
  obtain w1 n1 where f: "send_front i (w, n) = (w1, n1)" by (meson surj_pair)
  obtain b w2 n2 s' where x: "execCb cx (send_front i) (w, n) s = Inr ((b, w2, n2), s')"
    "good s'" "alive (wid w0) s'" "(w2, n2) = (if b then (w1, n1) else (w, n))"
  proof -
    from exec_ok [OF s, of "send_front i" "(w, n)"] obtain r where
      "execCb cx (send_front i) (w, n) s = Inr r"
      "case r of ((b, y), s') \<Rightarrow> good s' \<and> alive (wid w0) s' \<and> y = (if b then (w1, n1) else (w, n))"
      unfolding yields_def f by blast
    then show thesis by (cases r) (auto intro: that split del: if_split)
  qed
  have live: "live_thread good alive w0 (w2, n2, s')"
    using Suc.prems x(2-4) send_front_frame [OF f] same_worker_trans
    by (auto simp: live_thread_def split: if_splits)
  show ?case
  proof (cases b)
    case True
    then have "k = length (pendingOutgoing w2)" using Suc.hyps(2) x(4) send_front_frame(3) [OF f] by simp
    from Suc.hyps(1) [OF this live] x(1) ne True show ?thesis
      by (simp add: queue_loop.simps [of cx i "(w, n, s)"])
  next
    case False
    with x(1) ne live show ?thesis by (simp add: queue_loop.simps [of cx i "(w, n, s)"])
  qed
qed

lemma handleQueue_ok:
  "live_thread good alive w0 t \<Longrightarrow> returns (handleQueue cx i t) (live_thread good alive w0)"
  by (cases t) (simp add: handleQueue_def queue_loop_ok)

lemma take_jobs_ok: "live_thread good alive w0 t \<Longrightarrow> yields (take_jobs cx t) (live_thread good alive w0)"
  by (cases t) (auto simp: take_jobs_def drain_all live_thread_def buffers_ok_def same_worker_def
      intro: set_queue set_queue_alive)

lemma kill_part_ok:
  assumes "live_thread good alive w0 t"
  shows "returns (kill_part cx i t) (live_thread good alive w0)"
proof -
  have "returns (bindO (handleQueue cx i u) (\<lambda>(w, n, s). Some (Inr (closeConn (closeRes i) w, n, s))))
      (live_thread good alive w0)" if "live_thread good alive w0 u" for u
    by (rule returns_bindO [OF handleQueue_ok [OF that]]) (auto simp: live_thread_def)
  moreover have "returns (Some (take_jobs cx t)) (live_thread good alive w0)"
    using take_jobs_ok [OF assms] by simp
  ultimately show ?thesis using assms by (auto simp: kill_part_def intro: returns_bindO)
qed

lemma next_timeout_ok:
  assumes "live_thread good alive w0 t"
  shows "yields (next_timeout cx i t) (live_thread good alive w0)"
proof -
  obtain w n s where t: "t = (w, n, s)" "good s" "buffers_ok w" "same_worker w0 w" "alive (wid w0) s"
    "wid w = wid w0" using assms by (rule live_threadE)
  then have "same_worker w0 (w\<lparr>nextTimeout := k\<rparr>)" "buffers_ok (w\<lparr>nextTimeout := k\<rparr>)" for k
    by (simp_all add: same_worker_def buffers_ok_def)
  with t timeout_ok [OF t(2,5)] show ?thesis
    by (auto simp: next_timeout_def live_thread_def yields_def split: option.splits)
qed

lemma quit_part_ok:
  assumes live: "live_thread good alive w0 t"
  shows "yields (quit_part cx i t) (thread_ok good present alive w0)"
proof (cases "wantToToQuit (fst t)")
  case True
  have alive: "alive (wid w0) (snd (snd t))" using live by (auto elim: live_threadE)
  obtain quit t' where q: "call_exit cx t = Inr (quit, t')" "thread_ok good present alive w0 t'"
    "\<not> quit \<longrightarrow> live_thread good alive w0 t'"
  proof -
    from call_exit_ok [OF live_present [OF live] disjI1, OF alive] obtain r where "call_exit cx t = Inr r"
      "case r of (quit, t') \<Rightarrow> thread_ok good present alive w0 t' \<and>
         (terminate (fst t) \<or> quit \<longrightarrow> terminate (fst t')) \<and>
         (\<not> quit \<and> alive (wid w0) (snd (snd t)) \<longrightarrow> live_thread good alive w0 t')"
      unfolding yields_def by blast
    with alive show thesis by (cases r) (auto intro: that)
  qed
  have "yields (next_timeout cx i t') (thread_ok good present alive w0)" if "\<not> quit"
    using next_timeout_ok [of w0 t' i] q(3) that live_ok by (auto intro: yields_mono)
  with q True show ?thesis by (simp add: quit_part_def)
next
  case False
  with yields_mono [OF next_timeout_ok [OF live] live_ok] show ?thesis by (simp add: quit_part_def)
qed

lemma not_ended: "thread_ok good present alive w0 t \<Longrightarrow> \<not> terminate (fst t) \<Longrightarrow> live_thread good alive w0 t"
  by (simp add: thread_ok_def)

lemma ready_part_ok:
  assumes live: "live_thread good alive w0 (w, n, s)"
    and input: "if kind w0 = IOWorkerHandler
       then \<forall>m \<in> set (pendingIncoming (fst (read_socket i (handlePipe i w, n)))). introduces m \<longrightarrow> may_intro (wid w0) s
       else \<forall>e. acceptRes i = Accept_error e \<longrightarrow> would_block (Some e)"
  shows "returns (ready_part cx i (w, n, s)) (thread_ok good present alive w0)"
proof -
  have w1: "live_thread good alive w0 (handlePipe i w, n, s)"
    using live by (auto simp: live_thread_def handlePipe_def same_worker_def buffers_ok_def split: read_end.splits)
  have after: "returns (bindO (Some (take_jobs cx t2)) (\<lambda>t3. bindO (handleQueue cx i t3) (\<lambda>t4.
      if terminate (fst t4) then Some (Inr t4)
      else bindO (kill_part cx i t4) (\<lambda>t5. Some (quit_part cx i t5))))) (thread_ok good present alive w0)"
    if t2: "live_thread good alive w0 t2" for t2
  proof (rule returns_bindO [where Q = "live_thread good alive w0"])
    show "returns (Some (take_jobs cx t2)) (live_thread good alive w0)" using take_jobs_ok [OF t2] by simp
    fix t3 assume "live_thread good alive w0 t3"
    from handleQueue_ok [OF this] show "returns (bindO (handleQueue cx i t3) (\<lambda>t4.
        if terminate (fst t4) then Some (Inr t4)
        else bindO (kill_part cx i t4) (\<lambda>t5. Some (quit_part cx i t5)))) (thread_ok good present alive w0)"
    proof (rule returns_bindO)
      fix t4 assume t4: "live_thread good alive w0 t4"
      have "returns (bindO (kill_part cx i t4) (\<lambda>t5. Some (quit_part cx i t5))) (thread_ok good present alive w0)"
        by (rule returns_bindO [OF kill_part_ok [OF t4]]) (simp add: quit_part_ok)
      then show "returns (if terminate (fst t4) then Some (Inr t4)
          else bindO (kill_part cx i t4) (\<lambda>t5. Some (quit_part cx i t5))) (thread_ok good present alive w0)"
        using live_ok [OF t4] by simp
    qed
  qed
  have "returns (bindO (socketAction cx i (handlePipe i w, n, s)) (\<lambda>t2.
      if terminate (fst t2) then Some (Inr t2)
      else bindO (Some (take_jobs cx t2)) (\<lambda>t3. bindO (handleQueue cx i t3) (\<lambda>t4.
        if terminate (fst t4) then Some (Inr t4)
        else bindO (kill_part cx i t4) (\<lambda>t5. Some (quit_part cx i t5)))))) (thread_ok good present alive w0)"
    by (rule returns_bindO [OF socketAction_ok [OF w1 input]]) (use not_ended after in auto)
  then show ?thesis using live_ok [OF w1] by (simp add: ready_part_def Let_def)
qed

lemma turn_ok:
  assumes live: "live_thread good alive w0 t" and input: "turn_input (may_intro (wid w0)) i t"
  shows "returns (turn cx i t) (thread_ok good present alive w0)"
proof -
  obtain w n s where t: "t = (w, n, s)" "good s" "buffers_ok w" "same_worker w0 w" "alive (wid w0) s"
    "wid w = wid w0" "kind w = kind w0" using live by (rule live_threadE)
  let ?w = "w\<lparr>nextTimeout := - 1\<rparr>" and ?n = "n\<lparr>rxBytes := rxBytes n @ arrived i\<rparr>"
  have w: "live_thread good alive w0 (?w, n', s)" for n'
    using t by (simp add: live_thread_def same_worker_def buffers_ok_def)
  show ?thesis
  proof (cases "pollRes i")
    case Poll_timeout
    have "yields (timeoutCb cx (wid w0) s) (\<lambda>(u, s'). good s' \<and> alive (wid w0) s')" using timeout_ok t by simp
    with Poll_timeout t show ?thesis
      by (auto simp: turn_def yields_def thread_ok_def live_thread_def forget_timeout_def same_worker_def buffers_ok_def)
  next
    case (Poll_error e)
    have "live_thread good alive w0 (closeConn (closeRes i) (?w\<lparr>errs := errs w @ [Err ''poll'' e (mainSockErr w)]\<rparr>), ?n, s)"
      using w [of ?n] by simp
    from exit_drop [OF this] Poll_error t(1) show ?thesis by (simp add: turn_def)
  next
    case Poll_ready
    with ready_part_ok [OF w, of i ?n] input t(1,7) show ?thesis
      by (cases "kind w0") (simp_all add: turn_def turn_input_def next_message_def)
  qed
qed

end

section \<open>A card arrives\<close>

lemma card_line:
  assumes "game_card c" and "k \<le> TRICKS_PER_ROUND"
  shows "one_line (msg_body ord (SendJobTrick [c] k)) \<and> length (msg_body ord (SendJobTrick [c] k)) \<le> 10"
proof -
  have "k < 100" using assms(2) by (simp add: TRICKS_PER_ROUND_def)
  then have "length (nat_digits k) \<le> 2"
    by (cases "k < 10") (simp_all add: nat_digits.simps [of k] nat_digits.simps [of "k div 10"])
  with one_line_card [OF assms(1)] one_line_digits [of k] show ?thesis
    by (simp add: one_line_append to_string_def) (simp add: one_line_def)
qed

text \<open>The worker has nothing in its buffers and its connection is in use.\<close>

definition reading :: "io_worker \<Rightarrow> bool" where
  "reading w \<longleftrightarrow> pendingIncoming w = [] \<and> nextIncoming w = '''' \<and> \<not> wantToToQuit w \<and> \<not> closedFd w \<and>
     \<not> peerCorrupted w"

text \<open>A whole line is taken from the socket and handed on.\<close>

lemma handler_reads_line:
  assumes w: "reading w" and line: "one_line m" "length m + 2 \<le> MAX_PARSE_LEN" and rx: "rxBytes n = m @ crlf @ rest"
    and h: "handle_msg cx m (w\<lparr>pendingIncoming := [m]\<rparr>, n\<lparr>rxBytes := rest\<rparr>, s) = Inr (b, w', n', s')"
    and after: "pendingIncoming w' = (if b then [] else [m])" "\<not> peerCorrupted w'"
  shows "handler_action cx i (w, n, s) = Some (Inr (w', n', s'))"
proof -
  let ?w = "w\<lparr>pendingIncoming := [m]\<rparr>"
  have "recv_loop i (m @ crlf @ rest) w = (None, rest, ?w\<lparr>nextIncoming := ''''\<rparr>)"
    using recv_loop_message [of w "''''" m i rest] w line by (simp add: reading_def)
  moreover have "?w\<lparr>nextIncoming := ''''\<rparr> = ?w" using w by (cases w) (simp add: reading_def)
  ultimately have read: "read_socket i (w, n) = (?w, n\<lparr>rxBytes := rest\<rparr>)"
    using w rx by (simp add: read_socket_def reading_def)
  have "msg_loop cx (?w, n\<lparr>rxBytes := rest\<rparr>, s) = Some (Inr (w', n', s'))"
    using h after
    by (simp add: msg_loop.simps [of cx "(?w, n\<lparr>rxBytes := rest\<rparr>, s)"] msg_loop.simps [of cx "(w', n', s')"])
  with read after w show ?thesis by (simp add: handler_action_def reading_def)
qed

lemma handler_reads_card:
  assumes "reading w" and "game_card c" and "1 \<le> k" and "k \<le> TRICKS_PER_ROUND"
    and "rxBytes n = genMsg ord (SendJobTrick [c] k) @ rest" and cb: "trickCb cx (int k) c (wid w) s = Inr (b, s')"
  shows "\<exists>w' n'. handler_action cx i (w, n, s) = Some (Inr (w', n', s')) \<and> rxBytes n' = rest \<and>
    pendingIncoming w' = (if b then [] else [msg_body ord (SendJobTrick [c] k)])"
proof -
  let ?m = "msg_body ord (SendJobTrick [c] k)" and ?w = "w\<lparr>pendingIncoming := [msg_body ord (SendJobTrick [c] k)]\<rparr>"
  have line: "one_line ?m" "length ?m + 2 \<le> MAX_PARSE_LEN"
    using card_line [OF assms(2,4), of ord] by (simp_all add: MAX_PARSE_LEN_def)
  have rx: "rxBytes n = ?m @ crlf @ rest" using assms(5) by (simp add: genMsg_body del: genMsg.simps)
  have parse: "parseNetMsg ?m True = Inr [(''type'', ''TRICK_C''), (''rn'', to_string (int k)), (''card'', toString c)]"
    using read_client_card [OF assms(2-4), of ord] by (simp only: strip_genMsg)
  have num: "atoi (to_string (int k)) = Inr (int k)" "fromString (toString c) = Inr c"
    using assms(2,4) by (simp_all add: atoi_to_string TRICKS_PER_ROUND_def fromString_toString game_card_wf)
  have "\<exists>w' n'. handle_msg cx ?m (?w, n\<lparr>rxBytes := rest\<rparr>, s) = Inr (b, w', n', s') \<and> rxBytes n' = rest \<and>
      pendingIncoming w' = (if b then [] else [?m]) \<and> \<not> peerCorrupted w'"
    using parse num cb assms(1)
    by (simp add: handle_msg_def field_card_def took_msg_def forget_timeout_def log_msg_def reading_def
        del: msg_body.simps)
  then obtain w' n' where h: "handle_msg cx ?m (?w, n\<lparr>rxBytes := rest\<rparr>, s) = Inr (b, w', n', s')" "rxBytes n' = rest"
    "pendingIncoming w' = (if b then [] else [?m])" "\<not> peerCorrupted w'" by blast
  from handler_reads_line [OF assms(1) line rx h(1,3,4)] h(2,3) show ?thesis by blast
qed

text \<open>The line with which a client introduces itself.\<close>

lemma handler_reads_intro:
  assumes "reading w" and "real_side t" and "rxBytes n = genMsg ord (SendJobIntro t) @ rest"
    and cb: "introCb cx t (wid w) s = Inr (b, s')"
  shows "\<exists>w' n'. handler_action cx i (w, n, s) = Some (Inr (w', n', s')) \<and> rxBytes n' = rest \<and>
    pendingIncoming w' = (if b then [] else [msg_body ord (SendJobIntro t)])"
proof -
  let ?m = "msg_body ord (SendJobIntro t)" and ?w = "w\<lparr>pendingIncoming := [msg_body ord (SendJobIntro t)]\<rparr>"
  have line: "one_line ?m" "length ?m + 2 \<le> MAX_PARSE_LEN"
    using assms(2) by (cases t; simp add: one_line_simps MAX_PARSE_LEN_def)+
  have rx: "rxBytes n = ?m @ crlf @ rest" using assms(3) by (simp add: genMsg_body del: genMsg.simps)
  have "parseNetMsg ?m True = Inr [(''type'', ''IAM''), (''side'', [char_of_side t])]"
    using read_job [of ord "SendJobIntro t"] assms(2) by (simp add: strip_genMsg del: genMsg.simps msg_body.simps)
  then have "\<exists>w' n'. handle_msg cx ?m (?w, n\<lparr>rxBytes := rest\<rparr>, s) = Inr (b, w', n', s') \<and> rxBytes n' = rest \<and>
      pendingIncoming w' = (if b then [] else [?m]) \<and> \<not> peerCorrupted w'"
    using cb assms(1,2)
    by (simp add: handle_msg_def first_char_def side_of_char_of_side took_msg_def forget_timeout_def log_msg_def reading_def
        del: msg_body.simps)
  then obtain w' n' where h: "handle_msg cx ?m (?w, n\<lparr>rxBytes := rest\<rparr>, s) = Inr (b, w', n', s')" "rxBytes n' = rest"
    "pendingIncoming w' = (if b then [] else [?m])" "\<not> peerCorrupted w'" by blast
  from handler_reads_line [OF assms(1) line rx h(1,3,4)] h(2,3) show ?thesis by blast
qed

end
