(* ===== verification/IO_Worker_Mgr.thy ===== *)
theory IO_Worker_Mgr
  imports IO_Worker_State
begin

text \<open>
  \<^verbatim>\<open>server/io_worker_mgr.cpp\<close>: the table of worker threads, their pipes and roles, the list of
  workers to erase and the semaphore of the cleaning thread. The mutex of the structure is a flag;
  locking it while it is set is \<open>Self_deadlock\<close>, since every call here comes from one thread.
  \<open>worker_pool\<close> is the interface the server sends its messages through.
\<close>

section \<open>The interface\<close>

locale worker_pool =
  fixes ok :: "'m \<Rightarrow> bool"
    and known :: "'m \<Rightarrow> int \<Rightarrow> bool"
    and inbox :: "'m \<Rightarrow> int \<Rightarrow> send_job list"
    and send :: "send_job \<Rightarrow> int \<Rightarrow> 'm \<Rightarrow> 'm res"
  assumes send_known: "ok m \<Longrightarrow> known m ix \<Longrightarrow> \<exists>m'. send j ix m = Inr m' \<and> ok m'"
    and send_inbox: "ok m \<Longrightarrow> send j ix m = Inr m' \<Longrightarrow>
          inbox m' = (inbox m)(ix := inbox m ix @ [j])"
    and known_send: "ok m \<Longrightarrow> send j ix m = Inr m' \<Longrightarrow> known m' = known m"
    and send_unknown: "ok m \<Longrightarrow> \<not> known m ix \<Longrightarrow> send j ix m = Inl Out_of_range"
begin

text \<open>A list of messages, each with its addressee, in the order of the calls.\<close>

definition send_all :: "(send_job \<times> int) list \<Rightarrow> 'm \<Rightarrow> 'm res" where
  "send_all js m = foldE (\<lambda>p. send (fst p) (snd p)) js m"

lemma send_all_ok:
  "ok m \<Longrightarrow> \<forall>p \<in> set js. known m (snd p) \<Longrightarrow>
   \<exists>m'. send_all js m = Inr m' \<and> ok m' \<and> known m' = known m \<and>
        (\<forall>ix. inbox m' ix = inbox m ix @ map fst (filter (\<lambda>p. snd p = ix) js))"
proof (induction js arbitrary: m)
  case Nil
  then show ?case by (simp add: send_all_def)
next
  case (Cons p js)
  obtain m1 where m1: "send (fst p) (snd p) m = Inr m1" "ok m1"
    using send_known [OF Cons.prems(1), of "snd p" "fst p"] Cons.prems(2) by auto
  have k: "known m1 = known m" and i: "inbox m1 = (inbox m)(snd p := inbox m (snd p) @ [fst p])"
    using known_send [OF Cons.prems(1) m1(1)] send_inbox [OF Cons.prems(1) m1(1)] by auto
  obtain m' where "send_all js m1 = Inr m'" "ok m'" "known m' = known m1"
    "\<forall>ix. inbox m' ix = inbox m1 ix @ map fst (filter (\<lambda>p. snd p = ix) js)"
    using Cons.IH [OF m1(2)] Cons.prems(2) k by auto
  with m1 k i show ?case by (auto simp: send_all_def)
qed

lemma send_all_append: "send_all (xs @ ys) m = bindE (send_all xs m) (send_all ys)"
  unfolding send_all_def [abs_def] by (rule foldE_append)

end

section \<open>State\<close>

datatype worker_status =
    SERVING_UNKNOWN
  | SERVING_ACTIVE
  | SERVING_PROXY
  | CLEANUP
  | CLEANUP_UNKNOWN
  | SHUTDOWN

text \<open>
  \<open>threads\<close> holds the ids of the stored threads; \<open>joining\<close> the workers the cleaner has taken out
  of the tables and whose threads it is about to join. \<open>pipeBytes\<close> counts the bytes waiting in
  each pipe, by the descriptor written to.
\<close>

record mgr =
  workers :: "int \<rightharpoonup> io_worker"
  pipes :: "int \<rightharpoonup> int \<times> int"
  threads :: "int set"
  roles :: "int \<rightharpoonup> worker_status"
  clearThreadsSemaphore :: nat
  threadsStructuresMutex :: bool
  toErase :: "int list"
  finishFlag :: bool
  nextIx :: int
  joining :: "int \<rightharpoonup> io_worker"
  pipeBytes :: "int \<Rightarrow> nat"

definition IOWorkerMgr :: mgr where
  "IOWorkerMgr =
     \<lparr>workers = Map.empty, pipes = Map.empty, threads = {}, roles = Map.empty,
      clearThreadsSemaphore = 0, threadsStructuresMutex = False, toErase = [], finishFlag = False,
      nextIx = 0, joining = Map.empty, pipeBytes = (\<lambda>_. 0)\<rparr>"

text \<open>
  What the manager calls out to: \<open>sysWrite\<close> is \<^verbatim>\<open>errno\<close> if the write of one byte to a descriptor
  fails, and \<open>pipe_cb\<close> the callback \<^verbatim>\<open>pipeCb\<close>, which runs with the manager in its present state.
\<close>

type_synonym sys_write = "int \<Rightarrow> errno option"
type_synonym pipe_cb = "err_info \<Rightarrow> mgr \<Rightarrow> mgr res"

text \<open>The scope of a \<^verbatim>\<open>MutexGuard\<close> on the structure.\<close>

definition with_threads :: "(mgr \<Rightarrow> mgr res) \<Rightarrow> mgr \<Rightarrow> mgr res" where
  "with_threads f m =
     (if threadsStructuresMutex m then Inl Self_deadlock
      else bindE (f (m\<lparr>threadsStructuresMutex := True\<rparr>)) (\<lambda>m'.
           Inr (m'\<lparr>threadsStructuresMutex := False\<rparr>)))"

section \<open>Operations\<close>

definition write_pipe :: "sys_write \<Rightarrow> pipe_cb \<Rightarrow> int \<Rightarrow> mgr \<Rightarrow> mgr res" where
  "write_pipe wr cb ix m =
     (let ps = touch (0, 0) ix (pipes m); fd = fst (get (0, 0) ix (pipes m)); m1 = m\<lparr>pipes := ps\<rparr>
      in case wr fd of
           None \<Rightarrow> Inr (m1\<lparr>pipeBytes := (pipeBytes m1)(fd := pipeBytes m1 fd + 1)\<rparr>)
         | Some e \<Rightarrow> cb (Err ''write'' e IO_ERR_INTERNAL) m1)"

definition signal :: "sys_write \<Rightarrow> pipe_cb \<Rightarrow> int \<Rightarrow> bool \<Rightarrow> mgr \<Rightarrow> mgr res" where
  "signal wr cb ix locked m =
     (if locked then write_pipe wr cb ix m else with_threads (write_pipe wr cb ix) m)"

text \<open>\<^verbatim>\<open>workers.at(ix)->\<close> followed by a call on the worker.\<close>

definition on_worker :: "int \<Rightarrow> (io_worker \<Rightarrow> io_worker) \<Rightarrow> mgr \<Rightarrow> mgr res" where
  "on_worker ix f m =
     bindE (map_at (workers m) ix) (\<lambda>w. Inr (m\<lparr>workers := (workers m)(ix \<mapsto> f w)\<rparr>))"

definition sendKill :: "sys_write \<Rightarrow> pipe_cb \<Rightarrow> int \<Rightarrow> bool \<Rightarrow> mgr \<Rightarrow> mgr res" where
  "sendKill wr cb ix locked m =
     (if \<not> locked then
        with_threads (\<lambda>m. bindE (on_worker ix scheduleDeath m) (signal wr cb ix True)) m
      else bindE (on_worker ix scheduleDeath m) (signal wr cb ix True))"

text \<open>
  The loops over \<^verbatim>\<open>workers\<close> and \<^verbatim>\<open>roles\<close> visit the entries in the order of the hash table; the
  effect is the same in every order, and the model takes the ids in ascending order. Ids are below
  \<open>nextIx\<close>.
\<close>

definition all_ids :: "mgr \<Rightarrow> int list" where
  "all_ids m = map int [0..<nat (nextIx m)]"

definition finish :: "sys_write \<Rightarrow> pipe_cb \<Rightarrow> mgr \<Rightarrow> mgr res" where
  "finish wr cb m =
     with_threads (\<lambda>m. foldE (\<lambda>ix m. if ix \<in> set (toErase m) then Inr m else sendKill wr cb ix True m)
       (filter (\<lambda>ix. workers m ix \<noteq> None) (all_ids m)) m) m"

definition sendJob :: "sys_write \<Rightarrow> pipe_cb \<Rightarrow> send_job \<Rightarrow> int \<Rightarrow> mgr \<Rightarrow> mgr res" where
  "sendJob wr cb job ix m =
     with_threads (\<lambda>m. bindE (on_worker ix (newJob job) m) (signal wr cb ix True)) m"

definition eraseWorker :: "int \<Rightarrow> mgr \<Rightarrow> mgr res" where
  "eraseWorker ix m =
     with_threads (\<lambda>m. Inr (if ix \<in> set (toErase m) then m
       else m\<lparr>toErase := toErase m @ [ix], clearThreadsSemaphore := clearThreadsSemaphore m + 1\<rparr>)) m"

definition releaseCleaner :: "mgr \<Rightarrow> mgr res" where
  "releaseCleaner m = with_threads (\<lambda>m. Inr (m\<lparr>finishFlag := True\<rparr>)) m"

definition setRole :: "int \<Rightarrow> worker_status \<Rightarrow> mgr \<Rightarrow> mgr res" where
  "setRole ix role m =
     with_threads (\<lambda>m. if roles m ix = None
       then Inl (Runtime_error ''tried to set role for non-existing worker'')
       else Inr (m\<lparr>roles := (roles m)(ix \<mapsto> role)\<rparr>)) m"

definition getRole :: "int \<Rightarrow> mgr \<Rightarrow> worker_status res" where
  "getRole ix m =
     (if threadsStructuresMutex m then Inl Self_deadlock else map_at (roles m) ix)"

definition signalRole :: "sys_write \<Rightarrow> pipe_cb \<Rightarrow> worker_status \<Rightarrow> mgr \<Rightarrow> mgr res" where
  "signalRole wr cb role m =
     with_threads (\<lambda>m. foldE (\<lambda>ix. signal wr cb ix True)
       (filter (\<lambda>ix. roles m ix = Some role) (all_ids m)) m) m"

text \<open>
  \<^verbatim>\<open>spawnNewWorker\<close>: \<open>pipe_res\<close> is what \<^verbatim>\<open>pipe\<close> yields, the read and the write end or
  \<^verbatim>\<open>errno\<close>; after a failure the code goes on with uninitialised descriptors. \<open>mk\<close> builds the
  worker from the read end and its id.
\<close>

definition spawnNewWorker ::
  "pipe_cb \<Rightarrow> (errno + int \<times> int) \<Rightarrow> worker_status \<Rightarrow> (int \<Rightarrow> int \<Rightarrow> io_worker) \<Rightarrow> mgr \<Rightarrow> mgr res"
where
  "spawnNewWorker cb pipe_res role mk m =
     with_threads (\<lambda>m.
       let ix = nextIx m; m1 = m\<lparr>nextIx := nextIx m + 1\<rparr> in
       case pipe_res of
         Inl e \<Rightarrow> bindE (cb (Err ''pipe'' e IO_ERR_INTERNAL) m1) (\<lambda>_. Inl Undefined)
       | Inr (rd, wrt) \<Rightarrow>
           Inr (m1\<lparr>pipes := (pipes m1)(ix \<mapsto> (wrt, rd)),
                   workers := (workers m1)(ix \<mapsto> mk rd ix),
                   threads := insert ix (threads m1),
                   roles := (roles m1)(ix \<mapsto> role)\<rparr>)) m"

text \<open>
  One turn of \<^verbatim>\<open>waitForClearing\<close>, with \<open>None\<close> while \<^verbatim>\<open>acquire\<close> blocks: the tables are emptied of
  the workers to erase under the mutex; the flag returned is \<^verbatim>\<open>exitFlag\<close>. \<open>clear_join\<close> is the end
  of the turn, which joins the threads and drops the workers.
\<close>

fun collect :: "int list \<Rightarrow> mgr \<Rightarrow> mgr" where
  "collect [] m = m"
| "collect (ix # ixs) m =
     collect ixs (m\<lparr>joining := (joining m)(ix := workers m ix), threads := threads m - {ix},
                    workers := (workers m)(ix := None)\<rparr>)"

definition waitForClearing :: "mgr \<Rightarrow> (bool \<times> mgr) res option" where
  "waitForClearing m =
     (if clearThreadsSemaphore m = 0 then None
      else if threadsStructuresMutex m then Some (Inl Self_deadlock)
      else let m1 = (collect (rev (toErase m)) (m\<lparr>clearThreadsSemaphore := clearThreadsSemaphore m - 1\<rparr>))
                    \<lparr>toErase := []\<rparr>
           in Some (Inr (finishFlag m1 \<and> (\<forall>ix \<in> set (all_ids m1). workers m1 ix = None), m1)))"

definition clear_join :: "mgr \<Rightarrow> mgr" where
  "clear_join m = m\<lparr>joining := Map.empty\<rparr>"

section \<open>Well-formed managers\<close>

text \<open>
  The ids handed out are \<open>0 .. nextIx - 1\<close>; each has a role and a pipe for ever, and a worker and a
  thread until the cleaner takes them out.
\<close>

definition mgr_wf :: "mgr \<Rightarrow> bool" where
  "mgr_wf m \<longleftrightarrow>
     0 \<le> nextIx m \<and> dom (roles m) = {0..<nextIx m} \<and> dom (pipes m) = {0..<nextIx m} \<and>
     dom (workers m) \<subseteq> {0..<nextIx m} \<and> threads m = dom (workers m) \<and>
     distinct (toErase m) \<and> set (toErase m) \<subseteq> dom (roles m)"

definition mgr_free :: "mgr \<Rightarrow> bool" where
  "mgr_free m \<longleftrightarrow> mgr_wf m \<and> \<not> threadsStructuresMutex m"

definition inbox :: "mgr \<Rightarrow> int \<Rightarrow> send_job list" where
  "inbox m ix = (case workers m ix of None \<Rightarrow> [] | Some w \<Rightarrow> jobsPending (jobQueue w))"

definition killed :: "mgr \<Rightarrow> int \<Rightarrow> bool" where
  "killed m ix \<longleftrightarrow> (\<exists>w. workers m ix = Some w \<and> killFlag (jobQueue w))"

definition known :: "mgr \<Rightarrow> int \<Rightarrow> bool" where
  "known m ix \<longleftrightarrow> workers m ix \<noteq> None"

text \<open>No write to a pipe fails.\<close>

definition writes_ok :: "sys_write \<Rightarrow> bool" where
  "writes_ok wr \<longleftrightarrow> (\<forall>fd. wr fd = None)"

definition no_write_error :: sys_write where
  "no_write_error = (\<lambda>fd. None)"

lemma writes_ok_iff: "writes_ok wr \<longleftrightarrow> wr = no_write_error"
  by (auto simp: writes_ok_def no_write_error_def)

lemma mgr_wf_init: "mgr_free IOWorkerMgr"
  by (simp add: mgr_free_def mgr_wf_def IOWorkerMgr_def)

lemma mgr_wf_pipes: "mgr_wf m \<Longrightarrow> workers m ix \<noteq> None \<Longrightarrow> pipes m ix \<noteq> None"
  unfolding mgr_wf_def by blast

text \<open>The byte written to wake worker \<open>ix\<close>.\<close>

definition bump :: "int \<Rightarrow> mgr \<Rightarrow> mgr" where
  "bump ix m =
     (let fd = fst (get (0, 0) ix (pipes m))
      in m\<lparr>pipeBytes := (pipeBytes m)(fd := pipeBytes m fd + 1)\<rparr>)"

lemma bump_simps [simp]:
  "workers (bump ix m) = workers m" "pipes (bump ix m) = pipes m" "threads (bump ix m) = threads m"
  "roles (bump ix m) = roles m" "clearThreadsSemaphore (bump ix m) = clearThreadsSemaphore m"
  "threadsStructuresMutex (bump ix m) = threadsStructuresMutex m" "toErase (bump ix m) = toErase m"
  "finishFlag (bump ix m) = finishFlag m" "nextIx (bump ix m) = nextIx m"
  "joining (bump ix m) = joining m" "mgr_wf (bump ix m) = mgr_wf m"
  by (simp_all add: bump_def Let_def mgr_wf_def)

lemma signal_ok: "pipes m ix \<noteq> None \<Longrightarrow> signal no_write_error cb ix True m = Inr (bump ix m)"
  by (auto simp: signal_def write_pipe_def no_write_error_def Let_def touch_dom bump_def)

text \<open>\<open>upd ix f m\<close>: the worker's object changed and the worker woken.\<close>

definition upd :: "int \<Rightarrow> (io_worker \<Rightarrow> io_worker) \<Rightarrow> mgr \<Rightarrow> mgr" where
  "upd ix f m = bump ix (m\<lparr>workers := (workers m)(ix := map_option f (workers m ix))\<rparr>)"

lemma upd_simps [simp]:
  "workers (upd ix f m) = (workers m)(ix := map_option f (workers m ix))"
  "pipes (upd ix f m) = pipes m" "threads (upd ix f m) = threads m"
  "roles (upd ix f m) = roles m" "clearThreadsSemaphore (upd ix f m) = clearThreadsSemaphore m"
  "threadsStructuresMutex (upd ix f m) = threadsStructuresMutex m" "toErase (upd ix f m) = toErase m"
  "finishFlag (upd ix f m) = finishFlag m" "nextIx (upd ix f m) = nextIx m"
  "joining (upd ix f m) = joining m"
  by (simp_all add: upd_def)

lemma dom_map_option_upd [simp]: "dom (g(ix := map_option f (g ix))) = dom g"
  by (auto simp: dom_def)

lemma mgr_wf_upd [simp]: "mgr_wf (upd ix f m) = mgr_wf m"
  by (simp add: mgr_wf_def del: dom_fun_upd)

lemma mgr_free_upd [simp]: "mgr_free (upd ix f m) = mgr_free m"
  by (simp add: mgr_free_def)

lemma on_worker_signal:
  assumes "workers m ix = Some w" and "pipes m ix \<noteq> None"
  shows "bindE (on_worker ix f m) (signal no_write_error cb ix True) = Inr (upd ix f m)"
  using assms signal_ok [of "m\<lparr>workers := (workers m)(ix \<mapsto> f w)\<rparr>" ix cb]
  by (simp add: on_worker_def upd_def)

lemma upd_mutex:
  "(upd ix f (m\<lparr>threadsStructuresMutex := True\<rparr>))\<lparr>threadsStructuresMutex := False\<rparr> =
   (upd ix f m)\<lparr>threadsStructuresMutex := False\<rparr>"
  by (simp add: upd_def bump_def Let_def)

lemma mutex_free [simp]: "\<not> threadsStructuresMutex m \<Longrightarrow> m\<lparr>threadsStructuresMutex := False\<rparr> = m"
  by (cases m) simp

lemma worker_call_ok:
  assumes "mgr_free m" and "workers m ix = Some w"
  shows "with_threads (\<lambda>m. bindE (on_worker ix f m) (signal no_write_error cb ix True)) m = Inr (upd ix f m)"
proof -
  have free: "\<not> threadsStructuresMutex m" and p: "pipes m ix \<noteq> None"
    using assms mgr_wf_pipes [of m ix] by (auto simp: mgr_free_def)
  with assms have "bindE (on_worker ix f (m\<lparr>threadsStructuresMutex := True\<rparr>))
      (signal no_write_error cb ix True) = Inr (upd ix f (m\<lparr>threadsStructuresMutex := True\<rparr>))"
    by (intro on_worker_signal [where w = w]) simp_all
  with free show ?thesis
    by (simp only: with_threads_def if_False bindE_simps upd_mutex) simp
qed

lemma sendJob_ok:
  "mgr_free m \<Longrightarrow> workers m ix = Some w \<Longrightarrow>
   sendJob no_write_error cb j ix m = Inr (upd ix (newJob j) m)"
  unfolding sendJob_def by (rule worker_call_ok)

lemma sendKill_ok:
  "mgr_free m \<Longrightarrow> workers m ix = Some w \<Longrightarrow>
   sendKill no_write_error cb ix False m = Inr (upd ix scheduleDeath m)"
  unfolding sendKill_def using worker_call_ok by simp

lemma sendJob_missing:
  "mgr_free m \<Longrightarrow> workers m ix = None \<Longrightarrow> sendJob wr cb j ix m = Inl Out_of_range"
  by (simp add: sendJob_def with_threads_def on_worker_def map_at_def mgr_free_def)

lemma inbox_upd_newJob:
  "workers m ix = Some w \<Longrightarrow> inbox (upd ix (newJob j) m) = (inbox m)(ix := inbox m ix @ [j])"
  by (auto simp: inbox_def newJob_def pushNextJob_def)

lemma known_upd [simp]: "known (upd ix f m) = known m"
  by (rule ext) (auto simp: known_def)

interpretation pool: worker_pool mgr_free known inbox "sendJob no_write_error cb" for cb
proof
  fix m ix j m'
  assume m: "mgr_free m"
  show "known m ix \<Longrightarrow> \<exists>m'. sendJob no_write_error cb j ix m = Inr m' \<and> mgr_free m'"
    using m by (auto simp: known_def sendJob_ok)
  show "\<not> known m ix \<Longrightarrow> sendJob no_write_error cb j ix m = Inl Out_of_range"
    using m by (simp add: known_def sendJob_missing)
  assume s: "sendJob no_write_error cb j ix m = Inr m'"
  with m obtain w where w: "workers m ix = Some w"
    using sendJob_missing by (cases "workers m ix") fastforce+
  with m s have "m' = upd ix (newJob j) m" by (simp add: sendJob_ok)
  with w show "inbox m' = (inbox m)(ix := inbox m ix @ [j])" "known m' = known m"
    by (simp_all add: inbox_upd_newJob)
qed

section \<open>Properties\<close>

text \<open>A series of \<open>sendJob\<close> calls to workers the manager knows succeeds, and each worker's queue grows by
  the messages addressed to it, in the order of the calls.\<close>

theorem sendJob_delivers:
  assumes "mgr_free m" and "\<forall>p \<in> set js. known m (snd p)"
  shows "\<exists>m'. foldE (\<lambda>p. sendJob no_write_error cb (fst p) (snd p)) js m = Inr m' \<and> mgr_free m' \<and>
     (\<forall>ix. inbox m' ix = inbox m ix @ map fst (filter (\<lambda>p. snd p = ix) js))"
  using pool.send_all_ok [OF assms, of cb] by (auto simp: pool.send_all_def)

definition one_worker :: mgr where
  "one_worker =
     IOWorkerMgr\<lparr>nextIx := 1, workers := [0 \<mapsto> mk_connect 4 0 3 (0, '''') 0], pipes := [0 \<mapsto> (5, 4)],
                 threads := {0}, roles := [0 \<mapsto> SERVING_PROXY]\<rparr>"

theorem sendJob_delivers_witness:
  "\<exists>m'. foldE (\<lambda>p. sendJob no_write_error (\<lambda>i m. Inl Self_deadlock) (fst p) (snd p))
        [(SendJobWrong 1, 0), (SendJobWrong 2, 0)] one_worker = Inr m' \<and>
      inbox m' 0 = [SendJobWrong 1, SendJobWrong 2]"
proof -
  have "mgr_free one_worker" "known one_worker 0" "inbox one_worker 0 = []"
    by (auto simp: mgr_free_def mgr_wf_def one_worker_def IOWorkerMgr_def known_def inbox_def mk_connect_def
        IOWorker_def JobQueue_def)
  with sendJob_delivers [of one_worker "[(SendJobWrong 1, 0), (SendJobWrong 2, 0)]" "\<lambda>i m. Inl Self_deadlock"]
  show ?thesis by auto
qed

end
