(* ===== verification/Game_Rules.thy ===== *)
theory Game_Rules
  imports Utils "HOL-Library.Multiset"
begin

text \<open>
  \<^verbatim>\<open>server/game_rules.cpp\<close>: legality of a move and the taker and penalty of a full table, with
  the rules they are meant to implement: follow suit, the highest card of the led suit takes, and
  the penalty totals of each kind of round.
\<close>

section \<open>The code\<close>

definition TRICK_PENALTY_VAL :: int where
  "TRICK_PENALTY_VAL = 1"

definition HEART_PENALTY_VAL :: int where
  "HEART_PENALTY_VAL = 1"

definition QUEEN_PENALTY_VAL :: int where
  "QUEEN_PENALTY_VAL = 5"

definition KING_JACK_PENALTY_VAL :: int where
  "KING_JACK_PENALTY_VAL = 2"

definition KING_HEART_PENALTY_VAL :: int where
  "KING_HEART_PENALTY_VAL = 18"

definition SEVENTH_LAST_TRICK_PENALTY_VAL :: int where
  "SEVENTH_LAST_TRICK_PENALTY_VAL = 10"

text \<open>The two range loops of \<^verbatim>\<open>isMoveLegal\<close>: is there a card of the led suit, is the card there.\<close>

fun has_color :: "hand \<Rightarrow> color \<Rightarrow> bool" where
  "has_color [] wanted = False"
| "has_color (x # xs) wanted = (if getColor x = wanted then True else has_color xs wanted)"

fun has_card :: "hand \<Rightarrow> card \<Rightarrow> bool" where
  "has_card [] c = False"
| "has_card (x # xs) c =
     (if getColor x = getColor c \<and> getValue x = getValue c then True else has_card xs c)"

definition isMoveLegal :: "side \<Rightarrow> card \<Rightarrow> table_state \<Rightarrow> table \<Rightarrow> bool res" where
  "isMoveLegal s c state table =
     bindE (case table of
              [] \<Rightarrow> Inr False
            | front # rest \<Rightarrow>
                let wanted = getColor front in
                if getColor c \<noteq> wanted then bindE (map_at state s) (\<lambda>h. Inr (has_color h wanted))
                else Inr False) (\<lambda>must_follow.
     if must_follow then Inr False
     else bindE (map_at state s) (\<lambda>h. Inr (has_card h c)))"

text \<open>The loop over \<^verbatim>\<open>i = 1 .. 3\<close> that keeps the index of the best card.\<close>

fun taker_loop :: "nat list \<Rightarrow> table \<Rightarrow> color \<Rightarrow> nat \<Rightarrow> nat" where
  "taker_loop [] table wanted takerIx = takerIx"
| "taker_loop (i # is) table wanted takerIx =
     taker_loop is table wanted
       (if getColor (table ! i) = wanted \<and> card_gt (table ! i) (table ! takerIx) then i else takerIx)"

fun advance :: "nat \<Rightarrow> side \<Rightarrow> side res" where
  "advance 0 s = Inr s"
| "advance (Suc n) s = bindE (nxtSide s) (advance n)"

fun sum_pen :: "(card \<Rightarrow> int) \<Rightarrow> table \<Rightarrow> int" where
  "sum_pen f [] = 0"
| "sum_pen f (c # cs) = f c + sum_pen f cs"

definition seventh_or_last :: "nat \<Rightarrow> int" where
  "seventh_or_last trickNo =
     (if trickNo = 7 \<or> trickNo = TRICKS_PER_ROUND then SEVENTH_LAST_TRICK_PENALTY_VAL else 0)"

definition heart_pen :: "card \<Rightarrow> int" where
  "heart_pen c = (if getColor c = COLOR_H then HEART_PENALTY_VAL else 0)"

definition queen_pen :: "card \<Rightarrow> int" where
  "queen_pen c = (if getValue c = ''Q'' then QUEEN_PENALTY_VAL else 0)"

definition king_jack_pen :: "card \<Rightarrow> int" where
  "king_jack_pen c = (if getValue c = ''K'' \<or> getValue c = ''J'' then KING_JACK_PENALTY_VAL else 0)"

definition heart_king_pen :: "card \<Rightarrow> int" where
  "heart_king_pen c =
     (if getValue c = ''K'' \<and> getColor c = COLOR_H then KING_HEART_PENALTY_VAL else 0)"

fun penalty_of :: "round_type \<Rightarrow> table \<Rightarrow> nat \<Rightarrow> int res" where
  "penalty_of TRICK_PENALTY table trickNo = Inr TRICK_PENALTY_VAL"
| "penalty_of HEART_PENALTY table trickNo = Inr (sum_pen heart_pen table)"
| "penalty_of QUEEN_PENALTY table trickNo = Inr (sum_pen queen_pen table)"
| "penalty_of KING_JACK_PENALTY table trickNo = Inr (sum_pen king_jack_pen table)"
| "penalty_of HEART_KING_PENALTY table trickNo = Inr (sum_pen heart_king_pen table)"
| "penalty_of SEVENTH_LAST_TRICK_PENALTY table trickNo = Inr (seventh_or_last trickNo)"
| "penalty_of EVERYTHING table trickNo =
     Inr (TRICK_PENALTY_VAL + seventh_or_last trickNo
          + sum_pen (\<lambda>c. heart_pen c + queen_pen c + king_jack_pen c + heart_king_pen c) table)"
| "penalty_of (Round_raw i) table trickNo = Inl Assert_failed"

text \<open>\<^verbatim>\<open>table.front()\<close> and \<^verbatim>\<open>table[i]\<close> are unchecked: fewer than four cards are undefined behaviour.\<close>

definition whoTakes :: "side \<Rightarrow> table \<Rightarrow> round_type \<Rightarrow> nat \<Rightarrow> (side \<times> int) res" where
  "whoTakes startingSide table roundType trickNo =
     (if length table < 4 then Inl Undefined
      else
        let takerIx = taker_loop [1, 2, 3] table (getColor (table ! 0)) 0 in
        bindE (advance takerIx startingSide) (\<lambda>takerSide.
        bindE (penalty_of roundType table trickNo) (\<lambda>pen.
        Inr (takerSide, pen))))"

section \<open>Legality\<close>

lemma has_color_iff: "has_color h k \<longleftrightarrow> (\<exists>c \<in> set h. col c = k)"
  by (induction h) (auto simp: getColor_def)

lemma has_card_iff: "wf_card c \<Longrightarrow> \<forall>x \<in> set h. wf_card x \<Longrightarrow> has_card h c \<longleftrightarrow> c \<in> set h"
proof (induction h)
  case (Cons x h)
  then show ?case using same_card_iff [of x c] by auto
qed simp

text \<open>The rule: the card is in the hand and follows the suit led if the hand can.\<close>

definition legal_move :: "hand \<Rightarrow> card \<Rightarrow> table \<Rightarrow> bool" where
  "legal_move h c table \<longleftrightarrow>
     c \<in> set h \<and> (table \<noteq> [] \<longrightarrow> col c = col (hd table) \<or> (\<forall>d \<in> set h. col d \<noteq> col (hd table)))"

lemma isMoveLegal_legal:
  assumes "state s = Some h" and "wf_card c" and "\<forall>x \<in> set h. wf_card x"
  shows "isMoveLegal s c state table = Inr (legal_move h c table)"
  using assms has_card_iff [OF assms(2,3)]
  by (cases table) (auto simp: isMoveLegal_def legal_move_def has_color_iff getColor_def Let_def)

text \<open>A player whose turn it is always has a legal card.\<close>

lemma ex_legal_move:
  assumes "h \<noteq> []"
  shows "\<exists>c. legal_move h c table"
proof (cases "\<exists>d \<in> set h. table \<noteq> [] \<and> col d = col (hd table)")
  case True
  then show ?thesis by (auto simp: legal_move_def)
next
  case False
  with assms have "legal_move h (hd h) table" by (auto simp: legal_move_def)
  then show ?thesis ..
qed

section \<open>The taker\<close>

lemma card_gt_iff: "card_gt c d \<longleftrightarrow> true_val d < true_val c"
  by (auto simp: card_gt_def card_le_def card_eq_def card_lt_def)

text \<open>The index of the first card of highest rank among those of the led suit.\<close>

definition best_index :: "table \<Rightarrow> nat \<Rightarrow> nat \<Rightarrow> bool" where
  "best_index table n i \<longleftrightarrow>
     i < n \<and> col (table ! i) = col (table ! 0) \<and>
     (\<forall>j < n. col (table ! j) = col (table ! 0) \<longrightarrow> true_val (table ! j) \<le> true_val (table ! i)) \<and>
     (\<forall>j < i. col (table ! j) = col (table ! 0) \<longrightarrow> true_val (table ! j) < true_val (table ! i))"

lemma best_index_step:
  assumes "best_index table n i"
  shows "best_index table (Suc n)
    (if getColor (table ! n) = getColor (table ! 0) \<and> card_gt (table ! n) (table ! i) then n else i)"
  using assms unfolding best_index_def card_gt_iff getColor_def
  by (auto simp: less_Suc_eq)

lemma taker_loop_best: "best_index table 4 (taker_loop [1, 2, 3] table (getColor (table ! 0)) 0)"
proof -
  have "best_index table (Suc 0) 0" by (simp add: best_index_def)
  from best_index_step [OF best_index_step [OF best_index_step [OF this]]]
  show ?thesis by (simp add: numeral_eq_Suc)
qed

lemma best_index_unique: "best_index table n i \<Longrightarrow> best_index table n j \<Longrightarrow> i = j"
  unfolding best_index_def by (metis linorder_neqE_nat not_less)

lemma advance_seat: "real_side s \<Longrightarrow> advance n s = Inr (seat n s)"
proof (induction n arbitrary: s)
  case (Suc n)
  then show ?case by (simp add: nxtSide_real seat_nxt)
qed simp

definition penalty :: "round_type \<Rightarrow> table \<Rightarrow> nat \<Rightarrow> int" where
  "penalty r table n = (case penalty_of r table n of Inr p \<Rightarrow> p | Inl e \<Rightarrow> 0)"

lemma penalty_of_real: "real_round r \<Longrightarrow> penalty_of r table n = Inr (penalty r table n)"
  by (cases r) (simp_all add: penalty_def)

lemma whoTakes_best:
  assumes "real_side s" and "real_round r" and "4 \<le> length table"
  shows "\<exists>i < 4. best_index table 4 i \<and> whoTakes s table r n = Inr (seat i s, penalty r table n)"
proof -
  let ?i = "taker_loop [1, 2, 3] table (getColor (table ! 0)) 0"
  have "best_index table 4 ?i" by (rule taker_loop_best)
  moreover from this have "?i < 4" by (simp add: best_index_def)
  ultimately show ?thesis
    using assms by (intro exI [of _ ?i]) (simp add: whoTakes_def advance_seat penalty_of_real)
qed

lemma whoTakes_short: "length table < 4 \<Longrightarrow> whoTakes s table r n = Inl Undefined"
  by (simp add: whoTakes_def)

section \<open>Penalties\<close>

lemmas penalty_vals = TRICK_PENALTY_VAL_def HEART_PENALTY_VAL_def QUEEN_PENALTY_VAL_def
  KING_JACK_PENALTY_VAL_def KING_HEART_PENALTY_VAL_def SEVENTH_LAST_TRICK_PENALTY_VAL_def

lemmas card_pens = heart_pen_def queen_pen_def king_jack_pen_def heart_king_pen_def

lemma sum_pen_sum_list: "sum_pen f t = sum_list (map f t)"
  by (induction t) simp_all

lemma sum_pen_add: "sum_pen (\<lambda>c. f c + g c) t = sum_pen f t + sum_pen g t"
  by (induction t) simp_all

lemma sum_pen_nonneg: "(\<And>c. 0 \<le> f c) \<Longrightarrow> 0 \<le> sum_pen f t"
  by (induction t) (auto simp: add_nonneg_nonneg)

lemma card_pens_nonneg:
  "0 \<le> heart_pen c" "0 \<le> queen_pen c" "0 \<le> king_jack_pen c" "0 \<le> heart_king_pen c"
  by (simp_all add: card_pens penalty_vals)

lemma penalty_nonneg: "0 \<le> penalty r table n"
  using card_pens_nonneg
  by (cases r) (auto simp: penalty_def seventh_or_last_def penalty_vals intro!: sum_pen_nonneg add_nonneg_nonneg)

text \<open>The penalties of the round of everything are those of the six other kinds together.\<close>

lemma penalty_everything:
  "penalty EVERYTHING table n =
     penalty TRICK_PENALTY table n + penalty HEART_PENALTY table n + penalty QUEEN_PENALTY table n
     + penalty KING_JACK_PENALTY table n + penalty HEART_KING_PENALTY table n
     + penalty SEVENTH_LAST_TRICK_PENALTY table n"
  by (simp add: penalty_def sum_pen_add)

text \<open>The tricks of a round in order, the first numbered \<open>n\<close>.\<close>

fun round_penalty :: "round_type \<Rightarrow> nat \<Rightarrow> table list \<Rightarrow> int" where
  "round_penalty r n [] = 0"
| "round_penalty r n (t # ts) = penalty r t n + round_penalty r (Suc n) ts"

lemma sum_pen_mset: "mset xs = mset ys \<Longrightarrow> sum_pen f xs = sum_pen f ys"
  by (simp add: sum_pen_sum_list flip: sum_mset_sum_list) 

lemma sum_pen_concat: "sum_pen f (concat ts) = sum_list (map (sum_pen f) ts)"
  by (induction ts) (simp_all add: sum_pen_sum_list)

text \<open>The total a kind of round hands out when the whole deck is played.\<close>

fun round_total :: "round_type \<Rightarrow> int" where
  "round_total TRICK_PENALTY = 13"
| "round_total HEART_PENALTY = 13"
| "round_total QUEEN_PENALTY = 20"
| "round_total KING_JACK_PENALTY = 16"
| "round_total HEART_KING_PENALTY = 18"
| "round_total SEVENTH_LAST_TRICK_PENALTY = 20"
| "round_total EVERYTHING = 100"
| "round_total (Round_raw i) = 0"

lemma round_penalty_cards:
  assumes "\<And>t n. penalty r t n = sum_pen f t"
  shows "round_penalty r n ts = sum_pen f (concat ts)"
  by (induction ts arbitrary: n) (simp_all add: assms sum_pen_sum_list)

lemma round_penalty_trick: "round_penalty TRICK_PENALTY n ts = int (length ts)"
  by (induction ts arbitrary: n) (simp_all add: penalty_def TRICK_PENALTY_VAL_def)

lemma round_penalty_seventh:
  "round_penalty SEVENTH_LAST_TRICK_PENALTY n ts = sum_list (map seventh_or_last [n..<n + length ts])"
  by (induction ts arbitrary: n) (simp_all add: penalty_def upt_conv_Cons del: upt_Suc)

lemma round_penalty_everything:
  "round_penalty EVERYTHING n ts =
     round_penalty TRICK_PENALTY n ts + round_penalty HEART_PENALTY n ts + round_penalty QUEEN_PENALTY n ts
     + round_penalty KING_JACK_PENALTY n ts + round_penalty HEART_KING_PENALTY n ts
     + round_penalty SEVENTH_LAST_TRICK_PENALTY n ts"
  by (induction ts arbitrary: n) (simp_all add: penalty_everything)

lemma deck_pens:
  "sum_pen heart_pen deck = 13" "sum_pen queen_pen deck = 20"
  "sum_pen king_jack_pen deck = 16" "sum_pen heart_king_pen deck = 18"
  by (simp_all add: deck_def suits_def faces_def card_pens penalty_vals getColor_def getValue_def)

lemma round_penalty_total:
  assumes "length ts = TRICKS_PER_ROUND" and "mset (concat ts) = mset deck" and "real_round r"
  shows "round_penalty r 1 ts = round_total r"
proof -
  have deck: "sum_pen f (concat ts) = sum_pen f deck" for f
    using assms(2) by (rule sum_pen_mset)
  have cards:
    "round_penalty HEART_PENALTY 1 ts = 13" "round_penalty QUEEN_PENALTY 1 ts = 20"
    "round_penalty KING_JACK_PENALTY 1 ts = 16" "round_penalty HEART_KING_PENALTY 1 ts = 18"
    using round_penalty_cards [of HEART_PENALTY heart_pen] round_penalty_cards [of QUEEN_PENALTY queen_pen]
      round_penalty_cards [of KING_JACK_PENALTY king_jack_pen]
      round_penalty_cards [of HEART_KING_PENALTY heart_king_pen]
    by (simp_all add: penalty_def deck deck_pens)
  have trick: "round_penalty TRICK_PENALTY 1 ts = 13"
    using assms(1) by (simp add: round_penalty_trick TRICKS_PER_ROUND_def)
  have seventh: "round_penalty SEVENTH_LAST_TRICK_PENALTY 1 ts = 20"
    using assms(1)
    by (simp add: round_penalty_seventh TRICKS_PER_ROUND_def upt_conv_Cons seventh_or_last_def penalty_vals)
  show ?thesis
    using assms(3) cards trick seventh round_penalty_everything [of 1 ts] by (cases r) simp_all
qed

section \<open>Properties\<close>

text \<open>C30: \<open>isMoveLegal\<close> decides the rule: the card is in the player's hand and follows the suit led if the
  hand can.\<close>

theorem isMoveLegal_rule:
  assumes "state s = Some h" and "wf_card c" and "\<forall>x \<in> set h. wf_card x"
  shows "isMoveLegal s c state table = Inr (legal_move h c table)"
  using assms by (rule isMoveLegal_legal)

theorem isMoveLegal_rule_witness:
  "isMoveLegal N (mk_card ''A'' COLOR_H) [N \<mapsto> [mk_card ''A'' COLOR_H, mk_card ''2'' COLOR_C]]
     [mk_card ''7'' COLOR_C] = Inr False"
  using isMoveLegal_rule [of "[N \<mapsto> [mk_card ''A'' COLOR_H, mk_card ''2'' COLOR_C]]" N
      "[mk_card ''A'' COLOR_H, mk_card ''2'' COLOR_C]" "mk_card ''A'' COLOR_H" "[mk_card ''7'' COLOR_C]"]
  by (simp add: faces_def legal_move_def)

text \<open>C29: \<open>whoTakes\<close> gives the trick to the side that played the highest card of the suit led, counted from
  the side it is told, with the penalty of the kind of round.\<close>

theorem whoTakes_highest:
  assumes "real_side s" and "real_round r" and "4 \<le> length table"
  shows "\<exists>i < 4. col (table ! i) = col (table ! 0) \<and>
     (\<forall>j < 4. col (table ! j) = col (table ! 0) \<longrightarrow> true_val (table ! j) \<le> true_val (table ! i)) \<and>
     whoTakes s table r n = Inr (seat i s, penalty r table n)"
proof -
  obtain i where "i < 4" "best_index table 4 i" "whoTakes s table r n = Inr (seat i s, penalty r table n)"
    using whoTakes_best [OF assms] by blast
  then show ?thesis by (intro exI [of _ i]) (simp add: best_index_def)
qed

theorem whoTakes_highest_witness:
  "\<exists>i < 4. whoTakes W [mk_card ''7'' COLOR_C, mk_card ''A'' COLOR_H, mk_card ''10'' COLOR_C, mk_card ''2'' COLOR_D]
     HEART_PENALTY 3 = Inr (seat i W, penalty HEART_PENALTY [mk_card ''7'' COLOR_C, mk_card ''A'' COLOR_H,
       mk_card ''10'' COLOR_C, mk_card ''2'' COLOR_D] 3)"
  using whoTakes_highest [of W HEART_PENALTY "[mk_card ''7'' COLOR_C, mk_card ''A'' COLOR_H,
      mk_card ''10'' COLOR_C, mk_card ''2'' COLOR_D]" 3] by auto

text \<open>The penalties of a whole round in which the deck is played in thirteen tricks add up to 13, 13, 20,
  16, 18, 20 and 100, by the kind of round.\<close>

theorem penalties_of_round:
  assumes "length ts = TRICKS_PER_ROUND" and "mset (concat ts) = mset deck" and "real_round r"
  shows "round_penalty r 1 ts = round_total r"
  using assms by (rule round_penalty_total)

text \<open>The deck in thirteen tricks, as it is listed.\<close>

definition deck_tricks :: "table list" where
  "deck_tricks = map (\<lambda>i. take 4 (drop (4 * i) deck)) [0..<13]"

theorem penalties_of_round_witness: "round_penalty EVERYTHING 1 deck_tricks = 100"
proof -
  have "concat deck_tricks = deck" "length deck_tricks = TRICKS_PER_ROUND"
    by (simp_all add: deck_tricks_def deck_def suits_def faces_def TRICKS_PER_ROUND_def upt_rec)
  with penalties_of_round [of deck_tricks EVERYTHING] show ?thesis by simp
qed

text \<open>In the round of everything a trick costs what it costs in the six other kinds of round together.\<close>

theorem everything_is_sum:
  "penalty EVERYTHING table n =
     penalty TRICK_PENALTY table n + penalty HEART_PENALTY table n + penalty QUEEN_PENALTY table n
     + penalty KING_JACK_PENALTY table n + penalty HEART_KING_PENALTY table n
     + penalty SEVENTH_LAST_TRICK_PENALTY table n"
  by (rule penalty_everything)

end
