(* ===== verification/Scenario.thy ===== *)
theory Scenario
  imports Utils
begin

text \<open>
  The scenario file: \<^verbatim>\<open>parseScenario\<close> of \<^verbatim>\<open>common/utils.cpp\<close> reads the rounds of a game, each a
  header line and one line of thirteen cards for every side. \<open>render_scenario\<close> is the file a
  scenario comes from; reading it back is the identity.
\<close>

section \<open>The reader\<close>

text \<open>\<^verbatim>\<open>std::getline\<close> until the end of the file.\<close>

function getlines :: "string \<Rightarrow> string list" where
  "getlines s =
     (if s = [] then []
      else takeWhile (\<lambda>c. c \<noteq> CHR 0x0A) s # getlines (tl (dropWhile (\<lambda>c. c \<noteq> CHR 0x0A) s)))"
  by pat_completeness auto
termination
proof (relation "measure length")
  fix s :: string
  assume "s \<noteq> []"
  then show "(tl (dropWhile (\<lambda>c. c \<noteq> CHR 0x0A) s), s) \<in> measure length"
    using length_dropWhile_le [of "\<lambda>c. c \<noteq> CHR 0x0A" s]
    by (simp add: less_eq_Suc_le [symmetric]) (metis Suc_pred diff_le_self leD length_greater_0_conv linorder_not_less not_less_eq_eq order_trans)
qed simp

declare getlines.simps [simp del]

text \<open>\<^verbatim>\<open>lines[ix]\<close>, unchecked, and \<^verbatim>\<open>line[iter]\<close>, which may read the terminating zero.\<close>

definition line_at :: "string list \<Rightarrow> nat \<Rightarrow> string res" where
  "line_at lines ix = (if ix < length lines then Inr (lines ! ix) else Inl Undefined)"

definition char_in :: "string \<Rightarrow> nat \<Rightarrow> char res" where
  "char_in line i =
     (if i < length line then Inr (line ! i) else if i = length line then Inr (CHR 0x00)
      else Inl Undefined)"

text \<open>The plain \<^verbatim>\<open>char\<close> of the target is signed.\<close>

definition schar :: "char \<Rightarrow> int" where
  "schar c = (if (of_char c :: int) < 128 then of_char c else of_char c - 256)"

fun scenario_cards :: "nat \<Rightarrow> string \<Rightarrow> nat \<Rightarrow> hand res" where
  "scenario_cards 0 line iter = Inr []"
| "scenario_cards (Suc n) line iter =
     bindE (char_in line iter) (\<lambda>ch.
     bindE (if ch = CHR ''1'' then substr line iter 3 else substr line iter 2) (\<lambda>txt.
     bindE (fromString txt) (\<lambda>c.
     bindE (scenario_cards n line (if ch = CHR ''1'' then iter + 3 else iter + 2)) (\<lambda>cs.
     Inr (c # cs)))))"

fun scenario_hands :: "side list \<Rightarrow> string list \<Rightarrow> nat \<Rightarrow> table_state \<Rightarrow> (table_state \<times> nat) res" where
  "scenario_hands [] lines ix state = Inr (state, ix)"
| "scenario_hands (s # ss) lines ix state =
     bindE (line_at lines ix) (\<lambda>line.
     bindE (scenario_cards TRICKS_PER_ROUND line 0) (\<lambda>hand.
     scenario_hands ss lines (ix + 1) (state(s \<mapsto> hand))))"

lemma scenario_hands_ix:
  "scenario_hands ss lines ix st = Inr (st', ix') \<Longrightarrow> ix' = ix + length ss"
  by (induction ss arbitrary: ix st) fastforce+

function scenario_rounds :: "string list \<Rightarrow> nat \<Rightarrow> game_scenario res" where
  "scenario_rounds lines ix =
     (if ix < length lines then
        bindE (str_at (lines ! ix) 0) (\<lambda>c0.
        bindE (str_at (lines ! ix) 1) (\<lambda>c1.
        bindE (scenario_hands sides lines (ix + 1) Map.empty) (\<lambda>hi.
        bindE (scenario_rounds lines (snd hi)) (\<lambda>rest.
        Inr ((round_of_int (schar c0 - schar (CHR ''1'') + 1), fst hi, side_of_char c1) # rest)))))
      else Inr [])"
  by pat_completeness auto
termination
  by (relation "measure (\<lambda>(lines, ix). length lines - ix)")
    (auto dest!: scenario_hands_ix simp: sides_def)

declare scenario_rounds.simps [simp del]

text \<open>A file that cannot be opened yields no lines.\<close>

definition parseScenario :: "string option \<Rightarrow> game_scenario res" where
  "parseScenario file = scenario_rounds (case file of None \<Rightarrow> [] | Some s \<Rightarrow> getlines s) 0"

section \<open>Shape of what is read\<close>

definition hand_ok :: "hand \<Rightarrow> bool" where
  "hand_ok hand \<longleftrightarrow> length hand = TRICKS_PER_ROUND \<and> (\<forall>c \<in> set hand. wf_card c)"

definition hands_ok :: "table_state \<Rightarrow> bool" where
  "hands_ok st \<longleftrightarrow> (\<forall>hand \<in> ran st. hand_ok hand)"

definition state_ok :: "table_state \<Rightarrow> bool" where
  "state_ok st \<longleftrightarrow> dom st = set sides \<and> hands_ok st"

lemma scenario_cards_shape:
  "scenario_cards n line iter = Inr cs \<Longrightarrow> length cs = n \<and> (\<forall>c \<in> set cs. wf_card c)"
  by (induction n arbitrary: iter cs) (auto dest: fromString_wf)

lemma hands_ok_upd: "hands_ok st \<Longrightarrow> hand_ok hand \<Longrightarrow> hands_ok (st(s \<mapsto> hand))"
  by (auto simp: hands_ok_def ran_def)

lemma scenario_hands_shape:
  assumes "scenario_hands ss lines ix st = Inr (st', ix')" and "hands_ok st"
  shows "dom st' = dom st \<union> set ss \<and> hands_ok st'"
  using assms
proof (induction ss arbitrary: ix st)
  case (Cons s ss)
  from Cons.prems(1) obtain line hand where
    hand: "scenario_cards TRICKS_PER_ROUND line 0 = Inr hand"
    and rest: "scenario_hands ss lines (ix + 1) (st(s \<mapsto> hand)) = Inr (st', ix')" by auto
  have "hands_ok (st(s \<mapsto> hand))"
    using Cons.prems(2) scenario_cards_shape [OF hand] by (simp add: hands_ok_upd hand_ok_def)
  from Cons.IH [OF rest this] show ?case by auto
qed auto

lemma scenario_rounds_shape:
  "scenario_rounds lines ix = Inr sc \<Longrightarrow> (r, st, s) \<in> set sc \<Longrightarrow> state_ok st"
proof (induction lines ix arbitrary: sc rule: scenario_rounds.induct)
  case (1 lines ix)
  show ?case
  proof (cases "ix < length lines")
    case False
    with 1 show ?thesis by (simp add: scenario_rounds.simps [of lines ix])
  next
    case True
    with 1(2) obtain c0 c1 hi rest where
      c0: "str_at (lines ! ix) 0 = Inr c0" and c1: "str_at (lines ! ix) 1 = Inr c1"
      and hi: "scenario_hands sides lines (ix + 1) Map.empty = Inr hi"
      and rest: "scenario_rounds lines (snd hi) = Inr rest"
      and sc: "sc = (round_of_int (schar c0 - schar (CHR ''1'') + 1), fst hi, side_of_char c1) # rest"
      by (auto simp: scenario_rounds.simps [of lines ix])
    have "state_ok (fst hi)"
      using scenario_hands_shape [of sides lines "ix + 1" Map.empty "fst hi" "snd hi"] hi
      by (simp add: state_ok_def hands_ok_def)
    with 1(1) [OF True c0 c1 hi rest] 1(3) sc show ?thesis by auto
  qed
qed

section \<open>Undefined behaviour\<close>

text \<open>
  Inside a card line the unchecked reads stay in range: a line that is too short ends in the
  exception of \<^verbatim>\<open>at\<close>. Only a file that stops in the middle of a round makes the reader index
  past \<^verbatim>\<open>lines\<close>.
\<close>

lemma Card_not_Undefined: "Card v k \<noteq> Inl Undefined"
  by (cases "v \<in> set faces") (simp_all add: Card_mk_card Card_error)

lemma fromString_not_Undefined: "fromString s \<noteq> Inl Undefined"
  by (cases s rule: rev_cases) (auto simp: fromString_Nil fromString_snoc Card_not_Undefined)

lemma fromString_length: "fromString s = Inr c \<Longrightarrow> 2 \<le> length s"
  by (auto simp: fromString_Inr faces_def)

lemma fromString_take_1:
  "fromString (take 3 (CHR ''1'' # s)) = Inr c \<Longrightarrow> 3 \<le> length (CHR ''1'' # s)"
proof -
  assume h: "fromString (take 3 (CHR ''1'' # s)) = Inr c"
  have "\<not> length s < 2"
  proof
    assume "length s < 2"
    then consider "s = []" | k where "s = [k]" by (cases s) auto
    then show False
      by cases (use h in \<open>auto simp: fromString_Inr faces_def append_eq_Cons_conv\<close>)
  qed
  then show ?thesis by simp
qed

lemma scenario_cards_defined:
  "iter \<le> length line \<Longrightarrow> scenario_cards n line iter \<noteq> Inl Undefined"
proof (induction n arbitrary: iter)
  case (Suc n)
  obtain ch where ch: "char_in line iter = Inr ch"
    and chd: "iter < length line \<Longrightarrow> ch = line ! iter" "iter = length line \<Longrightarrow> ch = CHR 0x00"
    using Suc.prems that [of "if iter < length line then line ! iter else CHR 0x00"]
    by (simp add: char_in_def)
  define w where "w = (if ch = CHR ''1'' then 3 else 2 :: nat)"
  have sub: "(if ch = CHR ''1'' then substr line iter 3 else substr line iter 2)
      = Inr (take w (drop iter line))"
    using Suc.prems by (simp add: substr_eq w_def)
  show ?case
  proof (cases "fromString (take w (drop iter line))")
    case (Inl e)
    with ch sub fromString_not_Undefined show ?thesis by (auto simp: w_def)
  next
    case (Inr c)
    have "iter + w \<le> length line"
    proof (cases "ch = CHR ''1''")
      case True
      with chd Suc.prems have lt: "iter < length line" by (cases "iter = length line") auto
      with True chd have "drop iter line = CHR ''1'' # drop (Suc iter) line"
        by (metis Cons_nth_drop_Suc)
      with Inr True fromString_take_1 [of "drop (Suc iter) line" c] have "3 \<le> length (drop iter line)"
        by (simp add: w_def)
      with True show ?thesis by (simp add: w_def)
    next
      case False
      with fromString_length [OF Inr] show ?thesis by (simp add: w_def)
    qed
    from Suc.IH [OF this] ch sub Inr show ?thesis
      by (cases "scenario_cards n line (iter + w)") (auto simp: w_def split: if_splits)
  qed
qed simp

lemma scenario_hands_defined:
  "ix + length ss \<le> length lines \<Longrightarrow> scenario_hands ss lines ix st \<noteq> Inl Undefined"
proof (induction ss arbitrary: ix st)
  case (Cons s ss)
  then have line: "line_at lines ix = Inr (lines ! ix)" by (simp add: line_at_def)
  show ?case
  proof (cases "scenario_cards TRICKS_PER_ROUND (lines ! ix) 0")
    case (Inl e)
    with scenario_cards_defined [of 0 "lines ! ix" TRICKS_PER_ROUND] line show ?thesis by auto
  next
    case (Inr hand)
    with line Cons show ?thesis by simp
  qed
qed simp

lemma scenario_rounds_defined:
  "5 dvd (length lines - ix) \<Longrightarrow> scenario_rounds lines ix \<noteq> Inl Undefined"
proof (induction lines ix rule: scenario_rounds.induct)
  case (1 lines ix)
  show ?case
  proof (cases "ix < length lines")
    case True
    with 1(2) have five: "ix + 5 \<le> length lines"
      using dvd_imp_le [of 5 "length lines - ix"] by simp
    show ?thesis
    proof
      assume U: "scenario_rounds lines ix = Inl Undefined"
      have "str_at (lines ! ix) i \<noteq> Inl Undefined" for i by (simp add: str_at_def)
      with U True obtain c0 c1 where c: "str_at (lines ! ix) 0 = Inr c0" "str_at (lines ! ix) 1 = Inr c1"
        by (cases "str_at (lines ! ix) 0"; cases "str_at (lines ! ix) 1")
          (auto simp: scenario_rounds.simps [of lines ix])
      have "scenario_hands sides lines (ix + 1) Map.empty \<noteq> Inl Undefined"
        using five by (intro scenario_hands_defined) (simp add: sides_def)
      with U True c obtain st ix' where hi: "scenario_hands sides lines (ix + 1) Map.empty = Inr (st, ix')"
        by (cases "scenario_hands sides lines (ix + 1) Map.empty")
          (auto simp: scenario_rounds.simps [of lines ix])
      then have ix': "ix' = ix + 5" by (auto dest: scenario_hands_ix simp: sides_def)
      have "5 dvd (length lines - ix')"
        using 1(2) five ix' dvd_diff_nat [of 5 "length lines - ix" 5] by simp
      then have "scenario_rounds lines ix' \<noteq> Inl Undefined" using 1(1) [OF True c hi] by simp
      with U True c hi show False
        by (cases "scenario_rounds lines ix'") (auto simp: scenario_rounds.simps [of lines ix])
    qed
  qed (simp add: scenario_rounds.simps [of lines ix])
qed

section \<open>Writing a scenario\<close>

definition render_round :: "round_type \<times> table_state \<times> side \<Rightarrow> string list" where
  "render_round = (\<lambda>(r, st, s).
     [digit_char (nat (int_of_round r)), char_of_side s]
     # map (\<lambda>t. concat (map toString (get [] t st))) sides)"

definition render_scenario :: "game_scenario \<Rightarrow> string" where
  "render_scenario sc = concat (map (\<lambda>l. l @ [CHR 0x0A]) (concat (map render_round sc)))"

text \<open>A game the server can be given: thirteen game cards a side, real kinds and starters.\<close>

definition round_ok :: "round_type \<times> table_state \<times> side \<Rightarrow> bool" where
  "round_ok = (\<lambda>(r, st, s).
     real_round r \<and> real_side s \<and> dom st = set sides \<and>
     (\<forall>hand \<in> ran st. length hand = TRICKS_PER_ROUND \<and> (\<forall>c \<in> set hand. game_card c)))"

definition scenario_ok :: "game_scenario \<Rightarrow> bool" where
  "scenario_ok sc \<longleftrightarrow> (\<forall>r \<in> set sc. round_ok r)"

lemma face_start: "v \<in> set faces \<Longrightarrow> (\<exists>k. v = [k] \<and> k \<noteq> CHR ''1'') \<or> v = ''10''"
  by (auto simp: faces_def)

lemma scenario_cards_render:
  "\<forall>c \<in> set cs. wf_card c \<Longrightarrow> n = length cs \<Longrightarrow>
   scenario_cards n (p @ concat (map toString cs)) (length p) = Inr cs"
proof (induction cs arbitrary: n p)
  case (Cons c cs)
  let ?rest = "concat (map toString cs)"
  have wf: "wf_card c" using Cons.prems by simp
  then obtain v k where v: "v \<in> set faces" and c: "c = mk_card v k" by (auto simp: wf_card_iff)
  define w where "w = (if v = ''10'' then 3 else 2 :: nat)"
  have len: "length (toString c) = w"
    using face_start [OF v] by (auto simp: toString_def w_def c)
  have sub: "substr (p @ toString c @ ?rest) (length p) w = Inr (toString c)"
    using substr_append [of p "toString c" ?rest] by (simp add: len)
  have ch: "char_in (p @ toString c @ ?rest) (length p) = Inr (hd v)"
    using face_start [OF v] by (auto simp: char_in_def toString_def c)
  have w: "hd v = CHR ''1'' \<longleftrightarrow> w = 3" using face_start [OF v] by (auto simp: w_def)
  have IH: "scenario_cards (length cs) ((p @ toString c) @ ?rest) (length (p @ toString c)) = Inr cs"
    using Cons.prems by (intro Cons.IH) auto
  show ?case
  proof (cases "w = 3")
    case True
    with ch w sub IH Cons.prems(2) fromString_toString [OF wf] len show ?thesis by simp
  next
    case False
    then have "w = 2" by (simp add: w_def split: if_splits)
    with False ch w sub IH Cons.prems(2) fromString_toString [OF wf] len show ?thesis by simp
  qed
qed simp

fun hands_upd :: "table_state \<Rightarrow> side list \<Rightarrow> table_state \<Rightarrow> table_state" where
  "hands_upd src [] st = st"
| "hands_upd src (s # ss) st = hands_upd src ss (st(s \<mapsto> get [] s src))"

lemma scenario_hands_render:
  assumes "\<forall>t \<in> set ss. length (get [] t src) = TRICKS_PER_ROUND \<and> (\<forall>c \<in> set (get [] t src). wf_card c)"
  shows "scenario_hands ss (pre @ map (\<lambda>t. concat (map toString (get [] t src))) ss @ post)
           (length pre) st = Inr (hands_upd src ss st, length pre + length ss)"
  using assms
proof (induction ss arbitrary: pre st)
  case (Cons s ss)
  let ?f = "\<lambda>t. concat (map toString (get [] t src))"
  have line: "line_at (pre @ map ?f (s # ss) @ post) (length pre) = Inr (?f s)"
    by (simp add: line_at_def)
  have cards: "scenario_cards TRICKS_PER_ROUND (?f s) 0 = Inr (get [] s src)"
    using scenario_cards_render [of "get [] s src" TRICKS_PER_ROUND "[]"] Cons.prems by simp
  have "scenario_hands ss ((pre @ [?f s]) @ map ?f ss @ post) (length (pre @ [?f s]))
      (st(s \<mapsto> get [] s src)) = Inr (hands_upd src ss (st(s \<mapsto> get [] s src)), length pre + 1 + length ss)"
    using Cons.prems Cons.IH [of "pre @ [?f s]"] by simp
  with line cards show ?case by simp
qed simp

lemma hands_upd_sides:
  assumes "dom src = set sides"
  shows "hands_upd src sides Map.empty = src"
proof
  fix s
  show "hands_upd src sides Map.empty s = src s"
    using assms by (cases "src s") (auto simp: sides_def get_def split: option.splits)
qed

lemma schar_digit: "1 \<le> i \<Longrightarrow> i \<le> 7 \<Longrightarrow> schar (digit_char (nat i)) - schar (CHR ''1'') + 1 = i"
proof -
  assume "1 \<le> i" "i \<le> 7"
  then have "i \<in> {1, 2, 3, 4, 5, 6, 7}" by auto
  then show ?thesis by (auto simp: schar_def)
qed

lemma length_render_round [simp]: "length (render_round r) = 5"
  by (cases r) (simp add: render_round_def sides_def)

lemma scenario_rounds_render:
  "scenario_ok sc \<Longrightarrow>
   scenario_rounds (pre @ concat (map render_round sc)) (length pre) = Inr sc"
proof (induction sc arbitrary: pre)
  case Nil
  show ?case by (simp add: scenario_rounds.simps)
next
  case (Cons x sc)
  obtain r st s where x: "x = (r, st, s)" by (cases x)
  from Cons.prems x have ok: "real_round r" "real_side s" "dom st = set sides"
    and ran: "\<forall>hand \<in> ran st. length hand = TRICKS_PER_ROUND \<and> (\<forall>c \<in> set hand. game_card c)"
    by (simp_all add: scenario_ok_def round_ok_def)
  have hands: "\<forall>t \<in> set sides. length (get [] t st) = TRICKS_PER_ROUND \<and> (\<forall>c \<in> set (get [] t st). wf_card c)"
  proof
    fix t
    assume "t \<in> set sides"
    with ok(3) obtain hand where "st t = Some hand" by blast
    with ran game_card_wf show "length (get [] t st) = TRICKS_PER_ROUND \<and> (\<forall>c \<in> set (get [] t st). wf_card c)"
      by (metis get_Some ranI)
  qed
  let ?tail = "concat (map render_round sc)"
  let ?ls = "map (\<lambda>t. concat (map toString (get [] t st))) sides"
  define hdr where "hdr = [digit_char (nat (int_of_round r)), char_of_side s]"
  define lines where "lines = pre @ concat (map render_round (x # sc))"
  have lines: "lines = (pre @ [hdr]) @ ?ls @ ?tail"
    by (simp add: x render_round_def hdr_def lines_def)
  have "scenario_hands sides ((pre @ [hdr]) @ ?ls @ ?tail) (length (pre @ [hdr])) Map.empty
      = Inr (st, length (pre @ [hdr]) + length sides)"
    using scenario_hands_render [of sides st "pre @ [hdr]" ?tail Map.empty] hands ok(3)
    by (simp add: hands_upd_sides)
  then have hi: "scenario_hands sides lines (length pre + 1) Map.empty = Inr (st, length pre + 5)"
    unfolding lines by (simp add: sides_def)
  have rest: "scenario_rounds lines (length pre + 5) = Inr sc"
    using Cons.IH [of "pre @ render_round x"] Cons.prems by (simp add: scenario_ok_def lines_def)
  have hdr: "lines ! length pre = hdr" and lt: "length pre < length lines" unfolding lines by simp_all
  have "scenario_rounds lines (length pre) = Inr (x # sc)"
    using hi rest hdr lt ok int_of_round_bounds [OF ok(1)]
    by (simp add: scenario_rounds.simps [of lines "length pre"] str_at_def hdr_def
        schar_digit round_of_int_of_round side_of_char_of_side x)
  then show ?case by (simp add: lines_def)
qed

lemma getlines_render:
  "\<forall>l \<in> set ls. CHR 0x0A \<notin> set l \<Longrightarrow> getlines (concat (map (\<lambda>l. l @ [CHR 0x0A]) ls)) = ls"
proof (induction ls)
  case Nil
  show ?case by (simp add: getlines.simps)
next
  case (Cons l ls)
  let ?r = "concat (map (\<lambda>l. l @ [CHR 0x0A]) ls)"
  have l: "\<forall>c \<in> set l. c \<noteq> CHR 0x0A" using Cons.prems by auto
  have "takeWhile (\<lambda>c. c \<noteq> CHR 0x0A) (l @ CHR 0x0A # ?r) = l"
    using l by (simp add: takeWhile_append)
  moreover have "dropWhile (\<lambda>c. c \<noteq> CHR 0x0A) (l @ CHR 0x0A # ?r) = CHR 0x0A # ?r"
    using l by (simp add: dropWhile_append)
  moreover have "getlines (l @ CHR 0x0A # ?r) =
      takeWhile (\<lambda>c. c \<noteq> CHR 0x0A) (l @ CHR 0x0A # ?r)
      # getlines (tl (dropWhile (\<lambda>c. c \<noteq> CHR 0x0A) (l @ CHR 0x0A # ?r)))"
    by (simp add: getlines.simps [of "l @ CHR 0x0A # ?r"])
  ultimately show ?case using Cons by simp
qed

lemma render_no_newline:
  assumes "round_ok x" "l \<in> set (render_round x)"
  shows "CHR 0x0A \<notin> set l"
proof -
  obtain r st s where x: "x = (r, st, s)" by (cases x)
  have "CHR 0x0A \<notin> set (toString c)" if "game_card c" for c
    using that by (auto simp: game_card_def wf_card_iff toString_def faces_def suits_def)
  moreover have "CHR 0x0A \<noteq> digit_char (nat (int_of_round r))"
    using assms(1) x by (cases r) (auto simp: round_ok_def)
  moreover have "CHR 0x0A \<noteq> char_of_side s"
    using assms(1) x by (cases s) (auto simp: round_ok_def)
  moreover have "game_card c" if "c \<in> set (get [] t st)" for t c
    using that assms(1) x by (cases "st t") (auto simp: round_ok_def get_def dest: ranI)
  ultimately show ?thesis using assms(2) by (auto simp: render_round_def x)
qed

section \<open>Properties\<close>

text \<open>C38: A scenario file written from a game the server can be given is read back as that game.\<close>

theorem scenario_roundtrip:
  assumes "scenario_ok sc"
  shows "parseScenario (Some (render_scenario sc)) = Inr sc"
proof -
  have "\<forall>l \<in> set (concat (map render_round sc)). CHR 0x0A \<notin> set l"
    using assms render_no_newline by (auto simp: scenario_ok_def)
  then have "getlines (render_scenario sc) = concat (map render_round sc)"
    unfolding render_scenario_def by (rule getlines_render)
  then show ?thesis using scenario_rounds_render [OF assms, of "[]"] by (simp add: parseScenario_def)
qed

text \<open>C39: Whatever \<open>parseScenario\<close> returns has a hand of thirteen well-formed cards for each of the four
  sides in every round.\<close>

theorem scenario_shape:
  assumes "parseScenario file = Inr sc" and "(r, st, s) \<in> set sc"
  shows "dom st = set sides \<and> (\<forall>hand \<in> ran st. length hand = TRICKS_PER_ROUND \<and> (\<forall>c \<in> set hand. wf_card c))"
  using scenario_rounds_shape [OF assms(1) [unfolded parseScenario_def] assms(2)]
  by (simp add: state_ok_def hands_ok_def hand_ok_def)

text \<open>If the number of lines is a multiple of five, the unchecked reads of \<open>parseScenario\<close> stay in
  range: a malformed file raises an exception, it does not run into undefined behaviour.\<close>

theorem scenario_defined:
  assumes "5 dvd length (getlines s)"
  shows "parseScenario (Some s) \<noteq> Inl Undefined"
  using scenario_rounds_defined [of "getlines s" 0] assms by (simp add: parseScenario_def)

theorem scenario_defined_witness: "parseScenario (Some (concat (replicate 5 (''1W'' @ [CHR 0x0A])))) \<noteq> Inl Undefined"
  by (rule scenario_defined) (simp add: getlines.simps numeral_eq_Suc)

text \<open>A file that stops in the middle of a round makes \<open>parseScenario\<close> read past the vector of lines.\<close>

theorem scenario_truncated: "parseScenario (Some ''1W'') = Inl Undefined"
  by (simp add: parseScenario_def getlines.simps scenario_rounds.simps str_at_def sides_def line_at_def)

end
