(* ===== verification/Net_Address.thy ===== *)
theory Net_Address
  imports Common_Types
begin

text \<open>
  Addresses of \<^verbatim>\<open>common/utils.cpp\<close>: resolving a host to a socket address and asking a socket for
  its own. What \<^verbatim>\<open>getaddrinfo\<close> and \<^verbatim>\<open>getsockname\<close> answer is a parameter.
\<close>

datatype family = AF_UNSPEC | AF_INET | AF_INET6 | AF_other nat

text \<open>
  \<^verbatim>\<open>sockaddrAny\<close>: the member of the union is the one that was copied into, with the host and
  the port; the family is the one of the address found.
\<close>

datatype addr_any = Addr_in string nat | Addr_in6 string nat

record sockaddrAny =
  family_of :: family
  addr_of :: addr_any

text \<open>The list \<^verbatim>\<open>getaddrinfo\<close> allocates, or its error code.\<close>

type_synonym addrinfo = "(family \<times> string) list"

fun matchingSockaddr :: "addrinfo \<Rightarrow> family \<Rightarrow> (family \<times> string) option" where
  "matchingSockaddr [] fam = None"
| "matchingSockaddr ((ai_family, ai_addr) # ai_next) fam =
     (if ai_family = fam \<or> fam = AF_UNSPEC then Some (ai_family, ai_addr)
      else matchingSockaddr ai_next fam)"

definition getIntAddr :: "(string \<Rightarrow> family \<Rightarrow> int + addrinfo) \<Rightarrow> string \<Rightarrow> family \<Rightarrow> nat \<Rightarrow> sockaddrAny res" where
  "getIntAddr getaddrinfo host proto port =
     (case getaddrinfo host proto of
        Inl errcode \<Rightarrow> Inl (Runtime_error ''getaddrinfo'')
      | Inr addressResult \<Rightarrow>
          (case matchingSockaddr addressResult proto of
             None \<Rightarrow> Inl (Runtime_error ''getaddrinfo - no matching family'')
           | Some (fam, addr) \<Rightarrow>
               Inr \<lparr>family_of = fam,
                    addr_of = (if fam = AF_INET then Addr_in addr port else Addr_in6 addr port)\<rparr>))"

text \<open>
  Ports in a socket address are in network order: on a little-endian machine the two bytes are
  exchanged, by \<^verbatim>\<open>htons\<close> as by \<^verbatim>\<open>ntohs\<close>.
\<close>

definition htons :: "nat \<Rightarrow> nat" where
  "htons p = p mod 256 * 256 + p div 256 mod 256"

abbreviation ntohs :: "nat \<Rightarrow> nat" where
  "ntohs \<equiv> htons"

lemma htons_bound: "htons p < 2 ^ 16"
proof -
  have "p mod 256 \<le> 255" "p div 256 mod 256 \<le> 255" by (simp_all add: less_Suc_eq_le [symmetric])
  then show ?thesis by (simp add: htons_def)
qed

lemma ntohs_htons: "p < 2 ^ 16 \<Longrightarrow> ntohs (htons p) = p"
  by (simp add: htons_def)

text \<open>
  \<open>getsockname\<close> yields the port and the host that stand in the structure of the given family,
  \<open>None\<close> if the call fails.
\<close>

definition getAddrStruct :: "(family \<Rightarrow> net_address option) \<Rightarrow> family \<Rightarrow> net_address res" where
  "getAddrStruct getsockname proto =
     (if proto = AF_INET
      then (case getsockname AF_INET of None \<Rightarrow> Inl (Runtime_error ''getsockname'') | Some (p, host) \<Rightarrow> Inr (ntohs p, host))
      else (case getsockname AF_INET6 of None \<Rightarrow> Inl (Runtime_error ''getsockname'') | Some (p, host) \<Rightarrow> Inr (ntohs p, host)))"

text \<open>\<open>ok\<close> is whether \<^verbatim>\<open>setsockopt\<close> succeeds.\<close>

definition setTimeout :: "bool \<Rightarrow> unit res" where
  "setTimeout ok = (if \<not> ok then Inl (Runtime_error ''setsockopt'') else Inr ())"

lemma setTimeout_True [simp]: "setTimeout True = Inr ()"
  by (simp add: setTimeout_def)

text \<open>The address found is of the family asked for, if one was.\<close>

lemma matchingSockaddr_family:
  "matchingSockaddr ais fam = Some (f, a) \<Longrightarrow> (f, a) \<in> set ais \<and> (f = fam \<or> fam = AF_UNSPEC)"
  by (induction ais fam rule: matchingSockaddr.induct) (auto split: if_splits)

lemma getIntAddr_family:
  "getIntAddr ai host proto port = Inr r \<Longrightarrow> family_of r = proto \<or> proto = AF_UNSPEC"
  by (auto simp: getIntAddr_def dest: matchingSockaddr_family split: sum.splits option.splits)

end
