(* ===== verification/Server.thy ===== *)
theory Server
  imports IO_Worker_Mgr Game_Rules Scenario Net_Address
begin

text \<open>
  \<^verbatim>\<open>server/server.cpp\<close>: the state of the game and the callbacks the worker threads run on it.
  Every callback holds \<^verbatim>\<open>gameStateMutex\<close> for its whole body, so it is one step on the state; the
  mutex is a flag and locking it again from the same thread is \<open>Self_deadlock\<close>. The subscript
  operator of the maps inserts a default entry, as \<open>touch\<close> does.
\<close>

section \<open>State\<close>

text \<open>\<open>sysLog\<close> is what \<^verbatim>\<open>msgLogger.logSysErr\<close> has been given.\<close>

record server =
  gameScenario :: game_scenario
  workerMgr :: mgr
  activeSides :: "side \<rightharpoonup> int"
  penalties :: score_map
  penaltiesRound :: score_map
  hands :: table_state
  nextMove :: side
  roundNumber :: nat
  trickNo :: nat
  roundMode :: round_type
  gameStateMutex :: bool
  table :: table
  exitCode :: int
  playersConnected :: int
  sOwnAddr :: net_address
  lastDeal :: table_state
  takenInRound :: "send_job list"
  exiting :: bool
  sTimeout :: int
  sysLog :: "err_info list"
  workerToSide :: "int \<rightharpoonup> side"
  zombieWorkerToSide :: "int \<rightharpoonup> side"

definition Server :: "game_scenario \<Rightarrow> nat \<Rightarrow> int \<Rightarrow> server" where
  "Server scenario port tmo =
     \<lparr>gameScenario = scenario, workerMgr = IOWorkerMgr,
      activeSides = [W \<mapsto> - 1, E \<mapsto> - 1, S \<mapsto> - 1, N \<mapsto> - 1],
      penalties = [W \<mapsto> 0, E \<mapsto> 0, S \<mapsto> 0, N \<mapsto> 0], penaltiesRound = Map.empty,
      hands = [W \<mapsto> [], E \<mapsto> [], S \<mapsto> [], N \<mapsto> []], nextMove = W, roundNumber = 0, trickNo = 1,
      roundMode = TRICK_PENALTY, gameStateMutex = False, table = [], exitCode = 0,
      playersConnected = 0, sOwnAddr = (port, ''''), lastDeal = Map.empty, takenInRound = [],
      exiting = False, sTimeout = tmo, sysLog = [], workerToSide = Map.empty,
      zombieWorkerToSide = Map.empty\<rparr>"

text \<open>The scope of \<^verbatim>\<open>MutexGuard lock(gameStateMutex)\<close>.\<close>

definition with_game :: "(server \<Rightarrow> ('r \<times> server) res) \<Rightarrow> server \<Rightarrow> ('r \<times> server) res" where
  "with_game f s =
     (if gameStateMutex s then Inl Self_deadlock
      else bindE (f (s\<lparr>gameStateMutex := True\<rparr>)) (\<lambda>p.
           Inr (fst p, (snd p)\<lparr>gameStateMutex := False\<rparr>)))"

section \<open>System errors and the end of the game\<close>

text \<open>
  \<^verbatim>\<open>finalize\<close> runs under the game mutex. The manager's callback \<^verbatim>\<open>handleSysErr(info)\<close> would lock
  it again, so inside \<^verbatim>\<open>finish\<close> the callback is \<open>locked_cb\<close>; \<open>mgr_cb_locked\<close> below shows that
  this is what the callback does.
\<close>

definition locked_cb :: pipe_cb where
  "locked_cb info m = Inl Self_deadlock"

definition finalize :: "sys_write \<Rightarrow> server \<Rightarrow> server res" where
  "finalize wr s =
     (if exiting s then Inr s
      else
        let s1 = s\<lparr>exiting := True\<rparr> in
        bindE (releaseCleaner (workerMgr s1)) (\<lambda>m.
        bindE (finish wr locked_cb m) (\<lambda>m'.
        Inr (s1\<lparr>workerMgr := m'\<rparr>))))"

definition sys_err_body :: "sys_write \<Rightarrow> err_info \<Rightarrow> server \<Rightarrow> (bool \<times> server) res" where
  "sys_err_body wr info s =
     (if errType info = IO_ERR_INTERNAL then
        bindE (finalize wr (s\<lparr>exitCode := 1\<rparr>)) (\<lambda>s'. Inr (True, s'))
      else Inr (False, s))"

definition handleSysErr :: "sys_write \<Rightarrow> err_info \<Rightarrow> bool \<Rightarrow> server \<Rightarrow> (bool \<times> server) res" where
  "handleSysErr wr info locked s =
     (let s1 = s\<lparr>sysLog := sysLog s @ [info]\<rparr> in
      if locked then sys_err_body wr info s1 else with_game (sys_err_body wr info) s1)"

text \<open>The callback the manager is constructed with, and a call on the manager.\<close>

definition mgr_cb :: "sys_write \<Rightarrow> server \<Rightarrow> pipe_cb" where
  "mgr_cb wr s info m =
     bindE (handleSysErr wr info False (s\<lparr>workerMgr := m\<rparr>)) (\<lambda>p. Inr (workerMgr (snd p)))"

definition mgr_op :: "sys_write \<Rightarrow> (pipe_cb \<Rightarrow> mgr \<Rightarrow> mgr res) \<Rightarrow> server \<Rightarrow> server res" where
  "mgr_op wr f s = bindE (f (mgr_cb wr s) (workerMgr s)) (\<lambda>m. Inr (s\<lparr>workerMgr := m\<rparr>))"

definition send_to :: "sys_write \<Rightarrow> send_job \<Rightarrow> int \<Rightarrow> server \<Rightarrow> server res" where
  "send_to wr job ix = mgr_op wr (\<lambda>cb. sendJob wr cb job ix)"

text \<open>\<^verbatim>\<open>workerMgr.sendJob(job, activeSides[s])\<close>.\<close>

definition send_side :: "sys_write \<Rightarrow> send_job \<Rightarrow> side \<Rightarrow> server \<Rightarrow> server res" where
  "send_side wr job t s =
     send_to wr job (get 0 t (activeSides s)) (s\<lparr>activeSides := touch 0 t (activeSides s)\<rparr>)"

section \<open>Rounds\<close>

text \<open>
  The loops over \<^verbatim>\<open>hands\<close> look at its entries, which are those of the four sides; an empty \<^verbatim>\<open>filter\<close> throws
  when it is called on a card.
\<close>

definition furtherMovesNeeded :: "server \<Rightarrow> bool res" where
  "furtherMovesNeeded s =
     (let found = (\<lambda>f. \<exists>t \<in> set sides. \<exists>c \<in> set (get [] t (hands s)). f c) in
      case roundMode s of
        TRICK_PENALTY \<Rightarrow> Inr (\<exists>t \<in> set sides. get [] t (hands s) \<noteq> [])
      | SEVENTH_LAST_TRICK_PENALTY \<Rightarrow> Inr (\<exists>t \<in> set sides. get [] t (hands s) \<noteq> [])
      | EVERYTHING \<Rightarrow> Inr (\<exists>t \<in> set sides. get [] t (hands s) \<noteq> [])
      | HEART_PENALTY \<Rightarrow> Inr (found (\<lambda>c. getColor c = COLOR_H))
      | QUEEN_PENALTY \<Rightarrow> Inr (found (\<lambda>c. getValue c = ''Q''))
      | KING_JACK_PENALTY \<Rightarrow> Inr (found (\<lambda>c. getValue c = ''K'' \<or> getValue c = ''J''))
      | HEART_KING_PENALTY \<Rightarrow> Inr (found (\<lambda>c. getValue c = ''K'' \<and> getColor c = COLOR_H))
      | Round_raw i \<Rightarrow>
          if \<exists>t \<in> set sides. get [] t (hands s) \<noteq> [] then Inl Bad_function_call
          else Inr False)"

definition updatePenalties :: "server \<Rightarrow> server" where
  "updatePenalties s =
     fold (\<lambda>t s. s\<lparr>penalties := (penalties s)(t \<mapsto> get 0 t (penalties s) + get 0 t (penaltiesRound s)),
                  penaltiesRound := touch 0 t (penaltiesRound s)\<rparr>) sides s"

definition clearTmpPenalties :: "server \<Rightarrow> server" where
  "clearTmpPenalties s = fold (\<lambda>t s. s\<lparr>penaltiesRound := (penaltiesRound s)(t \<mapsto> 0)\<rparr>) sides s"

definition prepareRound :: "server \<Rightarrow> server res" where
  "prepareRound s =
     (if roundNumber s < length (gameScenario s) then
        case gameScenario s ! roundNumber s of
          (mode, initState, starting) \<Rightarrow>
            Inr (s\<lparr>roundMode := mode, hands := initState, nextMove := starting, trickNo := 1,
                   takenInRound := []\<rparr>)
      else Inl Undefined)"

text \<open>The four loops that send a message to every side.\<close>

definition send_sides :: "sys_write \<Rightarrow> send_job \<Rightarrow> server \<Rightarrow> server res" where
  "send_sides wr job s = foldE (send_side wr job) sides s"

definition send_scores :: "sys_write \<Rightarrow> send_job \<Rightarrow> send_job \<Rightarrow> server \<Rightarrow> server res" where
  "send_scores wr msgScore msgTotal s =
     foldE (\<lambda>t s. bindE (send_side wr msgScore t s) (send_side wr msgTotal t)) sides s"

definition send_deals :: "sys_write \<Rightarrow> server \<Rightarrow> server res" where
  "send_deals wr s =
     foldE (\<lambda>t s. send_side wr (SendDealJob (roundMode s) (nextMove s) (get [] t (hands s))) t
                    (s\<lparr>hands := touch [] t (hands s)\<rparr>)) sides s"

section \<open>A card is played\<close>

definition send_wrong :: "sys_write \<Rightarrow> side \<Rightarrow> server \<Rightarrow> (bool \<times> server) res" where
  "send_wrong wr side s =
     bindE (send_side wr (SendJobWrong (trickNo s)) side s) (\<lambda>s. Inr (True, s))"

text \<open>
  The parts of \<^verbatim>\<open>playerTricked\<close> from the inside out. The flag \<open>end_round\<close> and \<open>end_trick\<close> return
  is true if the function has returned after \<^verbatim>\<open>finalize\<close>.
\<close>

definition end_round :: "sys_write \<Rightarrow> server \<Rightarrow> (bool \<times> server) res" where
  "end_round wr s =
     (let s1 = updatePenalties s;
          msgScore = SendJobScore (penaltiesRound s1);
          msgTotal = SendJobTotal (penalties s1)
      in bindE (send_scores wr msgScore msgTotal s1) (\<lambda>s2.
         let s3 = clearTmpPenalties s2; s4 = s3\<lparr>roundNumber := roundNumber s3 + 1\<rparr> in
         if roundNumber s4 = length (gameScenario s4) then
           bindE (finalize wr s4) (\<lambda>s. Inr (True, s))
         else
           bindE (prepareRound s4) (\<lambda>s5.
           bindE (send_deals wr (s5\<lparr>lastDeal := hands s5\<rparr>)) (\<lambda>s6.
           Inr (False, s6)))))"

definition end_trick :: "sys_write \<Rightarrow> server \<Rightarrow> (bool \<times> server) res" where
  "end_trick wr s =
     bindE (whoTakes (nextMove s) (table s) (roundMode s) (trickNo s)) (\<lambda>(taker, pen).
     let s1 = s\<lparr>nextMove := taker,
                penaltiesRound := (penaltiesRound s)(taker \<mapsto> get 0 taker (penaltiesRound s) + pen)\<rparr>;
         msgTaken = SendJobTaken (table s1) taker (int (trickNo s1));
         s2 = s1\<lparr>trickNo := trickNo s1 + 1, table := []\<rparr>
     in bindE (send_sides wr msgTaken s2) (\<lambda>s3.
        let s4 = s3\<lparr>takenInRound := takenInRound s3 @ [msgTaken]\<rparr> in
        if trickNo s4 = TRICKS_PER_ROUND + 1 then end_round wr s4 else Inr (False, s4)))"

definition send_trick :: "sys_write \<Rightarrow> server \<Rightarrow> server res" where
  "send_trick wr s = send_side wr (SendJobTrick (table s) (trickNo s)) (nextMove s) s"

definition play_card :: "sys_write \<Rightarrow> card \<Rightarrow> side \<Rightarrow> server \<Rightarrow> (bool \<times> server) res" where
  "play_card wr c side s =
     (let s1 = s\<lparr>table := table s @ [c],
                 hands := (hands s)(side \<mapsto> rmCardIfPresent (get [] side (hands s)) c)\<rparr>
      in bindE (nxtSide (nextMove s1)) (\<lambda>nm.
         let s2 = s1\<lparr>nextMove := nm\<rparr> in
         bindE (if length (table s2) = 4 then end_trick wr s2 else Inr (False, s2)) (\<lambda>(returned, s3).
         if returned then Inr (True, s3)
         else bindE (send_trick wr s3) (\<lambda>s4. Inr (True, s4)))))"

definition trick_move :: "sys_write \<Rightarrow> nat \<Rightarrow> card \<Rightarrow> side \<Rightarrow> server \<Rightarrow> (bool \<times> server) res" where
  "trick_move wr n c side s =
     (if n \<noteq> trickNo s \<or> nextMove s \<noteq> side then send_wrong wr side s
      else bindE (isMoveLegal side c (hands s) (table s)) (\<lambda>legal.
           if \<not> legal then send_wrong wr side s else play_card wr c side s))"

definition playerTricked :: "sys_write \<Rightarrow> nat \<Rightarrow> card \<Rightarrow> int \<Rightarrow> server \<Rightarrow> (bool \<times> server) res" where
  "playerTricked wr n c ix = with_game (\<lambda>s.
     if playersConnected s < 4 then Inr (False, s)
     else bindE (getRole ix (workerMgr s)) (\<lambda>role.
       case role of
         SERVING_UNKNOWN \<Rightarrow>
           bindE (mgr_op wr (\<lambda>cb. setRole ix CLEANUP_UNKNOWN) s) (\<lambda>s.
           bindE (mgr_op wr (\<lambda>cb. sendKill wr cb ix False) s) (\<lambda>s. Inr (True, s)))
       | SERVING_ACTIVE \<Rightarrow> bindE (map_at (workerToSide s) ix) (\<lambda>side. trick_move wr n c side s)
       | SERVING_PROXY \<Rightarrow>
           bindE (mgr_op wr (\<lambda>cb. setRole ix CLEANUP_UNKNOWN) s) (\<lambda>s.
           bindE (finalize wr s) (\<lambda>s. Inr (True, s)))
       | CLEANUP \<Rightarrow> bindE (map_at (zombieWorkerToSide s) ix) (\<lambda>side. trick_move wr n c side s)
       | CLEANUP_UNKNOWN \<Rightarrow> Inr (True, s)
       | SHUTDOWN \<Rightarrow> Inr (True, s)))"

section \<open>A player introduces himself\<close>

text \<open>\<open>ord\<close> is the iteration order of the map \<^verbatim>\<open>activeSides\<close>.\<close>

definition busy_list :: "side list \<Rightarrow> (side \<rightharpoonup> int) \<Rightarrow> side list" where
  "busy_list ord act = filter (\<lambda>t. case act t of None \<Rightarrow> False | Some ix \<Rightarrow> ix \<noteq> - 1) ord"

definition accept_player :: "sys_write \<Rightarrow> side \<Rightarrow> int \<Rightarrow> server \<Rightarrow> server res" where
  "accept_player wr side ix s =
     bindE (mgr_op wr (\<lambda>cb. setRole ix SERVING_ACTIVE)
        (s\<lparr>activeSides := (activeSides s)(side \<mapsto> ix),
           workerToSide := (workerToSide s)(ix \<mapsto> side)\<rparr>)) (\<lambda>s.
     let s1 = s\<lparr>playersConnected := playersConnected s + 1\<rparr> in
     if playersConnected s1 = 4 \<and> lastDeal s1 = Map.empty then
       bindE (send_deals wr (s1\<lparr>lastDeal := hands s1\<rparr>)) (send_trick wr)
     else if lastDeal s1 \<noteq> Map.empty then
       bindE (send_side wr (SendDealJob (roundMode s1) (nextMove s1) (get [] side (lastDeal s1))) side
                (s1\<lparr>lastDeal := touch [] side (lastDeal s1)\<rparr>)) (\<lambda>s2.
       bindE (foldE (\<lambda>msg. send_to wr msg ix) (takenInRound s2) s2) (\<lambda>s3.
       if playersConnected s3 = 4 then
         bindE (mgr_op wr (\<lambda>cb. signalRole wr cb SERVING_ACTIVE) s3) (\<lambda>s3.
         bindE (mgr_op wr (\<lambda>cb. signalRole wr cb CLEANUP_UNKNOWN) s3) (\<lambda>s3.
         bindE (mgr_op wr (\<lambda>cb. signalRole wr cb SERVING_UNKNOWN) s3) (send_trick wr)))
       else Inr s3))
     else Inr s1)"

definition playerIntro ::
  "sys_write \<Rightarrow> side list \<Rightarrow> side \<Rightarrow> int \<Rightarrow> server \<Rightarrow> (bool \<times> server) res" where
  "playerIntro wr ord side ix = with_game (\<lambda>s.
     bindE (getRole ix (workerMgr s)) (\<lambda>role.
     if role \<noteq> SERVING_UNKNOWN then
       if playersConnected s < 4 then Inr (False, s)
       else bindE (mgr_op wr (\<lambda>cb. sendKill wr cb ix False) s) (\<lambda>s.
            bindE (mgr_op wr (\<lambda>cb. setRole ix CLEANUP) s) (\<lambda>s. Inr (True, s)))
     else
       let a = get 0 side (activeSides s); s = s\<lparr>activeSides := touch 0 side (activeSides s)\<rparr> in
       if a = - 1 then bindE (accept_player wr side ix s) (\<lambda>s. Inr (True, s))
       else bindE (mgr_op wr (\<lambda>cb. setRole ix CLEANUP_UNKNOWN) s) (\<lambda>s.
            bindE (send_to wr (SendJobBusy (busy_list ord (activeSides s))) ix s) (\<lambda>s.
            Inr (True, s)))))"

section \<open>Connections\<close>

text \<open>
  What the system calls of \<^verbatim>\<open>makeTCPSock\<close> yield: the descriptor of \<^verbatim>\<open>socket\<close>, whether each of
  the others succeeds, and the port and host in the structure \<^verbatim>\<open>getsockname\<close> fills.
\<close>

record tcp_env =
  socket_fd :: int
  sockopt1_ok :: bool
  sockopt2_ok :: bool
  bind_ok :: bool
  sockname :: "net_address option"
  listen_ok :: bool

definition makeTCPSock :: "tcp_env \<Rightarrow> server \<Rightarrow> (int \<times> server) res" where
  "makeTCPSock env s =
     (if \<not> sockopt1_ok env then Inl (Runtime_error ''setsockopt'')
      else if \<not> sockopt2_ok env then Inl (Runtime_error ''setsockopt'')
      else if socket_fd env < 0 then Inl (Runtime_error ''socket'')
      else if \<not> bind_ok env then Inl (Runtime_error ''bind'')
      else bindE (getAddrStruct (\<lambda>fam. sockname env) AF_INET6) (\<lambda>a.
           if \<not> listen_ok env then Inl (Runtime_error ''listen'')
           else Inr (socket_fd env, s\<lparr>sOwnAddr := a\<rparr>)))"

definition forwardConnection ::
  "sys_write \<Rightarrow> bool \<Rightarrow> (errno + int \<times> int) \<Rightarrow> int \<Rightarrow> int \<Rightarrow> net_address \<Rightarrow> server \<Rightarrow> (unit \<times> server) res"
where
  "forwardConnection wr sockopt_ok pipe_res now fd connAddr = with_game (\<lambda>s.
     bindE (setTimeout sockopt_ok) (\<lambda>_.
     bindE (mgr_op wr (\<lambda>cb. spawnNewWorker cb pipe_res SERVING_UNKNOWN
              (\<lambda>rd ix. mk_handler rd ix fd connAddr (sOwnAddr s) (sTimeout s) now)) s) (\<lambda>s.
     Inr ((), s))))"

text \<open>\<^verbatim>\<open>run\<close> up to the loop of \<^verbatim>\<open>waitForClearing\<close>, after which it returns \<^verbatim>\<open>exitCode\<close>.\<close>

definition run_start ::
  "sys_write \<Rightarrow> tcp_env \<Rightarrow> (errno + int \<times> int) \<Rightarrow> int \<Rightarrow> server \<Rightarrow> server res" where
  "run_start wr env pipe_res now s =
     bindE (prepareRound s) (\<lambda>s.
     bindE (makeTCPSock env s) (\<lambda>(fd, s).
     mgr_op wr (\<lambda>cb. spawnNewWorker cb pipe_res SERVING_PROXY
                       (\<lambda>rd ix. mk_connect rd ix fd (sOwnAddr s) now)) s))"

text \<open>
  A turn of that loop, and with its last turn the end of \<^verbatim>\<open>run\<close>: the exit code. \<open>None\<close> while the cleaner
  is blocked.
\<close>

definition run_end :: "server \<Rightarrow> (int option \<times> server) res option" where
  "run_end s =
     (case waitForClearing (workerMgr s) of
        None \<Rightarrow> None
      | Some r \<Rightarrow> Some (bindE r (\<lambda>(quit, m).
          Inr (if quit then Some (exitCode s) else None, s\<lparr>workerMgr := clear_join m\<rparr>))))"

section \<open>The other callbacks\<close>

fun exit_errs :: "sys_write \<Rightarrow> err_info list \<Rightarrow> server \<Rightarrow> (bool \<times> server) res" where
  "exit_errs wr [] s = Inr (False, s)"
| "exit_errs wr (err # es) s =
     bindE (handleSysErr wr err True s) (\<lambda>(stop, s). if stop then Inr (True, s) else exit_errs wr es s)"

text \<open>The two orders in which a worker is erased and marked.\<close>

definition erase_mark :: "sys_write \<Rightarrow> int \<Rightarrow> server \<Rightarrow> server res" where
  "erase_mark wr ix s =
     bindE (mgr_op wr (\<lambda>cb. eraseWorker ix) s) (mgr_op wr (\<lambda>cb. setRole ix SHUTDOWN))"

definition mark_erase :: "sys_write \<Rightarrow> int \<Rightarrow> server \<Rightarrow> server res" where
  "mark_erase wr ix s =
     bindE (mgr_op wr (\<lambda>cb. setRole ix SHUTDOWN) s) (mgr_op wr (\<lambda>cb. eraseWorker ix))"

definition exit_switch ::
  "sys_write \<Rightarrow> int \<Rightarrow> bool \<Rightarrow> worker_status \<Rightarrow> server \<Rightarrow> (bool \<times> server) res" where
  "exit_switch wr ix has_work role s =
     (case role of
        SERVING_UNKNOWN \<Rightarrow> bindE (erase_mark wr ix s) (\<lambda>s. Inr (True, s))
      | SERVING_ACTIVE \<Rightarrow>
          bindE (map_at (workerToSide s) ix) (\<lambda>t.
          let s1 = s\<lparr>playersConnected := playersConnected s - 1,
                     activeSides := (activeSides s)(t \<mapsto> - 1),
                     zombieWorkerToSide := (zombieWorkerToSide s)(ix \<mapsto> t),
                     workerToSide := (workerToSide s)(ix := None)\<rparr>
          in if has_work \<or> (playersConnected s1 < 3 \<and> \<not> exiting s1)
             then bindE (mgr_op wr (\<lambda>cb. setRole ix CLEANUP) s1) (\<lambda>s. Inr (False, s))
             else bindE (mark_erase wr ix s1) (\<lambda>s. Inr (True, s)))
      | CLEANUP \<Rightarrow>
          if playersConnected s = 4 \<and> \<not> has_work
          then bindE (erase_mark wr ix s) (\<lambda>s. Inr (True, s)) else Inr (False, s)
      | SHUTDOWN \<Rightarrow> Inr (True, s)
      | SERVING_PROXY \<Rightarrow>
          bindE (mark_erase wr ix s) (\<lambda>s. bindE (finalize wr s) (\<lambda>s. Inr (True, s)))
      | CLEANUP_UNKNOWN \<Rightarrow>
          if playersConnected s = 4 \<and> \<not> has_work
          then bindE (erase_mark wr ix s) (\<lambda>s. Inr (True, s)) else Inr (False, s))"

definition grandExitCallback ::
  "sys_write \<Rightarrow> err_info list \<Rightarrow> int \<Rightarrow> bool \<Rightarrow> server \<Rightarrow> (bool \<times> server) res" where
  "grandExitCallback wr errArr ix has_work = with_game (\<lambda>s.
     bindE (exit_errs wr errArr s) (\<lambda>(stop, s).
     if stop then Inr (True, s)
     else bindE (getRole ix (workerMgr s)) (\<lambda>role. exit_switch wr ix has_work role s)))"

text \<open>
  \<open>invokable\<close> is a closure of a worker: it changes what it captures, \<open>x\<close>, and nothing of the
  server.
\<close>

definition execMutexed :: "('w \<Rightarrow> 'w) \<Rightarrow> 'w \<Rightarrow> server \<Rightarrow> ((bool \<times> 'w) \<times> server) res" where
  "execMutexed invokable x = with_game (\<lambda>s.
     if playersConnected s < 4 \<and> \<not> exiting s then Inr ((False, x), s)
     else Inr ((True, invokable x), s))"

definition handleTimeout :: "sys_write \<Rightarrow> int \<Rightarrow> server \<Rightarrow> (unit \<times> server) res" where
  "handleTimeout wr ix = with_game (\<lambda>s.
     if exiting s then Inr ((), s)
     else bindE (getRole ix (workerMgr s)) (\<lambda>role.
       if role = SERVING_UNKNOWN then
         bindE (mgr_op wr (\<lambda>cb. sendKill wr cb ix False) s) (\<lambda>s. Inr ((), s))
       else bindE (getRole ix (workerMgr s)) (\<lambda>role.
         if role = SERVING_ACTIVE then
           bindE (map_at (workerToSide s) ix) (\<lambda>t.
             if nextMove s \<noteq> t then Inr ((), s)
             else if playersConnected s < 4 then Inr ((), s)
             else bindE (send_to wr (SendJobTrick (table s) (trickNo s)) ix s) (\<lambda>s. Inr ((), s)))
         else Inr ((), s))))"

definition handleWrongMessage :: "sys_write \<Rightarrow> int \<Rightarrow> server \<Rightarrow> (bool \<times> server) res" where
  "handleWrongMessage wr ix = with_game (\<lambda>s.
     if playersConnected s < 4 \<and> \<not> exiting s then Inr (False, s)
     else bindE (mgr_op wr (\<lambda>cb. sendKill wr cb ix False) s) (\<lambda>s. Inr (True, s)))"

section \<open>The manager's callback deadlocks\<close>

lemma mgr_cb_locked: "gameStateMutex s \<Longrightarrow> mgr_cb wr s info m = locked_cb info m"
  by (simp add: mgr_cb_def locked_cb_def handleSysErr_def with_game_def)

lemma mgr_cb_unlocked:
  assumes "\<not> gameStateMutex s" "\<not> exiting s" "errType info = IO_ERR_INTERNAL" "threadsStructuresMutex m"
  shows "mgr_cb wr s info m = Inl Self_deadlock"
  using assms
  by (simp add: mgr_cb_def handleSysErr_def with_game_def sys_err_body_def finalize_def Let_def
      releaseCleaner_def with_threads_def)

end
