(* ===== verification/Role_Frames.thy ===== *)
theory Role_Frames
  imports Server
begin

text \<open>
  What the callbacks do to the roles of the workers: none is forgotten, and only the exit callback
  gives the role SHUTDOWN, to the worker that calls it.
\<close>

section \<open>Keeping the roles\<close>

definition keeps_roles :: "mgr \<Rightarrow> mgr \<Rightarrow> bool" where
  "keeps_roles m m' \<longleftrightarrow>
     (\<forall>ix r. roles m ix = Some r \<longrightarrow> (\<exists>r'. roles m' ix = Some r' \<and> (r' = SHUTDOWN \<longrightarrow> r = SHUTDOWN)))"

lemma keeps_roles_refl: "roles m' = roles m \<Longrightarrow> keeps_roles m m'"
  by (simp add: keeps_roles_def)

lemma keeps_roles_trans [trans]: "keeps_roles m m' \<Longrightarrow> keeps_roles m' m'' \<Longrightarrow> keeps_roles m m''"
  unfolding keeps_roles_def by metis

lemma foldE_keeps:
  assumes "foldE f xs s = Inr s'" and "\<And>x s s'. f x s = Inr s' \<Longrightarrow> R s s'"
    and "\<And>s. R s s" and "\<And>s u v. R s u \<Longrightarrow> R u v \<Longrightarrow> R s v"
  shows "R s s'"
  using assms(1)
proof (induction xs arbitrary: s)
  case (Cons x xs)
  then obtain u where u: "f x s = Inr u" "foldE f xs u = Inr s'" by auto
  from assms(2) [OF u(1)] Cons.IH [OF u(2)] show ?case by (rule assms(4))
qed (use assms(3) in simp)

section \<open>The manager\<close>

lemma with_threads_keeps:
  assumes "with_threads f m = Inr m'" and "\<And>u u'. f u = Inr u' \<Longrightarrow> keeps_roles u u'"
  shows "keeps_roles m m'"
  using assms by (auto simp: with_threads_def keeps_roles_def split: if_splits)

lemma write_keeps: "write_pipe no_write_error cb ix m = Inr m' \<Longrightarrow> keeps_roles m m'"
  by (auto simp: write_pipe_def no_write_error_def keeps_roles_def Let_def)

lemma signal_keeps: "signal no_write_error cb ix b m = Inr m' \<Longrightarrow> keeps_roles m m'"
  by (auto simp: signal_def write_keeps elim: with_threads_keeps split: if_splits)

lemma on_worker_keeps: "on_worker ix f m = Inr m' \<Longrightarrow> keeps_roles m m'"
  by (auto simp: on_worker_def keeps_roles_def)

lemma poke_keeps: "bindE (on_worker ix f m) (signal no_write_error cb ix True) = Inr m' \<Longrightarrow> keeps_roles m m'"
  using on_worker_keeps signal_keeps keeps_roles_trans by fastforce

lemma sendKill_keeps: "sendKill no_write_error cb ix b m = Inr m' \<Longrightarrow> keeps_roles m m'"
  by (auto simp: sendKill_def simp del: bindE_eq_Inr split: if_splits
      intro: poke_keeps elim: with_threads_keeps)

lemma sendJob_keeps: "sendJob no_write_error cb j ix m = Inr m' \<Longrightarrow> keeps_roles m m'"
  by (auto simp: sendJob_def simp del: bindE_eq_Inr intro: poke_keeps elim: with_threads_keeps)

lemma finish_keeps: "finish no_write_error cb m = Inr m' \<Longrightarrow> keeps_roles m m'"
  unfolding finish_def
  by (erule with_threads_keeps, erule foldE_keeps)
    (auto intro: keeps_roles_refl sendKill_keeps keeps_roles_trans split: if_splits)

lemma signalRole_keeps: "signalRole no_write_error cb r m = Inr m' \<Longrightarrow> keeps_roles m m'"
  unfolding signalRole_def
  by (erule with_threads_keeps, erule foldE_keeps) (auto intro: keeps_roles_refl signal_keeps keeps_roles_trans)

lemma erase_keeps: "eraseWorker ix m = Inr m' \<Longrightarrow> keeps_roles m m'"
  unfolding eraseWorker_def by (erule with_threads_keeps) (auto intro!: keeps_roles_refl)

lemma release_keeps: "releaseCleaner m = Inr m' \<Longrightarrow> keeps_roles m m'"
  unfolding releaseCleaner_def by (erule with_threads_keeps) (auto intro!: keeps_roles_refl)

lemma setRole_keeps: "setRole ix r m = Inr m' \<Longrightarrow> r \<noteq> SHUTDOWN \<Longrightarrow> keeps_roles m m'"
  unfolding setRole_def by (erule with_threads_keeps) (auto simp: keeps_roles_def split: if_splits)

lemma spawn_keeps:
  "spawnNewWorker cb (Inr fds) r mk m = Inr m' \<Longrightarrow> r \<noteq> SHUTDOWN \<Longrightarrow> keeps_roles m m'"
  unfolding spawnNewWorker_def
  by (erule with_threads_keeps) (auto simp: keeps_roles_def Let_def split: prod.splits)

lemmas mgr_keeps = sendKill_keeps sendJob_keeps finish_keeps signalRole_keeps erase_keeps release_keeps
  setRole_keeps spawn_keeps

section \<open>The server\<close>

definition kept :: "server \<Rightarrow> server \<Rightarrow> bool" where
  "kept s s' \<longleftrightarrow> keeps_roles (workerMgr s) (workerMgr s')"

lemma kept_refl: "workerMgr s' = workerMgr s \<Longrightarrow> kept s s'"
  by (simp add: kept_def keeps_roles_refl)

lemma kept_trans [trans]: "kept s s' \<Longrightarrow> kept s' s'' \<Longrightarrow> kept s s''"
  unfolding kept_def by (rule keeps_roles_trans)

lemma kept_cong: "kept u v \<Longrightarrow> workerMgr u = workerMgr s \<Longrightarrow> workerMgr v = workerMgr s' \<Longrightarrow> kept s s'"
  by (simp add: kept_def)

lemma mgr_op_kept:
  assumes "mgr_op wr f s = Inr s'" and "\<And>cb m m'. f cb m = Inr m' \<Longrightarrow> keeps_roles m m'"
  shows "kept s s'"
  using assms by (auto simp: mgr_op_def kept_def)

lemma finalize_kept: "finalize no_write_error s = Inr s' \<Longrightarrow> kept s s'"
  using release_keeps finish_keeps keeps_roles_trans
  by (auto simp: finalize_def kept_def Let_def keeps_roles_refl split: if_splits) fastforce

lemma send_to_kept: "send_to no_write_error j ix s = Inr s' \<Longrightarrow> kept s s'"
  unfolding send_to_def by (erule mgr_op_kept) (rule sendJob_keeps)

lemma send_side_kept: "send_side no_write_error j t s = Inr s' \<Longrightarrow> kept s s'"
  unfolding send_side_def by (drule send_to_kept) (simp add: kept_def)

lemma foldE_kept:
  assumes "foldE f xs s = Inr s'" and "\<And>x s s'. f x s = Inr s' \<Longrightarrow> kept s s'"
  shows "kept s s'"
  using foldE_keeps [OF assms(1), of kept] assms(2) kept_refl kept_trans by blast

lemma send_loops_kept:
  "send_sides no_write_error j s = Inr s' \<Longrightarrow> kept s s'"
  "send_scores no_write_error j k s = Inr s' \<Longrightarrow> kept s s'"
  "send_deals no_write_error s = Inr s' \<Longrightarrow> kept s s'"
  "send_trick no_write_error s = Inr s' \<Longrightarrow> kept s s'"
proof -
  show "kept s s'" if "send_sides no_write_error j s = Inr s'"
    using that unfolding send_sides_def by (rule foldE_kept) (rule send_side_kept)
  show "kept s s'" if "send_scores no_write_error j k s = Inr s'"
    using that unfolding send_scores_def by (rule foldE_kept) (auto dest!: send_side_kept intro: kept_trans)
  show "kept s s'" if "send_deals no_write_error s = Inr s'"
    using that unfolding send_deals_def
    by (rule foldE_kept) (auto dest!: send_side_kept simp: kept_def)
  show "kept s s'" if "send_trick no_write_error s = Inr s'"
    using that unfolding send_trick_def by (rule send_side_kept)
qed

section \<open>The callbacks\<close>

lemma with_game_kept:
  assumes "with_game f s = Inr (b, s')" and "\<And>u b u'. f u = Inr (b, u') \<Longrightarrow> kept u u'"
  shows "kept s s'"
  using assms by (auto simp: with_game_def kept_def split: if_splits) fastforce

lemma prepareRound_kept: "prepareRound s = Inr s' \<Longrightarrow> kept s s'"
  by (auto simp: prepareRound_def split: if_splits prod.splits intro: kept_refl)

lemma penalties_mgr [simp]:
  "workerMgr (updatePenalties s) = workerMgr s" "workerMgr (clearTmpPenalties s) = workerMgr s"
  by (simp_all add: updatePenalties_def clearTmpPenalties_def sides_def)

lemma end_round_kept:
  assumes "end_round no_write_error s = Inr (b, s')"
  shows "kept s s'"
proof -
  let ?s1 = "updatePenalties s"
  obtain s2 where s2: "send_scores no_write_error (SendJobScore (penaltiesRound ?s1)) (SendJobTotal (penalties ?s1)) ?s1 = Inr s2"
    using assms by (auto simp: end_round_def Let_def)
  let ?s4 = "(clearTmpPenalties s2)\<lparr>roundNumber := roundNumber (clearTmpPenalties s2) + 1\<rparr>"
  have "kept ?s1 s2" using send_loops_kept(2) [OF s2] .
  then have k: "kept s ?s4" by (simp add: kept_def)
  show ?thesis
  proof (cases "roundNumber ?s4 = length (gameScenario ?s4)")
    case True
    with assms s2 have "finalize no_write_error ?s4 = Inr s'" by (auto simp: end_round_def Let_def)
    with k finalize_kept show ?thesis by (blast intro: kept_trans)
  next
    case False
    with assms s2 obtain s5 where "prepareRound ?s4 = Inr s5"
      "send_deals no_write_error (s5\<lparr>lastDeal := hands s5\<rparr>) = Inr s'" by (auto simp: end_round_def Let_def)
    with prepareRound_kept send_loops_kept(3) have "kept ?s4 s5" "kept (s5\<lparr>lastDeal := hands s5\<rparr>) s'" by blast+
    with k show ?thesis by (auto simp: kept_def intro: keeps_roles_trans)
  qed
qed

lemma end_trick_kept: "end_trick no_write_error s = Inr (b, s') \<Longrightarrow> kept s s'"
  by (auto simp: end_trick_def Let_def kept_def split: if_splits
      dest!: send_loops_kept(1) end_round_kept intro: keeps_roles_trans)

lemma play_card_kept: "play_card no_write_error c t s = Inr (b, s') \<Longrightarrow> kept s s'"
  by (auto simp: play_card_def Let_def kept_def split: if_splits
      dest!: send_loops_kept(4) end_trick_kept intro: keeps_roles_trans)

lemma trick_move_kept: "trick_move no_write_error n c t s = Inr (b, s') \<Longrightarrow> kept s s'"
  by (auto simp: trick_move_def send_wrong_def split: if_splits dest: send_side_kept play_card_kept)

lemma op_kept:
  "mgr_op no_write_error (\<lambda>cb. setRole ix r) s = Inr s' \<Longrightarrow> r \<noteq> SHUTDOWN \<Longrightarrow> kept s s'"
  "mgr_op no_write_error (\<lambda>cb. sendKill no_write_error cb ix b) s = Inr s' \<Longrightarrow> kept s s'"
  "mgr_op no_write_error (\<lambda>cb. signalRole no_write_error cb r) s = Inr s' \<Longrightarrow> kept s s'"
  "mgr_op no_write_error (\<lambda>cb. spawnNewWorker cb (Inr fds) r mk) s = Inr s' \<Longrightarrow> r \<noteq> SHUTDOWN \<Longrightarrow> kept s s'"
  by (auto elim!: mgr_op_kept intro: mgr_keeps)

lemma playerTricked_kept: "playerTricked no_write_error n c ix s = Inr (b, s') \<Longrightarrow> kept s s'"
  unfolding playerTricked_def
  by (erule with_game_kept)
    (auto split: if_splits worker_status.splits dest!: op_kept(1,2) finalize_kept trick_move_kept
      intro: kept_refl kept_trans worker_status.exhaust)

lemma accept_player_kept:
  assumes "accept_player no_write_error t ix s = Inr s'"
  shows "kept s s'"
proof -
  obtain s1 where s1: "mgr_op no_write_error (\<lambda>cb. setRole ix SERVING_ACTIVE)
      (s\<lparr>activeSides := (activeSides s)(t \<mapsto> ix), workerToSide := (workerToSide s)(ix \<mapsto> t)\<rparr>) = Inr s1"
    using assms by (auto simp: accept_player_def)
  from op_kept(1) [OF this] have k1: "kept s s1" by (simp add: kept_def)
  have jobs: "kept u v" if "foldE (\<lambda>msg. send_to no_write_error msg ix) js u = Inr v" for js u v
    using that by (rule foldE_kept) (rule send_to_kept)
  have "kept s1 s'"
    using assms s1
    by (auto simp: accept_player_def Let_def kept_def split: if_splits
        dest!: send_loops_kept(3,4) send_side_kept jobs op_kept(3) intro: keeps_roles_refl)
      (meson keeps_roles_trans)+
  with k1 show ?thesis by (rule kept_trans)
qed

lemma playerIntro_kept: "playerIntro no_write_error ord t ix s = Inr (b, s') \<Longrightarrow> kept s s'"
  unfolding playerIntro_def
  by (erule with_game_kept)
    (auto simp: Let_def kept_def split: if_splits dest!: op_kept(1,2) accept_player_kept send_to_kept
      intro: keeps_roles_refl keeps_roles_trans)

lemma handleTimeout_kept: "handleTimeout no_write_error ix s = Inr (u, s') \<Longrightarrow> kept s s'"
  unfolding handleTimeout_def
  by (erule with_game_kept)
    (auto split: if_splits dest!: op_kept(2) send_to_kept intro: kept_refl)

lemma handleWrongMessage_kept: "handleWrongMessage no_write_error ix s = Inr (b, s') \<Longrightarrow> kept s s'"
  unfolding handleWrongMessage_def
  by (erule with_game_kept) (auto split: if_splits dest!: op_kept(2) intro: kept_refl)

lemma forwardConnection_kept: "forwardConnection no_write_error ok (Inr fds) now fd a s = Inr (u, s') \<Longrightarrow> kept s s'"
  unfolding forwardConnection_def
  by (erule with_game_kept) (auto split: if_splits dest!: op_kept(4) intro: kept_refl)

lemma execMutexed_kept: "execMutexed f x s = Inr (r, s') \<Longrightarrow> kept s s'"
  unfolding execMutexed_def by (erule with_game_kept) (auto split: if_splits intro: kept_refl)

section \<open>The exit callback\<close>

definition knows :: "server \<Rightarrow> server \<Rightarrow> bool" where
  "knows s s' \<longleftrightarrow> dom (roles (workerMgr s)) \<subseteq> dom (roles (workerMgr s'))"

lemma kept_knows: "kept s s' \<Longrightarrow> knows s s'"
  by (auto simp: kept_def keeps_roles_def knows_def)

lemma knows_trans: "knows s s' \<Longrightarrow> knows s' s'' \<Longrightarrow> knows s s''"
  by (auto simp: knows_def)

lemma exit_errs_kept: "exit_errs no_write_error es s = Inr (b, s') \<Longrightarrow> kept s s'"
proof (induction es arbitrary: s)
  case (Cons e es)
  have sys: "kept u u'" if "handleSysErr no_write_error e True u = Inr (c, u')" for u u' c
    using that finalize_kept [of "(u\<lparr>sysLog := sysLog u @ [e]\<rparr>)\<lparr>exitCode := 1\<rparr>"]
    by (auto simp: handleSysErr_def sys_err_body_def Let_def kept_def keeps_roles_refl split: if_splits)
  from Cons show ?case by (auto split: if_splits dest!: sys intro: kept_trans)
qed (simp add: kept_refl)

lemma erase_knows:
  "mgr_op wr (\<lambda>cb. eraseWorker ix) s = Inr s' \<Longrightarrow> knows s s'"
  "mgr_op wr (\<lambda>cb. setRole ix r) s = Inr s' \<Longrightarrow> knows s s'"
  by (auto simp: mgr_op_def knows_def eraseWorker_def setRole_def with_threads_def split: if_splits)

lemma mark_knows:
  "erase_mark wr ix s = Inr s' \<Longrightarrow> knows s s'"
  "mark_erase wr ix s = Inr s' \<Longrightarrow> knows s s'"
  by (auto simp: erase_mark_def mark_erase_def intro: knows_trans dest!: erase_knows)

lemma exit_switch_kept:
  assumes "exit_switch no_write_error ix hw role s = Inr (b, s')"
  shows "knows s s' \<and> (\<not> b \<longrightarrow> kept s s')"
proof (cases role)
  case SERVING_PROXY
  with assms obtain u where "mark_erase no_write_error ix s = Inr u" "finalize no_write_error u = Inr s'" "b"
    by (auto simp: exit_switch_def)
  with mark_knows(2) kept_knows [OF finalize_kept] show ?thesis by (blast intro: knows_trans)
next
  case SERVING_ACTIVE
  with assms show ?thesis
    by (auto simp: exit_switch_def Let_def kept_def knows_def keeps_roles_def split: if_splits
        dest!: op_kept(1) mark_knows(2)) fastforce+
qed (use assms in \<open>auto simp: exit_switch_def kept_refl kept_knows split: if_splits dest!: mark_knows(1)\<close>)

text \<open>The exit callback logs the errors, and goes on to the switch unless one of them is internal.\<close>

lemma exit_parts:
  assumes "grandExitCallback no_write_error es ix hw s = Inr (b, s')"
  obtains stop u w where "exit_errs no_write_error es (s\<lparr>gameStateMutex := True\<rparr>) = Inr (stop, u)"
    "kept s u" "s' = w\<lparr>gameStateMutex := False\<rparr>"
    "if stop then b \<and> w = u else \<exists>role. exit_switch no_write_error ix hw role u = Inr (b, w)"
proof -
  from assms obtain w where w: "bindE (exit_errs no_write_error es (s\<lparr>gameStateMutex := True\<rparr>)) (\<lambda>(stop, s).
       if stop then Inr (True, s)
       else bindE (getRole ix (workerMgr s)) (\<lambda>role. exit_switch no_write_error ix hw role s)) = Inr (b, w)"
    "s' = w\<lparr>gameStateMutex := False\<rparr>"
    by (auto simp: grandExitCallback_def with_game_def simp del: bindE_eq_Inr split: if_splits sum.splits)
      (auto simp: bindE_def split: sum.splits)
  then obtain stop u where u: "exit_errs no_write_error es (s\<lparr>gameStateMutex := True\<rparr>) = Inr (stop, u)" by auto
  have r: "if stop then b \<and> w = u else \<exists>role. exit_switch no_write_error ix hw role u = Inr (b, w)"
    using w(1) unfolding u by (cases stop) auto
  have k: "kept s u" using exit_errs_kept [OF u] by (simp add: kept_def)
  show thesis by (rule that [OF u k w(2) r])
qed

lemma exit_kept:
  assumes "grandExitCallback no_write_error es ix hw s = Inr (b, s')"
  shows "knows s s' \<and> (\<not> b \<longrightarrow> kept s s')"
proof -
  from assms obtain stop u w where k: "kept s u" and w: "s' = w\<lparr>gameStateMutex := False\<rparr>"
    and r: "if stop then b \<and> w = u else \<exists>role. exit_switch no_write_error ix hw role u = Inr (b, w)"
    by (rule exit_parts)
  have "knows s w \<and> (\<not> b \<longrightarrow> kept s w)"
  proof (cases stop)
    case True
    with r k kept_knows show ?thesis by simp
  next
    case False
    with r obtain role where "exit_switch no_write_error ix hw role u = Inr (b, w)" by auto
    from exit_switch_kept [OF this] kept_knows [OF k] k show ?thesis by (blast intro: knows_trans kept_trans)
  qed
  with w show ?thesis by (simp add: kept_def knows_def)
qed

section \<open>Another worker leaves\<close>

text \<open>The worker \<open>ix\<close> is not shut down unless it was.\<close>

definition spares :: "int \<Rightarrow> server \<Rightarrow> server \<Rightarrow> bool" where
  "spares ix s s' \<longleftrightarrow> (\<forall>r. roles (workerMgr s) ix = Some r \<and> r \<noteq> SHUTDOWN \<longrightarrow>
     (\<exists>r'. roles (workerMgr s') ix = Some r' \<and> r' \<noteq> SHUTDOWN))"

lemma kept_spares: "kept s s' \<Longrightarrow> spares ix s s'"
  unfolding kept_def keeps_roles_def spares_def by metis

lemma spares_trans: "spares ix s s' \<Longrightarrow> spares ix s' s'' \<Longrightarrow> spares ix s s''"
  unfolding spares_def by metis

lemma erase_spares:
  "mgr_op wr (\<lambda>cb. eraseWorker jx) s = Inr s' \<Longrightarrow> spares ix s s'"
  "mgr_op wr (\<lambda>cb. setRole jx r) s = Inr s' \<Longrightarrow> jx \<noteq> ix \<Longrightarrow> spares ix s s'"
  by (auto simp: mgr_op_def spares_def eraseWorker_def setRole_def with_threads_def split: if_splits)

lemma mark_spares:
  "erase_mark wr jx s = Inr s' \<Longrightarrow> jx \<noteq> ix \<Longrightarrow> spares ix s s'"
  "mark_erase wr jx s = Inr s' \<Longrightarrow> jx \<noteq> ix \<Longrightarrow> spares ix s s'"
  by (auto simp: erase_mark_def mark_erase_def intro: spares_trans erase_spares)

lemma exit_switch_spares:
  assumes "exit_switch no_write_error jx hw role s = Inr (b, s')" and "jx \<noteq> ix"
  shows "spares ix s s'"
proof (cases role)
  case SERVING_PROXY
  with assms obtain u where "mark_erase no_write_error jx s = Inr u" "finalize no_write_error u = Inr s'"
    by (auto simp: exit_switch_def)
  with mark_spares(2) assms(2) kept_spares [OF finalize_kept] show ?thesis by (blast intro: spares_trans)
next
  case SERVING_ACTIVE
  with assms show ?thesis
    by (auto simp: exit_switch_def Let_def spares_def split: if_splits dest!: erase_spares(2) mark_spares(2))
qed (use assms in \<open>auto simp: exit_switch_def kept_spares kept_refl split: if_splits dest: mark_spares(1)\<close>)

lemma exit_spares:
  assumes "grandExitCallback no_write_error es jx hw s = Inr (b, s')" and "jx \<noteq> ix"
  shows "spares ix s s'"
proof -
  from assms(1) obtain stop u w where k: "kept s u" and w: "s' = w\<lparr>gameStateMutex := False\<rparr>"
    and r: "if stop then b \<and> w = u else \<exists>role. exit_switch no_write_error jx hw role u = Inr (b, w)"
    by (rule exit_parts)
  have "spares ix u w"
    using r exit_switch_spares [OF _ assms(2)] kept_spares [OF kept_refl] by (auto split: if_splits)
  with kept_spares [OF k] have "spares ix s w" by (rule spares_trans)
  with w show ?thesis by (simp add: spares_def)
qed

end
