(* ===== verification/Mgr_Exec.thy ===== *)
theory Mgr_Exec
  imports IO_Worker_Mgr
begin

text \<open>
  The operations of the manager as equations: on a well-formed manager whose mutex is free, and
  while no write to a pipe fails, each yields the state named here. The server's callbacks are
  evaluated with them. \<open>pool_inv\<close> is what the server keeps of its manager.
\<close>

named_theorems mgr_exec \<open>the manager's operations on a free manager\<close>

section \<open>Messages\<close>

text \<open>Messages put into the queues of their addressees, in the order of the list.\<close>

definition deliver :: "(send_job \<times> int) list \<Rightarrow> mgr \<Rightarrow> mgr" where
  "deliver js = fold (\<lambda>p. upd (snd p) (newJob (fst p))) js"

lemma deliver_Nil [simp]: "deliver [] m = m"
  by (simp add: deliver_def)

lemma deliver_Cons: "deliver (p # js) m = deliver js (upd (snd p) (newJob (fst p)) m)"
  by (simp add: deliver_def)

lemma deliver_deliver [simp]: "deliver ys (deliver xs m) = deliver (xs @ ys) m"
  by (simp add: deliver_def)

lemma deliver_simps [simp]:
  "pipes (deliver js m) = pipes m" "threads (deliver js m) = threads m"
  "roles (deliver js m) = roles m" "clearThreadsSemaphore (deliver js m) = clearThreadsSemaphore m"
  "threadsStructuresMutex (deliver js m) = threadsStructuresMutex m"
  "toErase (deliver js m) = toErase m" "finishFlag (deliver js m) = finishFlag m"
  "nextIx (deliver js m) = nextIx m" "joining (deliver js m) = joining m"
  "mgr_free (deliver js m) = mgr_free m" "known (deliver js m) = known m"
  by (induction js arbitrary: m) (simp_all add: deliver_Cons)

lemma inbox_deliver:
  "known m ix \<Longrightarrow> inbox (deliver js m) ix = inbox m ix @ map fst (filter (\<lambda>p. snd p = ix) js)"
proof (induction js arbitrary: m)
  case (Cons p js)
  then have "inbox (upd (snd p) (newJob (fst p)) m) ix = inbox m ix @ (if snd p = ix then [fst p] else [])"
    by (auto simp: inbox_def known_def newJob_def pushNextJob_def)
  with Cons show ?case by (simp add: deliver_Cons)
qed simp

lemma sendJob_deliver [mgr_exec]:
  "mgr_free m \<Longrightarrow> known m ix \<Longrightarrow> sendJob no_write_error cb j ix m = Inr (deliver [(j, ix)] m)"
  by (auto simp: known_def sendJob_ok deliver_Cons)

section \<open>Roles, kills and erasures\<close>

lemma with_threads_pure:
  assumes "\<not> threadsStructuresMutex m"
    and "f (m\<lparr>threadsStructuresMutex := True\<rparr>) = Inr (g (m\<lparr>threadsStructuresMutex := True\<rparr>))"
    and "(g (m\<lparr>threadsStructuresMutex := True\<rparr>))\<lparr>threadsStructuresMutex := False\<rparr> = g m"
  shows "with_threads f m = Inr (g m)"
  using assms by (simp add: with_threads_def)

definition set_role :: "int \<Rightarrow> worker_status \<Rightarrow> mgr \<Rightarrow> mgr" where
  "set_role ix r m = m\<lparr>roles := (roles m)(ix \<mapsto> r)\<rparr>"

definition erase_entry :: "int \<Rightarrow> mgr \<Rightarrow> mgr" where
  "erase_entry ix m =
     (if ix \<in> set (toErase m) then m
      else m\<lparr>toErase := toErase m @ [ix], clearThreadsSemaphore := clearThreadsSemaphore m + 1\<rparr>)"

definition order_death :: "int \<Rightarrow> mgr \<Rightarrow> mgr" where
  "order_death ix = upd ix scheduleDeath"

definition kill_all :: "mgr \<Rightarrow> mgr" where
  "kill_all m =
     fold order_death (filter (\<lambda>ix. workers m ix \<noteq> None \<and> ix \<notin> set (toErase m)) (all_ids m)) m"

definition bump_role :: "worker_status \<Rightarrow> mgr \<Rightarrow> mgr" where
  "bump_role r m = fold bump (filter (\<lambda>ix. roles m ix = Some r) (all_ids m)) m"

definition raise_flag :: "mgr \<Rightarrow> mgr" where
  "raise_flag m = m\<lparr>finishFlag := True\<rparr>"

lemma getRole_eq [mgr_exec]: "mgr_free m \<Longrightarrow> getRole ix m = map_at (roles m) ix"
  by (simp add: getRole_def mgr_free_def)

lemma setRole_eq [mgr_exec]:
  "mgr_free m \<Longrightarrow> roles m ix \<noteq> None \<Longrightarrow> setRole ix r m = Inr (set_role ix r m)"
  unfolding setRole_def by (rule with_threads_pure) (auto simp: mgr_free_def set_role_def)

lemma eraseWorker_eq [mgr_exec]: "mgr_free m \<Longrightarrow> eraseWorker ix m = Inr (erase_entry ix m)"
  unfolding eraseWorker_def by (rule with_threads_pure) (auto simp: mgr_free_def erase_entry_def)

lemma releaseCleaner_eq [mgr_exec]: "mgr_free m \<Longrightarrow> releaseCleaner m = Inr (raise_flag m)"
  unfolding releaseCleaner_def by (rule with_threads_pure) (auto simp: mgr_free_def raise_flag_def)

lemma sendKill_eq [mgr_exec]:
  "mgr_free m \<Longrightarrow> known m ix \<Longrightarrow> sendKill no_write_error cb ix False m = Inr (order_death ix m)"
  by (auto simp: known_def sendKill_ok order_death_def)

lemma order_death_simps [simp]:
  "pipes (order_death ix m) = pipes m" "threads (order_death ix m) = threads m"
  "roles (order_death ix m) = roles m"
  "threadsStructuresMutex (order_death ix m) = threadsStructuresMutex m"
  "toErase (order_death ix m) = toErase m" "finishFlag (order_death ix m) = finishFlag m"
  "nextIx (order_death ix m) = nextIx m" "clearThreadsSemaphore (order_death ix m) = clearThreadsSemaphore m"
  "mgr_wf (order_death ix m) = mgr_wf m"
  "mgr_free (order_death ix m) = mgr_free m" "known (order_death ix m) = known m"
  by (simp_all add: order_death_def)

lemma killed_order_death: "killed (order_death i m) ix \<longleftrightarrow> killed m ix \<or> i = ix \<and> known m ix"
  by (auto simp: killed_def order_death_def known_def scheduleDeath_def setKillOrder_def)

lemma inbox_order_death [simp]: "inbox (order_death i m) = inbox m"
  by (auto simp: inbox_def order_death_def scheduleDeath_def setKillOrder_def split: option.splits)

lemma fold_order_death:
  "roles (fold order_death ixs m) = roles m \<and> toErase (fold order_death ixs m) = toErase m \<and>
   known (fold order_death ixs m) = known m \<and> mgr_free (fold order_death ixs m) = mgr_free m \<and>
   nextIx (fold order_death ixs m) = nextIx m \<and> finishFlag (fold order_death ixs m) = finishFlag m \<and>
   inbox (fold order_death ixs m) = inbox m \<and>
   clearThreadsSemaphore (fold order_death ixs m) = clearThreadsSemaphore m"
  by (induction ixs arbitrary: m) simp_all

lemma killed_fold_order_death:
  "killed (fold order_death ixs m) ix \<longleftrightarrow> killed m ix \<or> ix \<in> set ixs \<and> known m ix"
  by (induction ixs arbitrary: m) (auto simp: killed_order_death)

lemma kill_all_simps [simp]:
  "roles (kill_all m) = roles m" "toErase (kill_all m) = toErase m" "known (kill_all m) = known m"
  "mgr_free (kill_all m) = mgr_free m" "nextIx (kill_all m) = nextIx m"
  "finishFlag (kill_all m) = finishFlag m" "inbox (kill_all m) = inbox m"
  "clearThreadsSemaphore (kill_all m) = clearThreadsSemaphore m"
  using fold_order_death by (simp_all add: kill_all_def)

lemma mgr_wf_ids: "mgr_wf m \<Longrightarrow> workers m ix \<noteq> None \<Longrightarrow> ix \<in> set (all_ids m)"
  unfolding mgr_wf_def all_ids_def
  by (auto simp: image_iff intro!: bexI [of _ "nat ix"] dest!: subsetD [OF _ domI])

lemma killed_kill_all:
  "mgr_free m \<Longrightarrow> known m ix \<Longrightarrow> ix \<notin> set (toErase m) \<Longrightarrow> killed (kill_all m) ix"
  using mgr_wf_ids [of m ix]
  by (simp add: kill_all_def killed_fold_order_death known_def mgr_free_def)

section \<open>Loops over the workers\<close>

lemma mgr_wf_role:
  assumes "mgr_wf m" and "roles m ix = Some r"
  shows "0 \<le> ix \<and> ix < nextIx m \<and> pipes m ix \<noteq> None"
proof -
  have "ix \<in> dom (roles m)" using assms(2) by (rule domI)
  moreover have "dom (roles m) = {0..<nextIx m}" "dom (pipes m) = {0..<nextIx m}"
    using assms(1) by (simp_all add: mgr_wf_def)
  ultimately have "ix \<in> {0..<nextIx m}" "ix \<in> dom (pipes m)" by blast+
  then show ?thesis unfolding domIff by simp
qed

lemma mgr_wf_mutex [simp]: "mgr_wf (m\<lparr>threadsStructuresMutex := b\<rparr>) = mgr_wf m"
  by (simp add: mgr_wf_def)

lemma bump_mutex: "bump ix (m\<lparr>threadsStructuresMutex := b\<rparr>) = (bump ix m)\<lparr>threadsStructuresMutex := b\<rparr>"
  by (simp add: bump_def Let_def)

lemma order_death_mutex:
  "order_death ix (m\<lparr>threadsStructuresMutex := b\<rparr>) = (order_death ix m)\<lparr>threadsStructuresMutex := b\<rparr>"
  by (simp add: order_death_def upd_def bump_def Let_def)

lemma fold_mutex:
  assumes "\<And>x m. f x (m\<lparr>threadsStructuresMutex := b\<rparr>) = (f x m)\<lparr>threadsStructuresMutex := b\<rparr>"
  shows "fold f xs (m\<lparr>threadsStructuresMutex := b\<rparr>) = (fold f xs m)\<lparr>threadsStructuresMutex := b\<rparr>"
  by (induction xs arbitrary: m) (simp_all add: assms)

lemma fold_mutex_back:
  assumes "\<And>x m b. f x (m\<lparr>threadsStructuresMutex := b\<rparr>) = (f x m)\<lparr>threadsStructuresMutex := b\<rparr>"
    and "\<not> threadsStructuresMutex m"
  shows "(fold f xs (m\<lparr>threadsStructuresMutex := True\<rparr>))\<lparr>threadsStructuresMutex := False\<rparr> = fold f xs m"
proof -
  have "fold f xs (m\<lparr>threadsStructuresMutex := b\<rparr>) = (fold f xs m)\<lparr>threadsStructuresMutex := b\<rparr>" for b
    by (rule fold_mutex [where f = f, OF assms(1)])
  from this [of True] this [of False] assms(2) show ?thesis by simp
qed

lemma mgr_free_mutex: "mgr_free m \<Longrightarrow> \<not> threadsStructuresMutex m"
  by (simp add: mgr_free_def)

lemma fold_bump [simp]:
  "roles (fold bump ixs m) = roles m" "toErase (fold bump ixs m) = toErase m"
  "workers (fold bump ixs m) = workers m" "pipes (fold bump ixs m) = pipes m"
  "mgr_wf (fold bump ixs m) = mgr_wf m" "nextIx (fold bump ixs m) = nextIx m"
  "finishFlag (fold bump ixs m) = finishFlag m"
  "clearThreadsSemaphore (fold bump ixs m) = clearThreadsSemaphore m"
  "threadsStructuresMutex (fold bump ixs m) = threadsStructuresMutex m"
  by (induction ixs arbitrary: m) simp_all

lemma bump_role_simps [simp]:
  "roles (bump_role r m) = roles m" "toErase (bump_role r m) = toErase m"
  "workers (bump_role r m) = workers m" "known (bump_role r m) = known m"
  "inbox (bump_role r m) = inbox m" "mgr_free (bump_role r m) = mgr_free m"
  "nextIx (bump_role r m) = nextIx m" "finishFlag (bump_role r m) = finishFlag m"
  "clearThreadsSemaphore (bump_role r m) = clearThreadsSemaphore m"
  by (simp_all add: bump_role_def known_def inbox_def mgr_free_def fun_eq_iff)

lemma sendKill_locked:
  assumes "mgr_wf m" and "known m ix"
  shows "sendKill no_write_error cb ix True m = Inr (order_death ix m)"
proof -
  obtain w where "workers m ix = Some w" using assms(2) by (auto simp: known_def)
  with assms(1) mgr_wf_pipes [of m ix] show ?thesis
    by (simp only: sendKill_def order_death_def not_True_eq_False if_False)
      (rule on_worker_signal, simp_all)
qed

lemma finish_loop:
  "mgr_wf m \<Longrightarrow> \<forall>ix \<in> set ixs. known m ix \<Longrightarrow>
   foldE (\<lambda>ix m. if ix \<in> set (toErase m) then Inr m else sendKill no_write_error cb ix True m) ixs m =
   Inr (fold order_death (filter (\<lambda>ix. ix \<notin> set (toErase m)) ixs) m)"
  by (induction ixs arbitrary: m) (simp_all add: sendKill_locked)

lemma finish_eq [mgr_exec]:
  assumes "mgr_free m"
  shows "finish no_write_error cb m = Inr (kill_all m)"
  unfolding finish_def
proof (rule with_threads_pure)
  let ?m = "m\<lparr>threadsStructuresMutex := True\<rparr>"
  let ?ixs = "filter (\<lambda>ix. workers m ix \<noteq> None) (all_ids m)"
  have wf: "mgr_wf ?m" using assms by (simp add: mgr_free_def)
  have ids: "all_ids ?m = all_ids m" by (simp add: all_ids_def)
  have "kill_all ?m = fold order_death (filter (\<lambda>ix. ix \<notin> set (toErase m)) ?ixs) ?m"
    by (simp add: kill_all_def ids conj_commute)
  with finish_loop [OF wf, of ?ixs cb] ids
  show "foldE (\<lambda>ix m. if ix \<in> set (toErase m) then Inr m else sendKill no_write_error cb ix True m)
          (filter (\<lambda>ix. workers ?m ix \<noteq> None) (all_ids ?m)) ?m = Inr (kill_all ?m)"
    by (simp add: known_def)
  show "(kill_all ?m)\<lparr>threadsStructuresMutex := False\<rparr> = kill_all m"
    using fold_mutex_back [where f = order_death, OF order_death_mutex mgr_free_mutex [OF assms]] by (simp add: kill_all_def ids)
  show "\<not> threadsStructuresMutex m" using assms by (rule mgr_free_mutex)
qed

lemma signal_loop:
  "mgr_wf m \<Longrightarrow> \<forall>ix \<in> set ixs. pipes m ix \<noteq> None \<Longrightarrow>
   foldE (\<lambda>ix. signal no_write_error cb ix True) ixs m = Inr (fold bump ixs m)"
  by (induction ixs arbitrary: m) (simp_all add: signal_ok)

lemma signalRole_eq [mgr_exec]:
  assumes "mgr_free m"
  shows "signalRole no_write_error cb r m = Inr (bump_role r m)"
  unfolding signalRole_def
proof (rule with_threads_pure)
  let ?m = "m\<lparr>threadsStructuresMutex := True\<rparr>"
  have ids: "all_ids ?m = all_ids m" by (simp add: all_ids_def)
  have wf: "mgr_wf ?m" using assms by (simp add: mgr_free_def)
  have "pipes ?m ix \<noteq> None" if "roles m ix = Some r" for ix
    using mgr_wf_role [OF wf] that by simp
  then show "foldE (\<lambda>ix. signal no_write_error cb ix True)
      (filter (\<lambda>ix. roles ?m ix = Some r) (all_ids ?m)) ?m = Inr (bump_role r ?m)"
    using signal_loop [OF wf] by (simp add: bump_role_def ids)
  show "(bump_role r ?m)\<lparr>threadsStructuresMutex := False\<rparr> = bump_role r m"
    using fold_mutex_back [where f = bump, OF bump_mutex mgr_free_mutex [OF assms]] by (simp add: bump_role_def ids)
  show "\<not> threadsStructuresMutex m" using assms by (rule mgr_free_mutex)
qed

section \<open>What the server keeps of its manager\<close>

text \<open>
  A worker that is not shut down still has its object; those that are shut down and still have
  theirs are the ones waiting to be erased, and the semaphore counts at least these.
\<close>

definition erase_inv :: "mgr \<Rightarrow> bool" where
  "erase_inv m \<longleftrightarrow>
     (\<forall>ix. known m ix \<and> roles m ix = Some SHUTDOWN \<longrightarrow> ix \<in> set (toErase m)) \<and>
     length (toErase m) \<le> clearThreadsSemaphore m"

definition pool_inv :: "mgr \<Rightarrow> bool" where
  "pool_inv m \<longleftrightarrow>
     mgr_free m \<and> (\<forall>ix r. roles m ix = Some r \<and> r \<noteq> SHUTDOWN \<longrightarrow> known m ix) \<and>
     (\<forall>ix \<in> set (toErase m). roles m ix = Some SHUTDOWN) \<and> erase_inv m"

lemma pool_inv_free: "pool_inv m \<Longrightarrow> mgr_free m"
  by (simp add: pool_inv_def)

lemma pool_inv_known: "pool_inv m \<Longrightarrow> roles m ix = Some r \<Longrightarrow> r \<noteq> SHUTDOWN \<Longrightarrow> known m ix"
  by (auto simp: pool_inv_def)

lemma pool_inv_id: "pool_inv m \<Longrightarrow> roles m ix = Some r \<Longrightarrow> 0 \<le> ix"
  using mgr_wf_role [of m ix r] by (simp add: pool_inv_def mgr_free_def)

lemma erase_inv_kept [simp]:
  "erase_inv (deliver js m) = erase_inv m" "erase_inv (order_death ix m) = erase_inv m"
  "erase_inv (kill_all m) = erase_inv m" "erase_inv (bump_role r m) = erase_inv m"
  by (simp_all add: erase_inv_def)

lemma pool_inv_kept [simp]:
  "pool_inv (deliver js m) = pool_inv m" "pool_inv (order_death ix m) = pool_inv m"
  "pool_inv (kill_all m) = pool_inv m" "pool_inv (bump_role r m) = pool_inv m"
  by (simp_all add: pool_inv_def)

lemma raise_flag_simps [simp]:
  "roles (raise_flag m) = roles m" "toErase (raise_flag m) = toErase m"
  "workers (raise_flag m) = workers m" "known (raise_flag m) = known m"
  "inbox (raise_flag m) = inbox m" "mgr_free (raise_flag m) = mgr_free m"
  "finishFlag (raise_flag m)" "clearThreadsSemaphore (raise_flag m) = clearThreadsSemaphore m" "nextIx (raise_flag m) = nextIx m" "pool_inv (raise_flag m) = pool_inv m"
  by (auto simp: raise_flag_def pool_inv_def erase_inv_def known_def inbox_def mgr_free_def mgr_wf_def fun_eq_iff)

lemma set_role_simps [simp]:
  "roles (set_role ix r m) = (roles m)(ix \<mapsto> r)" "toErase (set_role ix r m) = toErase m"
  "workers (set_role ix r m) = workers m" "known (set_role ix r m) = known m"
  "inbox (set_role ix r m) = inbox m" "nextIx (set_role ix r m) = nextIx m"
  "finishFlag (set_role ix r m) = finishFlag m"
  "clearThreadsSemaphore (set_role ix r m) = clearThreadsSemaphore m"
  by (auto simp: set_role_def known_def inbox_def fun_eq_iff)

lemma mgr_free_set_role [simp]: "roles m ix \<noteq> None \<Longrightarrow> mgr_free (set_role ix r m) = mgr_free m"
  by (auto simp: mgr_free_def mgr_wf_def set_role_def insert_absorb domIff)

lemma erase_entry_simps [simp]:
  "roles (erase_entry ix m) = roles m" "workers (erase_entry ix m) = workers m"
  "known (erase_entry ix m) = known m" "inbox (erase_entry ix m) = inbox m"
  "nextIx (erase_entry ix m) = nextIx m" "finishFlag (erase_entry ix m) = finishFlag m"
  "set (toErase (erase_entry ix m)) = insert ix (set (toErase m))"
  by (auto simp: erase_entry_def known_def inbox_def fun_eq_iff)

lemma mgr_free_erase_entry [simp]: "roles m ix \<noteq> None \<Longrightarrow> mgr_free (erase_entry ix m) = mgr_free m"
  by (auto simp: mgr_free_def mgr_wf_def erase_entry_def)

text \<open>A role may change to another living one, and any worker may be shut down.\<close>

lemma erase_inv_role:
  "erase_inv m \<Longrightarrow> r \<noteq> SHUTDOWN \<Longrightarrow> erase_inv (set_role ix r m)"
  "erase_inv m \<Longrightarrow> erase_inv (erase_entry ix (set_role ix r m))"
  "erase_inv m \<Longrightarrow> erase_inv (set_role ix r (erase_entry ix m))"
  by (simp_all add: erase_inv_def) (auto simp: erase_entry_def set_role_def)

lemma pool_inv_set_role:
  "pool_inv m \<Longrightarrow> roles m ix = Some r \<Longrightarrow> r \<noteq> SHUTDOWN \<Longrightarrow> r' \<noteq> SHUTDOWN \<Longrightarrow> pool_inv (set_role ix r' m)"
  by (auto simp: pool_inv_def erase_inv_role)

lemma pool_inv_shutdown:
  assumes "pool_inv m" and "roles m ix \<noteq> None"
  shows "pool_inv (set_role ix SHUTDOWN (erase_entry ix m))"
    and "pool_inv (erase_entry ix (set_role ix SHUTDOWN m))"
  using assms by (auto simp: pool_inv_def erase_inv_role)

lemma pool_inv_init: "pool_inv IOWorkerMgr"
  using mgr_wf_init by (simp add: pool_inv_def erase_inv_def known_def IOWorkerMgr_def)

lemma spawn_eq:
  assumes "mgr_free m"
  shows "spawnNewWorker cb (Inr (rd, wrt)) role mk m =
     Inr (m\<lparr>nextIx := nextIx m + 1, pipes := (pipes m)(nextIx m \<mapsto> (wrt, rd)),
            workers := (workers m)(nextIx m \<mapsto> mk rd (nextIx m)),
            threads := insert (nextIx m) (threads m), roles := (roles m)(nextIx m \<mapsto> role)\<rparr>)"
  using assms by (simp add: spawnNewWorker_def with_threads_def mgr_free_def Let_def)

lemma spawn_inv:
  assumes "pool_inv m" and "spawnNewWorker cb (Inr (rd, wrt)) role mk m = Inr m'" and "role \<noteq> SHUTDOWN"
  shows "pool_inv m' \<and> roles m (nextIx m) = None \<and> roles m' = (roles m)(nextIx m \<mapsto> role) \<and>
         known m' = (known m)(nextIx m := True) \<and> nextIx m' = nextIx m + 1 \<and> finishFlag m' = finishFlag m"
proof -
  have none: "roles m (nextIx m) = None"
    using mgr_wf_role [of m "nextIx m"] assms(1)
    by (cases "roles m (nextIx m)") (auto simp: pool_inv_def mgr_free_def)
  have ins: "insert k {0..<k} = {0..<k + 1}" if "0 \<le> k" for k :: int using that by auto
  from assms(2) pool_inv_free [OF assms(1)] have m': "m' =
      m\<lparr>nextIx := nextIx m + 1, pipes := (pipes m)(nextIx m \<mapsto> (wrt, rd)),
        workers := (workers m)(nextIx m \<mapsto> mk rd (nextIx m)),
        threads := insert (nextIx m) (threads m), roles := (roles m)(nextIx m \<mapsto> role)\<rparr>"
    by (simp add: spawn_eq)
  have wf: "mgr_wf m" using assms(1) by (simp add: pool_inv_def mgr_free_def)
  then have "mgr_wf m'"
    using ins [of "nextIx m"] unfolding m' mgr_wf_def by simp fastforce
  moreover have "erase_inv m'"
  proof -
    have "erase_inv m" using assms(1) by (simp add: pool_inv_def)
    with assms(3) show ?thesis unfolding m' by (simp add: erase_inv_def known_def)
  qed
  ultimately show ?thesis using assms(1) none
    unfolding m' by (auto simp: pool_inv_def mgr_free_def known_def fun_eq_iff)
qed

section \<open>The cleaner\<close>

lemma collect_simps [simp]:
  "roles (collect ixs m) = roles m" "nextIx (collect ixs m) = nextIx m"
  "pipes (collect ixs m) = pipes m" "toErase (collect ixs m) = toErase m"
  "threadsStructuresMutex (collect ixs m) = threadsStructuresMutex m"
  "finishFlag (collect ixs m) = finishFlag m"
  by (induction ixs arbitrary: m) simp_all

lemma collect_workers:
  "workers (collect ixs m) ix = (if ix \<in> set ixs then None else workers m ix)"
  "threads (collect ixs m) = threads m - set ixs"
  by (induction ixs arbitrary: m) auto

lemma waitForClearing_step:
  assumes "waitForClearing m = Some (Inr (b, m'))" and "pool_inv m"
  shows "pool_inv m' \<and> roles m' = roles m \<and> nextIx m' = nextIx m \<and> finishFlag m' = finishFlag m \<and>
         (\<forall>ix. known m' ix \<longleftrightarrow> known m ix \<and> ix \<notin> set (toErase m)) \<and>
         (\<forall>ix. known m' ix \<longrightarrow> inbox m' ix = inbox m ix)"
proof -
  from assms have m': "m' = (collect (rev (toErase m)) (m\<lparr>clearThreadsSemaphore := clearThreadsSemaphore m - 1\<rparr>))
                    \<lparr>toErase := []\<rparr>"
    by (auto simp: waitForClearing_def Let_def split: if_splits)
  have w: "workers m' ix = (if ix \<in> set (toErase m) then None else workers m ix)" for ix
    by (simp add: m' collect_workers)
  have t: "threads m' = threads m - set (toErase m)"
    by (simp add: m' collect_workers)
  have dom: "dom (workers m') = dom (workers m) - set (toErase m)"
    using w by (auto simp: domIff split: if_splits)
  have "mgr_wf m'"
    using assms(2) dom t unfolding pool_inv_def mgr_free_def mgr_wf_def by (auto simp: m')
  moreover have "erase_inv m'"
  proof -
    have "erase_inv m" using assms(2) by (simp add: pool_inv_def)
    then have "ix \<in> set (toErase m)" if "known m ix" "roles m ix = Some SHUTDOWN" for ix
      using that by (simp add: erase_inv_def)
    then have "\<not> (known m' ix \<and> roles m ix = Some SHUTDOWN)" for ix
      using w [of ix] by (cases "ix \<in> set (toErase m)") (auto simp: known_def)
    moreover have "roles m' = roles m" "toErase m' = []" by (simp_all add: m')
    ultimately show ?thesis by (simp add: erase_inv_def)
  qed
  ultimately show ?thesis using assms(2) w
    by (auto simp: m' pool_inv_def mgr_free_def known_def inbox_def split: if_splits)
qed

end
