(* ===== verification/Game_Spec.thy ===== *)
theory Game_Spec
  imports Game_Rules Scenario Send_Job
begin

text \<open>
  The game as its rules have it, without workers, messages in flight or maps with default entries:
  the specification the server is compared with. \<open>spec_move\<close> is the effect of a legal card,
  \<open>spec_msgs\<close> what the players are told; the invariants of a game are proved here.
\<close>

section \<open>State and moves\<close>

record game =
  gScenario :: game_scenario
  gRound :: nat
  gMode :: round_type
  gHands :: "side \<Rightarrow> hand"
  gTable :: "card list"
  gTurn :: side
  gWon :: "(table \<times> side) list"
  gRoundPts :: "side \<Rightarrow> int"
  gTotal :: "side \<Rightarrow> int"

text \<open>The card that takes a full table: the highest of the suit led.\<close>

definition winner :: "side \<Rightarrow> table \<Rightarrow> side" where
  "winner leader tab = seat (hd (filter (best_index tab 4) [0..<4])) leader"

definition gTrickNo :: "game \<Rightarrow> nat" where
  "gTrickNo g = Suc (length (gWon g))"

definition gLegal :: "side \<Rightarrow> nat \<Rightarrow> card \<Rightarrow> game \<Rightarrow> bool" where
  "gLegal t n c g \<longleftrightarrow> n = gTrickNo g \<and> gTurn g = t \<and> legal_move (gHands g t) c (gTable g)"

text \<open>A trick is complete: \<open>tab\<close> holds four cards, the last played by the side before the leader.\<close>

definition take_trick :: "table \<Rightarrow> side \<Rightarrow> game \<Rightarrow> game" where
  "take_trick tab leader g =
     (let w = winner leader tab in
      g\<lparr>gTable := [], gTurn := w, gWon := gWon g @ [(tab, w)],
        gRoundPts := (gRoundPts g)(w := gRoundPts g w + penalty (gMode g) tab (gTrickNo g))\<rparr>)"

definition close_round :: "game \<Rightarrow> game" where
  "close_round g =
     g\<lparr>gTotal := (\<lambda>t. gTotal g t + gRoundPts g t), gRoundPts := (\<lambda>t. 0), gRound := gRound g + 1\<rparr>"

definition deal_round :: "game \<Rightarrow> game" where
  "deal_round g =
     (case gScenario g ! gRound g of (mode, st, starting) \<Rightarrow>
        g\<lparr>gMode := mode, gHands := (\<lambda>t. get [] t st), gTurn := starting, gWon := [], gTable := []\<rparr>)"

definition put_card :: "card \<Rightarrow> game \<Rightarrow> game" where
  "put_card c g =
     (let t = gTurn g in
      g\<lparr>gTable := gTable g @ [c], gHands := (gHands g)(t := remove1 c (gHands g t)), gTurn := nxt t\<rparr>)"

definition next_trick :: "game \<Rightarrow> game" where
  "next_trick g = take_trick (gTable g) (gTurn g) g"

definition spec_move :: "card \<Rightarrow> game \<Rightarrow> game" where
  "spec_move c g =
     (let g1 = put_card c g in
      if length (gTable g1) < 4 then g1
      else
        let g2 = next_trick g1 in
        if length (gWon g2) < TRICKS_PER_ROUND then g2
        else
          let g3 = close_round g2 in
          if gRound g3 = length (gScenario g3) then g3 else deal_round g3)"

text \<open>The messages of a move, each with the side it is for, in the order they are sent.\<close>

definition score_of :: "(side \<Rightarrow> int) \<Rightarrow> score_map" where
  "score_of f = (\<lambda>t. if real_side t then Some (f t) else None)"

definition to_all :: "(side \<Rightarrow> send_job list) \<Rightarrow> (send_job \<times> side) list" where
  "to_all f = concat (map (\<lambda>t. map (\<lambda>j. (j, t)) (f t)) sides)"

definition trick_msg :: "game \<Rightarrow> (send_job \<times> side) list" where
  "trick_msg g = [(SendJobTrick (gTable g) (gTrickNo g), gTurn g)]"

definition deal_msgs :: "game \<Rightarrow> (send_job \<times> side) list" where
  "deal_msgs g = to_all (\<lambda>t. [SendDealJob (gMode g) (gTurn g) (gHands g t)])"

definition spec_msgs :: "card \<Rightarrow> game \<Rightarrow> (send_job \<times> side) list" where
  "spec_msgs c g =
     (let g1 = put_card c g in
      if length (gTable g1) < 4 then trick_msg g1
      else
        let g2 = next_trick g1;
            taken = to_all (\<lambda>t. [SendJobTaken (gTable g1) (gTurn g2) (int (gTrickNo g1))])
        in if length (gWon g2) < TRICKS_PER_ROUND then taken @ trick_msg g2
        else
          let g3 = close_round g2;
              scores = to_all (\<lambda>t. [SendJobScore (score_of (gRoundPts g2)), SendJobTotal (score_of (gTotal g3))])
          in if gRound g3 = length (gScenario g3) then taken @ scores
             else taken @ scores @ deal_msgs (deal_round g3) @ trick_msg (deal_round g3))"

definition start_game :: "game_scenario \<Rightarrow> game" where
  "start_game sc =
     deal_round \<lparr>gScenario = sc, gRound = 0, gMode = TRICK_PENALTY, gHands = (\<lambda>t. []), gTable = [],
                gTurn = W, gWon = [], gRoundPts = (\<lambda>t. 0), gTotal = (\<lambda>t. 0)\<rparr>"

inductive plays :: "game_scenario \<Rightarrow> game \<Rightarrow> bool" for sc where
  start: "plays sc (start_game sc)"
| move: "plays sc g \<Longrightarrow> gLegal t n c g \<Longrightarrow> plays sc (spec_move c g)"

inductive_cases plays_cases: "plays sc g"

section \<open>The winner\<close>

lemma winner_best:
  assumes "best_index tab 4 i"
  shows "winner leader tab = seat i leader"
proof -
  have "i \<in> set (filter (best_index tab 4) [0..<4])" using assms by (auto simp: best_index_def)
  then have "hd (filter (best_index tab 4) [0..<4]) \<in> set (filter (best_index tab 4) [0..<4])"
    by (metis hd_in_set list.set_cases list.distinct(1))
  then have "best_index tab 4 (hd (filter (best_index tab 4) [0..<4]))" by simp
  with assms have "hd (filter (best_index tab 4) [0..<4]) = i" using best_index_unique by blast
  then show ?thesis by (simp add: winner_def)
qed

lemma whoTakes_winner:
  "real_side s \<Longrightarrow> real_round r \<Longrightarrow> 4 \<le> length tab \<Longrightarrow>
   whoTakes s tab r n = Inr (winner s tab, penalty r tab n)"
  using whoTakes_best [of s r tab n] winner_best by metis

lemma real_side_winner: "real_side s \<Longrightarrow> real_side (winner s tab)"
  by (simp add: winner_def)

section \<open>Invariants\<close>

text \<open>A deal is fair if the four hands are the deck.\<close>

definition all_cards :: "(side \<Rightarrow> hand) \<Rightarrow> card list" where
  "all_cards h = concat (map h sides)"

definition fair :: "game_scenario \<Rightarrow> bool" where
  "fair sc \<longleftrightarrow> scenario_ok sc \<and> (\<forall>(r, st, s) \<in> set sc. mset (all_cards (\<lambda>t. get [] t st)) = mset deck)"

definition deal_of :: "game \<Rightarrow> side \<Rightarrow> hand" where
  "deal_of g t = (case gScenario g ! gRound g of (r, st, s) \<Rightarrow> get [] t st)"

text \<open>The points a side has from the tricks it has won, the first numbered \<open>n\<close>.\<close>

fun won_points :: "round_type \<Rightarrow> nat \<Rightarrow> (table \<times> side) list \<Rightarrow> side \<Rightarrow> int" where
  "won_points r n [] t = 0"
| "won_points r n ((tab, w) # ws) t = (if w = t then penalty r tab n else 0) + won_points r (Suc n) ws t"

definition side_sum :: "(side \<Rightarrow> int) \<Rightarrow> int" where
  "side_sum f = sum_list (map f sides)"

lemma won_points_snoc:
  "won_points r n (ws @ [(tab, w)]) t =
     won_points r n ws t + (if w = t then penalty r tab (n + length ws) else 0)"
  by (induction ws arbitrary: n) auto

lemma side_sum_add: "side_sum (\<lambda>t. f t + g t) = side_sum f + side_sum g"
  by (simp add: side_sum_def sides_def)

lemma won_points_sum:
  "\<forall>w \<in> set ws. real_side (snd w) \<Longrightarrow>
   side_sum (won_points r n ws) = round_penalty r n (map fst ws)"
proof (induction ws arbitrary: n)
  case (Cons w ws)
  obtain tab t where w: "w = (tab, t)" by (cases w)
  with Cons.prems have "real_side t" by simp
  then have "side_sum (\<lambda>u. if t = u then penalty r tab n else 0) = penalty r tab n"
    by (cases t) (auto simp: side_sum_def sides_def)
  with Cons w show ?case by (simp add: side_sum_add)
qed (simp add: side_sum_def sides_def)

text \<open>What holds in the middle of a round.\<close>

definition seats_ok :: "game \<Rightarrow> bool" where
  "seats_ok g \<longleftrightarrow> length (gTable g) < 4 \<and> length (gWon g) < TRICKS_PER_ROUND \<and>
     (\<exists>leader. real_side leader \<and> gTurn g = seat (length (gTable g)) leader \<and>
        (\<forall>i < 4. length (gHands g (seat i leader)) =
           TRICKS_PER_ROUND - length (gWon g) - (if i < length (gTable g) then 1 else 0)))"

definition cards_ok :: "game \<Rightarrow> bool" where
  "cards_ok g \<longleftrightarrow>
     mset (all_cards (gHands g)) + mset (gTable g) + mset (concat (map fst (gWon g))) =
     mset (all_cards (deal_of g))"

definition won_ok :: "game \<Rightarrow> bool" where
  "won_ok g \<longleftrightarrow> (\<forall>(tab, w) \<in> set (gWon g). length tab = 4 \<and> real_side w) \<and>
     gRoundPts g = won_points (gMode g) 1 (gWon g)"

definition round_started :: "game \<Rightarrow> bool" where
  "round_started g \<longleftrightarrow> gRound g < length (gScenario g) \<and> gMode g = fst (gScenario g ! gRound g)"

definition in_round :: "game \<Rightarrow> bool" where
  "in_round g \<longleftrightarrow> round_started g \<and> seats_ok g \<and> cards_ok g \<and> won_ok g"

definition game_over :: "game \<Rightarrow> bool" where
  "game_over g \<longleftrightarrow> gRound g = length (gScenario g) \<and> gTable g = [] \<and> real_side (gTurn g) \<and>
     length (gWon g) = TRICKS_PER_ROUND \<and> (\<forall>t. real_side t \<longrightarrow> gHands g t = []) \<and>
     gRoundPts g = (\<lambda>t. 0)"

definition game_inv :: "game \<Rightarrow> bool" where
  "game_inv g \<longleftrightarrow> fair (gScenario g) \<and> (in_round g \<or> game_over g) \<and>
     side_sum (gTotal g) = sum_list (map (round_total \<circ> fst) (take (gRound g) (gScenario g)))"

text \<open>The record fields the moves leave alone.\<close>

lemma put_card_fields [simp]:
  "gScenario (put_card c g) = gScenario g" "gRound (put_card c g) = gRound g"
  "gMode (put_card c g) = gMode g" "gWon (put_card c g) = gWon g"
  "gTable (put_card c g) = gTable g @ [c]" "gTurn (put_card c g) = nxt (gTurn g)"
  "gHands (put_card c g) = (gHands g)(gTurn g := remove1 c (gHands g (gTurn g)))"
  "gRoundPts (put_card c g) = gRoundPts g" "gTotal (put_card c g) = gTotal g"
  "gTrickNo (put_card c g) = gTrickNo g"
  by (simp_all add: put_card_def Let_def gTrickNo_def)

lemma next_trick_fields [simp]:
  "gScenario (next_trick g) = gScenario g" "gRound (next_trick g) = gRound g"
  "gMode (next_trick g) = gMode g" "gTable (next_trick g) = []" "gHands (next_trick g) = gHands g"
  "gTurn (next_trick g) = winner (gTurn g) (gTable g)"
  "gWon (next_trick g) = gWon g @ [(gTable g, winner (gTurn g) (gTable g))]"
  "gTotal (next_trick g) = gTotal g" "gTrickNo (next_trick g) = Suc (gTrickNo g)"
  by (simp_all add: next_trick_def take_trick_def Let_def gTrickNo_def)

lemma deal_of_kept [simp]: "deal_of (put_card c g) = deal_of g" "deal_of (next_trick g) = deal_of g"
  by (simp_all add: deal_of_def fun_eq_iff)

section \<open>Moves keep the invariants\<close>

lemma all_cards_upd:
  assumes "real_side t" and "c \<in> set (h t)"
  shows "mset (all_cards (h(t := remove1 c (h t)))) + {#c#} = mset (all_cards h)"
  using assms by (cases t) (auto simp: all_cards_def sides_def)

lemma cards_ok_put:
  assumes "cards_ok g" and "real_side (gTurn g)" and "c \<in> set (gHands g (gTurn g))"
  shows "cards_ok (put_card c g)"
  using assms(1)
  unfolding cards_ok_def all_cards_upd [of "gTurn g" c "gHands g", OF assms(2,3), symmetric]
  by (simp add: ac_simps)

lemma cards_ok_next: "cards_ok g \<Longrightarrow> cards_ok (next_trick g)"
  by (simp add: cards_ok_def union_assoc union_commute union_lcomm)

lemma won_ok_put: "won_ok g \<Longrightarrow> won_ok (put_card c g)"
  by (simp add: won_ok_def)

lemma won_ok_next:
  assumes "won_ok g" and "length (gTable g) = 4" and "real_side (gTurn g)"
  shows "won_ok (next_trick g)"
proof -
  have "gRoundPts (next_trick g) = won_points (gMode g) 1 (gWon g @ [(gTable g, winner (gTurn g) (gTable g))])"
    using assms(1)
    by (auto simp: won_ok_def next_trick_def take_trick_def Let_def won_points_snoc gTrickNo_def fun_eq_iff)
  with assms show ?thesis by (auto simp: won_ok_def real_side_winner)
qed

lemma round_started_kept [simp]:
  "round_started (put_card c g) = round_started g" "round_started (next_trick g) = round_started g"
  by (simp_all add: round_started_def)

text \<open>The lengths of the hands while a trick is on: the leader and those after him have played.\<close>

definition lens_ok :: "game \<Rightarrow> side \<Rightarrow> nat \<Rightarrow> bool" where
  "lens_ok g leader k \<longleftrightarrow> real_side leader \<and> gTurn g = seat k leader \<and>
     (\<forall>i < 4. length (gHands g (seat i leader)) =
        TRICKS_PER_ROUND - length (gWon g) - (if i < k then 1 else 0))"

lemma seats_ok_lens:
  "seats_ok g \<longleftrightarrow> length (gTable g) < 4 \<and> length (gWon g) < TRICKS_PER_ROUND \<and>
     (\<exists>leader. lens_ok g leader (length (gTable g)))"
  by (auto simp: seats_ok_def lens_ok_def)

lemma lens_ok_put:
  assumes "lens_ok g leader k" and "k < 4" and "c \<in> set (gHands g (gTurn g))"
  shows "lens_ok (put_card c g) leader (Suc k)"
  unfolding lens_ok_def
proof (intro conjI allI impI)
  show "real_side leader" "gTurn (put_card c g) = seat (Suc k) leader"
    using assms(1) by (simp_all add: lens_ok_def seat_Suc)
  fix i :: nat
  assume i: "i < 4"
  have "seat i leader = seat k leader \<longleftrightarrow> i = k"
    using seat_inj_on [of leader] assms(1,2) i by (auto simp: lens_ok_def inj_on_def)
  then show "length (gHands (put_card c g) (seat i leader)) =
      TRICKS_PER_ROUND - length (gWon (put_card c g)) - (if i < Suc k then 1 else 0)"
    using assms i by (auto simp: lens_ok_def length_remove1 less_Suc_eq)
qed

lemma lens_ok_full:
  assumes "lens_ok g leader 4" and "length (gTable g) = 4"
  shows "gTurn g = leader \<and> (\<forall>t. real_side t \<longrightarrow> length (gHands g t) = TRICKS_PER_ROUND - length (gWon g) - 1)"
proof (intro conjI allI impI)
  show "gTurn g = leader" using assms(1) seat_add4 [of 0 leader] by (simp add: lens_ok_def)
  fix t
  assume "real_side t"
  with assms(1) obtain i where "i < 4" "seat i leader = t"
    using seat_surj [of leader t] by (auto simp: lens_ok_def)
  with assms(1) show "length (gHands g t) = TRICKS_PER_ROUND - length (gWon g) - 1"
    by (auto simp: lens_ok_def)
qed

text \<open>The state of a complete trick.\<close>

definition trick_full :: "game \<Rightarrow> bool" where
  "trick_full g \<longleftrightarrow> round_started g \<and> cards_ok g \<and> won_ok g \<and> length (gTable g) = 4 \<and>
     length (gWon g) < TRICKS_PER_ROUND \<and> real_side (gTurn g) \<and>
     (\<forall>t. real_side t \<longrightarrow> length (gHands g t) = TRICKS_PER_ROUND - length (gWon g) - 1)"

lemma in_round_put:
  assumes "in_round g" and "gLegal t n c g"
  shows "if length (gTable g) < 3 then in_round (put_card c g) else trick_full (put_card c g)"
proof -
  have c: "c \<in> set (gHands g (gTurn g))" using assms(2) by (auto simp: gLegal_def legal_move_def)
  obtain leader where l: "lens_ok g leader (length (gTable g))"
    and len: "length (gTable g) < 4" "length (gWon g) < TRICKS_PER_ROUND"
    using assms(1) by (auto simp: in_round_def seats_ok_lens)
  then have turn: "real_side (gTurn g)" by (simp add: lens_ok_def)
  note kept = cards_ok_put [OF _ turn c] won_ok_put
  have l': "lens_ok (put_card c g) leader (Suc (length (gTable g)))" using lens_ok_put [OF l len(1) c] .
  show ?thesis
  proof (cases "length (gTable g) < 3")
    case True
    with assms(1) l' kept len(2) show ?thesis
      by (auto simp: in_round_def seats_ok_lens intro!: exI [of _ leader])
  next
    case False
    with len have four: "Suc (length (gTable g)) = 4" by simp
    have "lens_ok (put_card c g) leader 4" using l' unfolding four .
    from lens_ok_full [OF this] four assms(1) kept len(2) turn False show ?thesis
      by (auto simp: trick_full_def in_round_def)
  qed
qed

lemma next_trick_full:
  assumes "trick_full g" and "Suc (length (gWon g)) < TRICKS_PER_ROUND"
  shows "in_round (next_trick g)"
proof -
  let ?w = "winner (gTurn g) (gTable g)"
  have w: "real_side ?w" using assms(1) by (simp add: trick_full_def real_side_winner)
  then have "lens_ok (next_trick g) ?w 0" using assms(1) by (simp add: lens_ok_def trick_full_def)
  with assms show ?thesis
    by (auto simp: in_round_def trick_full_def seats_ok_lens cards_ok_next won_ok_next)
qed

text \<open>The last trick of a round: all hands are empty and the tricks hold the deck.\<close>

lemma last_trick:
  assumes "trick_full g" and "Suc (length (gWon g)) = TRICKS_PER_ROUND" and "fair (gScenario g)"
  shows "(\<forall>t. real_side t \<longrightarrow> gHands g t = []) \<and>
         side_sum (gRoundPts (next_trick g)) = round_total (gMode g)"
proof -
  let ?g = "next_trick g"
  have empty: "gHands g t = []" if "real_side t" for t
    using assms(1,2) that by (simp add: trick_full_def flip: length_0_conv)
  then have none: "all_cards (gHands g) = []" by (simp add: all_cards_def sides_def)
  obtain r st s where rnd: "gScenario g ! gRound g = (r, st, s)" by (cases "gScenario g ! gRound g")
  have lt: "gRound g < length (gScenario g)" and mode: "gMode g = r"
    using assms(1) rnd by (simp_all add: trick_full_def round_started_def)
  then have mem: "(r, st, s) \<in> set (gScenario g)" using rnd by (metis nth_mem)
  then have real: "real_round r" and deal: "mset (all_cards (\<lambda>t. get [] t st)) = mset deck"
    using assms(3) by (auto simp: fair_def scenario_ok_def round_ok_def)
  have "cards_ok ?g" and won: "won_ok ?g"
    using assms(1) by (simp_all add: trick_full_def cards_ok_next won_ok_next)
  then have deck: "mset (concat (map fst (gWon ?g))) = mset deck"
    using none deal rnd by (simp add: cards_ok_def deal_of_def [abs_def])
  have "\<forall>w \<in> set (gWon ?g). real_side (snd w)" using won unfolding won_ok_def by fastforce
  then have "side_sum (gRoundPts ?g) = round_penalty r 1 (map fst (gWon ?g))"
    using won mode won_points_sum [of "gWon ?g" r 1] unfolding won_ok_def by simp
  also have "\<dots> = round_total r"
    using deck real assms(2) by (intro round_penalty_total) simp_all
  finally show ?thesis using empty mode by simp
qed

lemma deal_round_fields:
  assumes "gScenario g ! gRound g = (mode, st, starting)"
  shows "gScenario (deal_round g) = gScenario g" "gRound (deal_round g) = gRound g"
    "gMode (deal_round g) = mode" "gHands (deal_round g) = (\<lambda>t. get [] t st)"
    "gTurn (deal_round g) = starting" "gWon (deal_round g) = []" "gTable (deal_round g) = []"
    "gRoundPts (deal_round g) = gRoundPts g" "gTotal (deal_round g) = gTotal g"
  using assms by (simp_all add: deal_round_def)

lemma deal_round_in_round:
  assumes "fair (gScenario g)" and "gRound g < length (gScenario g)" and "gRoundPts g = (\<lambda>t. 0)"
  shows "in_round (deal_round g)"
proof -
  obtain mode st starting where rnd: "gScenario g ! gRound g = (mode, st, starting)"
    by (cases "gScenario g ! gRound g")
  note f = deal_round_fields [OF rnd]
  from rnd assms(2) have "(mode, st, starting) \<in> set (gScenario g)" by (metis nth_mem)
  with assms(1) have ok: "round_ok (mode, st, starting)" by (auto simp: fair_def scenario_ok_def)
  have len: "length (get [] t st) = TRICKS_PER_ROUND" if "real_side t" for t
  proof -
    have "t \<in> dom st" using ok that by (simp add: round_ok_def real_side_def)
    then obtain h where "st t = Some h" by blast
    with ok show ?thesis by (auto simp: round_ok_def get_def dest: ranI)
  qed
  have "lens_ok (deal_round g) starting 0" using ok len by (auto simp: lens_ok_def f round_ok_def)
  moreover have "cards_ok (deal_round g)" by (simp add: cards_ok_def f deal_of_def [abs_def] rnd)
  moreover have "won_ok (deal_round g)" by (simp add: won_ok_def f assms(3) fun_eq_iff)
  ultimately show ?thesis
    using assms(2) by (auto simp: in_round_def round_started_def seats_ok_lens f rnd TRICKS_PER_ROUND_def)
qed

lemma close_round_fields [simp]:
  "gScenario (close_round g) = gScenario g" "gRound (close_round g) = gRound g + 1"
  "gMode (close_round g) = gMode g" "gTable (close_round g) = gTable g"
  "gHands (close_round g) = gHands g" "gTurn (close_round g) = gTurn g"
  "gWon (close_round g) = gWon g" "gRoundPts (close_round g) = (\<lambda>t. 0)"
  "gTotal (close_round g) = (\<lambda>t. gTotal g t + gRoundPts g t)"
  "gTrickNo (close_round g) = gTrickNo g"
  by (simp_all add: close_round_def gTrickNo_def)

lemma spec_move_cases:
  assumes "in_round g" and "gLegal t n c g"
  obtains (card) "length (gTable g) < 3" "spec_move c g = put_card c g" "in_round (put_card c g)"
  | (trick) "length (gTable g) = 3" "Suc (length (gWon g)) < TRICKS_PER_ROUND"
      "spec_move c g = next_trick (put_card c g)" "trick_full (put_card c g)"
  | (last) "length (gTable g) = 3" "Suc (length (gWon g)) = TRICKS_PER_ROUND"
      "gRound g + 1 = length (gScenario g)"
      "spec_move c g = close_round (next_trick (put_card c g))" "trick_full (put_card c g)"
  | (round) "length (gTable g) = 3" "Suc (length (gWon g)) = TRICKS_PER_ROUND"
      "gRound g + 1 < length (gScenario g)"
      "spec_move c g = deal_round (close_round (next_trick (put_card c g)))" "trick_full (put_card c g)"
proof -
  have len: "length (gTable g) < 4" "length (gWon g) < TRICKS_PER_ROUND"
    and rnd: "gRound g < length (gScenario g)"
    using assms(1) by (auto simp: in_round_def seats_ok_def round_started_def)
  note put = in_round_put [OF assms]
  show thesis
  proof (cases "length (gTable g) < 3")
    case True
    with put card show thesis by (simp add: spec_move_def)
  next
    case False
    then have three: "length (gTable g) = 3" using len by simp
    with put have full: "trick_full (put_card c g)" by simp
    consider "Suc (length (gWon g)) < TRICKS_PER_ROUND"
      | "Suc (length (gWon g)) = TRICKS_PER_ROUND" "gRound g + 1 = length (gScenario g)"
      | "Suc (length (gWon g)) = TRICKS_PER_ROUND" "gRound g + 1 < length (gScenario g)"
      using len rnd by linarith
    then show thesis
    proof cases
      case 1
      with three full trick show thesis by (simp add: spec_move_def Let_def)
    next
      case 2
      with three full last show thesis by (simp add: spec_move_def Let_def)
    next
      case 3
      with three full round show thesis by (simp add: spec_move_def Let_def)
    qed
  qed
qed

lemma total_step:
  assumes "trick_full g" and "Suc (length (gWon g)) = TRICKS_PER_ROUND" and "fair (gScenario g)"
    and "side_sum (gTotal g) = sum_list (map (round_total \<circ> fst) (take (gRound g) (gScenario g)))"
  shows "side_sum (gTotal (close_round (next_trick g))) =
    sum_list (map (round_total \<circ> fst) (take (gRound g + 1) (gScenario g)))"
proof -
  have "gRound g < length (gScenario g)" "gMode g = fst (gScenario g ! gRound g)"
    using assms(1) by (simp_all add: trick_full_def round_started_def)
  with last_trick [OF assms(1-3)] assms(4) show ?thesis
    by (simp add: side_sum_add take_Suc_conv_app_nth)
qed

text \<open>A finished game has no legal card.\<close>

lemma game_over_no_move: "game_over g \<Longrightarrow> real_side t \<Longrightarrow> \<not> gLegal t n c g"
  by (auto simp: game_over_def gLegal_def legal_move_def)

lemma in_round_turn: "in_round g \<Longrightarrow> real_side (gTurn g)"
  by (auto simp: in_round_def seats_ok_def)

lemma game_inv_turn: "game_inv g \<Longrightarrow> real_side (gTurn g)"
  by (auto simp: game_inv_def game_over_def in_round_turn)

lemma game_inv_move:
  assumes "game_inv g" and "gLegal t n c g"
  shows "game_inv (spec_move c g)"
proof -
  have t: "real_side t" using assms game_inv_turn by (auto simp: gLegal_def)
  then have round: "in_round g" using assms game_over_no_move by (auto simp: game_inv_def)
  have fair: "fair (gScenario g)"
    and tot: "side_sum (gTotal g) = sum_list (map (round_total \<circ> fst) (take (gRound g) (gScenario g)))"
    using assms(1) by (auto simp: game_inv_def)
  from round assms(2) show ?thesis
  proof (cases rule: spec_move_cases)
    case card
    with fair tot show ?thesis by (simp add: game_inv_def)
  next
    case trick
    with fair tot next_trick_full [of "put_card c g"] show ?thesis by (simp add: game_inv_def)
  next
    case last
    let ?g = "put_card c g"
    have "Suc (length (gWon ?g)) = TRICKS_PER_ROUND" "fair (gScenario ?g)" using last(2) fair by simp_all
    note full = last(5) this
    have "real_side (gTurn ?g)" using last(5) by (simp add: trick_full_def)
    with last_trick [OF full] total_step [OF full] tot last fair show ?thesis
      by (simp add: game_inv_def game_over_def real_side_winner)
  next
    case round
    let ?g = "put_card c g"
    have "Suc (length (gWon ?g)) = TRICKS_PER_ROUND" "fair (gScenario ?g)" using round(2) fair by simp_all
    note full = round(5) this
    let ?h = "close_round (next_trick ?g)"
    obtain mode st s where rnd: "gScenario ?h ! gRound ?h = (mode, st, s)"
      by (cases "gScenario ?h ! gRound ?h")
    have "in_round (deal_round ?h)" using fair round(3) by (intro deal_round_in_round) simp_all
    with total_step [OF full] tot round(4) fair show ?thesis
      by (simp add: game_inv_def deal_round_fields [OF rnd])
  qed
qed

lemma game_inv_start:
  assumes "fair sc" and "sc \<noteq> []"
  shows "game_inv (start_game sc)"
proof -
  let ?g = "\<lparr>gScenario = sc, gRound = 0, gMode = TRICK_PENALTY, gHands = (\<lambda>t. []), gTable = [],
             gTurn = W, gWon = [], gRoundPts = (\<lambda>t. 0), gTotal = (\<lambda>t. 0)\<rparr>"
  obtain mode st s where rnd: "gScenario ?g ! gRound ?g = (mode, st, s)"
    by (cases "gScenario ?g ! gRound ?g")
  have "in_round (deal_round ?g)" using assms by (intro deal_round_in_round) simp_all
  with assms deal_round_fields [OF rnd] show ?thesis
    by (simp add: start_game_def game_inv_def side_sum_def sides_def)
qed

lemma plays_inv: "plays sc g \<Longrightarrow> fair sc \<Longrightarrow> sc \<noteq> [] \<Longrightarrow> game_inv g \<and> gScenario g = sc"
proof (induction rule: plays.induct)
  case start
  have "gScenario (start_game sc) = sc" by (cases "sc ! 0") (simp add: start_game_def deal_round_def)
  with game_inv_start start show ?case by blast
next
  case (move g t n c)
  then have inv: "game_inv g" "gScenario g = sc" by simp_all
  have "gScenario (spec_move c g) = gScenario g"
    by (cases "gScenario g ! (gRound g + 1)") (simp add: spec_move_def Let_def deal_round_def)
  with game_inv_move [OF inv(1) move.hyps(2)] inv show ?case by simp
qed

text \<open>The game never gets stuck before it is over: the side to move has a legal card.\<close>

lemma in_round_legal:
  assumes "in_round g"
  shows "\<exists>c. gLegal (gTurn g) (gTrickNo g) c g"
proof -
  obtain leader where l: "real_side leader" "gTurn g = seat (length (gTable g)) leader"
    and len: "length (gTable g) < 4" "length (gWon g) < TRICKS_PER_ROUND"
    and hands: "\<forall>i < 4. length (gHands g (seat i leader)) =
           TRICKS_PER_ROUND - length (gWon g) - (if i < length (gTable g) then 1 else 0)"
    using assms by (auto simp: in_round_def seats_ok_def)
  from hands len l(2) have "length (gHands g (gTurn g)) = TRICKS_PER_ROUND - length (gWon g)" by simp
  with len have "gHands g (gTurn g) \<noteq> []" by auto
  with ex_legal_move show ?thesis by (auto simp: gLegal_def)
qed

text \<open>How many cards are still to be played; every legal card brings the end nearer.\<close>

definition cards_left :: "game \<Rightarrow> nat" where
  "cards_left g =
     (length (gScenario g) - gRound g) * (4 * TRICKS_PER_ROUND) - (4 * length (gWon g) + length (gTable g))"

lemma cards_left_move:
  assumes "in_round g" and "gLegal t n c g"
  shows "cards_left g = Suc (cards_left (spec_move c g))"
proof -
  have len: "length (gTable g) < 4" "length (gWon g) < TRICKS_PER_ROUND" "gRound g < length (gScenario g)"
    using assms(1) by (auto simp: in_round_def seats_ok_def round_started_def)
  then obtain k where k: "length (gScenario g) - gRound g = Suc k"
    by (metis Suc_diff_Suc)
  then have k': "length (gScenario g) - Suc (gRound g) = k" by simp
  from assms show ?thesis
  proof (cases rule: spec_move_cases)
    case card
    with len k show ?thesis by (simp add: cards_left_def TRICKS_PER_ROUND_def)
  next
    case trick
    with len k show ?thesis by (simp add: cards_left_def TRICKS_PER_ROUND_def)
  next
    case last
    with len k k' show ?thesis by (simp add: cards_left_def TRICKS_PER_ROUND_def)
  next
    case round
    let ?h = "close_round (next_trick (put_card c g))"
    obtain mode st s where rnd: "gScenario ?h ! gRound ?h = (mode, st, s)"
      by (cases "gScenario ?h ! gRound ?h")
    show ?thesis
      using round len k k' deal_round_fields [OF rnd] by (simp add: cards_left_def TRICKS_PER_ROUND_def)
  qed
qed

lemma cards_left_over:
  assumes "game_inv g"
  shows "game_over g \<longleftrightarrow> cards_left g = 0"
proof
  assume "cards_left g = 0"
  have "\<not> in_round g"
  proof
    assume "in_round g"
    with in_round_legal cards_left_move \<open>cards_left g = 0\<close> show False by fastforce
  qed
  with assms show "game_over g" by (simp add: game_inv_def)
qed (simp add: game_over_def cards_left_def)

end
