(* ===== verification/Server_Exec.thy ===== *)
theory Server_Exec
  imports Server Mgr_Exec Game_Spec
begin

text \<open>
  Evaluation of the server's callbacks while no write to a pipe fails: the calls on the manager as
  equations, and \<open>playerTricked\<close> compared with the game of \<^verbatim>\<open>Game_Spec\<close>. \<open>game_of\<close> is the
  abstraction, \<open>post\<close> the messages handed to the workers.
\<close>

section \<open>Abstraction\<close>

fun taken_trick :: "send_job \<Rightarrow> table \<times> side" where
  "taken_trick (SendJobTaken tab t n) = (tab, t)"
| "taken_trick _ = ([], SIDE_NULL)"

definition game_of :: "server \<Rightarrow> game" where
  "game_of s =
     \<lparr>gScenario = gameScenario s, gRound = roundNumber s, gMode = roundMode s,
      gHands = (\<lambda>t. get [] t (hands s)), gTable = table s, gTurn = nextMove s,
      gWon = map taken_trick (takenInRound s), gRoundPts = (\<lambda>t. get 0 t (penaltiesRound s)),
      gTotal = (\<lambda>t. get 0 t (penalties s))\<rparr>"

definition act :: "server \<Rightarrow> side \<Rightarrow> int" where
  "act s t = get 0 t (activeSides s)"

text \<open>Messages with their addressees, as workers and as sides.\<close>

definition post :: "(send_job \<times> int) list \<Rightarrow> server \<Rightarrow> server" where
  "post js s = s\<lparr>workerMgr := deliver js (workerMgr s)\<rparr>"

definition post_sides :: "(send_job \<times> side) list \<Rightarrow> server \<Rightarrow> server" where
  "post_sides js s = post (map (\<lambda>p. (fst p, act s (snd p))) js) s"

lemma game_of_simps [simp]:
  "gScenario (game_of s) = gameScenario s" "gRound (game_of s) = roundNumber s"
  "gMode (game_of s) = roundMode s" "gHands (game_of s) = (\<lambda>t. get [] t (hands s))"
  "gTable (game_of s) = table s" "gTurn (game_of s) = nextMove s"
  "gWon (game_of s) = map taken_trick (takenInRound s)"
  "gRoundPts (game_of s) = (\<lambda>t. get 0 t (penaltiesRound s))"
  "gTotal (game_of s) = (\<lambda>t. get 0 t (penalties s))"
  by (simp_all add: game_of_def)

lemma post_simps [simp]:
  "gameScenario (post js s) = gameScenario s" "workerMgr (post js s) = deliver js (workerMgr s)"
  "activeSides (post js s) = activeSides s" "penalties (post js s) = penalties s"
  "penaltiesRound (post js s) = penaltiesRound s" "hands (post js s) = hands s"
  "nextMove (post js s) = nextMove s" "roundNumber (post js s) = roundNumber s"
  "trickNo (post js s) = trickNo s" "roundMode (post js s) = roundMode s"
  "gameStateMutex (post js s) = gameStateMutex s" "table (post js s) = table s"
  "exitCode (post js s) = exitCode s" "playersConnected (post js s) = playersConnected s"
  "sOwnAddr (post js s) = sOwnAddr s" "lastDeal (post js s) = lastDeal s"
  "takenInRound (post js s) = takenInRound s" "exiting (post js s) = exiting s"
  "sTimeout (post js s) = sTimeout s" "sysLog (post js s) = sysLog s"
  "workerToSide (post js s) = workerToSide s" "zombieWorkerToSide (post js s) = zombieWorkerToSide s"
  "game_of (post js s) = game_of s" "act (post js s) = act s"
  by (simp_all add: post_def game_of_def act_def fun_eq_iff)

lemma post_Nil [simp]: "post [] s = s" "post_sides [] s = s"
  by (simp_all add: post_def post_sides_def)

lemma post_post [simp]: "post ys (post xs s) = post (xs @ ys) s"
  by (simp add: post_def)

lemma post_sides_simps [simp]:
  "roles (workerMgr (post_sides js s)) = roles (workerMgr s)"
  "gameScenario (post_sides js s) = gameScenario s" "activeSides (post_sides js s) = activeSides s"
  "penalties (post_sides js s) = penalties s" "penaltiesRound (post_sides js s) = penaltiesRound s"
  "hands (post_sides js s) = hands s" "nextMove (post_sides js s) = nextMove s"
  "roundNumber (post_sides js s) = roundNumber s" "trickNo (post_sides js s) = trickNo s"
  "roundMode (post_sides js s) = roundMode s" "gameStateMutex (post_sides js s) = gameStateMutex s"
  "table (post_sides js s) = table s" "exitCode (post_sides js s) = exitCode s"
  "playersConnected (post_sides js s) = playersConnected s" "sOwnAddr (post_sides js s) = sOwnAddr s"
  "lastDeal (post_sides js s) = lastDeal s" "takenInRound (post_sides js s) = takenInRound s"
  "exiting (post_sides js s) = exiting s" "sTimeout (post_sides js s) = sTimeout s"
  "sysLog (post_sides js s) = sysLog s" "workerToSide (post_sides js s) = workerToSide s"
  "zombieWorkerToSide (post_sides js s) = zombieWorkerToSide s"
  "game_of (post_sides js s) = game_of s" "act (post_sides js s) = act s"
  by (simp_all add: post_sides_def)

lemma post_sides_post_sides [simp]: "post_sides ys (post_sides xs s) = post_sides (xs @ ys) s"
  by (simp add: post_sides_def)

section \<open>Calls on the manager\<close>

lemma mgr_op_eq: "(\<And>cb. f cb (workerMgr s) = Inr m) \<Longrightarrow> mgr_op wr f s = Inr (s\<lparr>workerMgr := m\<rparr>)"
  by (simp add: mgr_op_def)

lemma send_to_eq:
  "mgr_free (workerMgr s) \<Longrightarrow> known (workerMgr s) ix \<Longrightarrow>
   send_to no_write_error j ix s = Inr (post [(j, ix)] s)"
  unfolding send_to_def post_def by (rule mgr_op_eq) (rule sendJob_deliver)

text \<open>The side has a worker.\<close>

definition seated :: "server \<Rightarrow> side \<Rightarrow> bool" where
  "seated s t \<longleftrightarrow> activeSides s t \<noteq> None \<and> known (workerMgr s) (act s t)"

lemma seated_post [simp]: "seated (post js s) t = seated s t" "seated (post_sides ks s) t = seated s t"
  by (simp_all add: seated_def post_sides_def)

lemma mgr_free_post_sides [simp]:
  "mgr_free (workerMgr (post_sides js s)) = mgr_free (workerMgr s)"
  by (simp add: post_sides_def)

lemma send_side_eq:
  "mgr_free (workerMgr s) \<Longrightarrow> seated s t \<Longrightarrow>
   send_side no_write_error j t s = Inr (post_sides [(j, t)] s)"
  using send_to_eq [of s "act s t" j]
  by (auto simp: send_side_def seated_def touch_dom act_def post_sides_def)

definition table_full :: "server \<Rightarrow> bool" where
  "table_full s \<longleftrightarrow> mgr_free (workerMgr s) \<and> (\<forall>t. real_side t \<longrightarrow> seated s t)"

lemma table_full_post [simp]: "table_full (post_sides js s) = table_full s"
  by (simp add: table_full_def)

lemma table_full_side: "table_full s \<Longrightarrow> real_side t \<Longrightarrow>
   send_side no_write_error j t s = Inr (post_sides [(j, t)] s)"
  by (simp add: table_full_def send_side_eq)

lemma sides_real: "real_side N" "real_side S" "real_side W" "real_side E"
  by simp_all

lemma send_sides_eq: "table_full s \<Longrightarrow>
   send_sides no_write_error j s = Inr (post_sides (to_all (\<lambda>t. [j])) s)"
  by (simp add: send_sides_def sides_def table_full_side to_all_def)

lemma send_scores_eq: "table_full s \<Longrightarrow>
   send_scores no_write_error a b s = Inr (post_sides (to_all (\<lambda>t. [a, b])) s)"
  by (simp add: send_scores_def sides_def table_full_side to_all_def)

lemma hands_same: "hands s = h \<Longrightarrow> s\<lparr>hands := h\<rparr> = s"
  by (cases s) auto

lemma send_deals_eq: "table_full s \<Longrightarrow> dom (hands s) = set sides \<Longrightarrow>
   send_deals no_write_error s = Inr (post_sides (deal_msgs (game_of s)) s)"
  by (simp add: send_deals_def sides_def table_full_side to_all_def deal_msgs_def touch_dom hands_same)

lemma send_trick_eq: "table_full s \<Longrightarrow> real_side (nextMove s) \<Longrightarrow>
   gTrickNo (game_of s) = trickNo s \<Longrightarrow>
   send_trick no_write_error s = Inr (post_sides (trick_msg (game_of s)) s)"
  by (simp add: send_trick_def table_full_side trick_msg_def)

definition finalized :: "server \<Rightarrow> server" where
  "finalized s = (if exiting s then s
     else s\<lparr>exiting := True, workerMgr := kill_all (raise_flag (workerMgr s))\<rparr>)"

lemma finalize_eq: "mgr_free (workerMgr s) \<Longrightarrow> finalize no_write_error s = Inr (finalized s)"
  by (simp add: finalize_def finalized_def mgr_exec Let_def)

lemma finalized_simps [simp]:
  "gameScenario (finalized s) = gameScenario s" "activeSides (finalized s) = activeSides s"
  "penalties (finalized s) = penalties s" "penaltiesRound (finalized s) = penaltiesRound s"
  "hands (finalized s) = hands s" "nextMove (finalized s) = nextMove s"
  "roundNumber (finalized s) = roundNumber s" "trickNo (finalized s) = trickNo s"
  "roundMode (finalized s) = roundMode s" "gameStateMutex (finalized s) = gameStateMutex s"
  "table (finalized s) = table s" "exitCode (finalized s) = exitCode s"
  "playersConnected (finalized s) = playersConnected s" "lastDeal (finalized s) = lastDeal s"
  "takenInRound (finalized s) = takenInRound s" "exiting (finalized s)"
  "workerToSide (finalized s) = workerToSide s" "zombieWorkerToSide (finalized s) = zombieWorkerToSide s"
  "game_of (finalized s) = game_of s" "act (finalized s) = act s"
  "roles (workerMgr (finalized s)) = roles (workerMgr s)"
  "known (workerMgr (finalized s)) = known (workerMgr s)"
  "inbox (workerMgr (finalized s)) = inbox (workerMgr s)"
  "mgr_free (workerMgr (finalized s)) = mgr_free (workerMgr s)"
  "pool_inv (workerMgr (finalized s)) = pool_inv (workerMgr s)"
  by (simp_all add: finalized_def game_of_def act_def fun_eq_iff)

section \<open>The end of a round\<close>

lemma updatePenalties_eq:
  assumes "dom (penalties s) \<subseteq> set sides" and "dom (penaltiesRound s) \<subseteq> set sides"
  shows "updatePenalties s =
     s\<lparr>penalties := score_of (\<lambda>t. get 0 t (penalties s) + get 0 t (penaltiesRound s)),
       penaltiesRound := score_of (\<lambda>t. get 0 t (penaltiesRound s))\<rparr>"
proof -
  have out: "penalties s t = None" "penaltiesRound s t = None" if "\<not> real_side t" for t
    using assms that by (auto simp: real_side_def)
  have pen: "(penalties s)(N \<mapsto> get 0 N (penalties s) + get 0 N (penaltiesRound s),
      S \<mapsto> get 0 S (penalties s) + get 0 S (penaltiesRound s),
      W \<mapsto> get 0 W (penalties s) + get 0 W (penaltiesRound s),
      E \<mapsto> get 0 E (penalties s) + get 0 E (penaltiesRound s)) =
      score_of (\<lambda>t. get 0 t (penalties s) + get 0 t (penaltiesRound s))"
    using out by (auto simp: score_of_def fun_eq_iff elim!: real_side_cases)
  have rnd: "touch 0 E (touch 0 W (touch 0 S (touch 0 N (penaltiesRound s)))) =
      score_of (\<lambda>t. get 0 t (penaltiesRound s))"
    using out by (auto simp: score_of_def fun_eq_iff touch_def get_def elim!: real_side_cases)
  have g: "get 0 t (touch 0 u m) = get 0 t m" "get 0 t (m(u \<mapsto> v)) = (if t = u then v else get 0 t m)"
    for t u :: side and m :: score_map and v
    by (simp_all add: touch_def get_def)
  show ?thesis
    using pen rnd by (simp add: updatePenalties_def sides_def g)
qed

lemma clearTmpPenalties_eq:
  assumes "dom (penaltiesRound s) \<subseteq> set sides"
  shows "clearTmpPenalties s = s\<lparr>penaltiesRound := score_of (\<lambda>t. 0)\<rparr>"
proof -
  have "(penaltiesRound s)(N \<mapsto> 0, S \<mapsto> 0, W \<mapsto> 0, E \<mapsto> 0) = score_of (\<lambda>t. 0)"
    using assms by (auto simp: score_of_def fun_eq_iff real_side_def elim!: real_side_cases)
  then show ?thesis by (simp add: clearTmpPenalties_def sides_def)
qed

lemma dom_score_of [simp]: "dom (score_of f) = set sides"
  by (auto simp: score_of_def real_side_def split: if_splits)

lemma get_score_of: "get 0 t (score_of f) = (if real_side t then f t else 0)"
  by (simp add: score_of_def get_def)

text \<open>The game's part of the state is in shape.\<close>

definition taken_jobs :: "(table \<times> side) list \<Rightarrow> send_job list" where
  "taken_jobs ws = map (\<lambda>i. SendJobTaken (fst (ws ! i)) (snd (ws ! i)) (int (Suc i))) [0..<length ws]"

lemma length_taken_jobs [simp]: "length (taken_jobs ws) = length ws"
  by (simp add: taken_jobs_def)

lemma taken_trick_jobs [simp]: "map taken_trick (taken_jobs ws) = ws"
  by (rule nth_equalityI) (simp_all add: taken_jobs_def)

lemma taken_jobs_snoc: "taken_jobs (ws @ [(tab, t)]) = taken_jobs ws @ [SendJobTaken tab t (int (Suc (length ws)))]"
  by (simp add: taken_jobs_def nth_append)

definition game_shape :: "server \<Rightarrow> bool" where
  "game_shape s \<longleftrightarrow>
     dom (hands s) = set sides \<and> dom (penalties s) \<subseteq> set sides \<and>
     dom (penaltiesRound s) \<subseteq> set sides \<and> trickNo s = Suc (length (takenInRound s)) \<and>
     takenInRound s = taken_jobs (gWon (game_of s))"

lemma game_shape_post [simp]: "game_shape (post_sides js s) = game_shape s"
  by (simp add: game_shape_def)

lemma game_shape_trickNo: "game_shape s \<Longrightarrow> gTrickNo (game_of s) = trickNo s"
  by (simp add: game_shape_def gTrickNo_def)

definition taken_state :: "server \<Rightarrow> server" where
  "taken_state s =
     (let w = winner (nextMove s) (table s) in
      s\<lparr>nextMove := w,
        penaltiesRound := (penaltiesRound s)(w \<mapsto> get 0 w (penaltiesRound s)
           + penalty (roundMode s) (table s) (trickNo s)),
        trickNo := trickNo s + 1, table := [],
        takenInRound := takenInRound s @ [SendJobTaken (table s) w (int (trickNo s))]\<rparr>)"

definition closed_state :: "server \<Rightarrow> server" where
  "closed_state s =
     s\<lparr>penalties := score_of (\<lambda>t. get 0 t (penalties s) + get 0 t (penaltiesRound s)),
       penaltiesRound := score_of (\<lambda>t. 0), roundNumber := roundNumber s + 1\<rparr>"

definition dealt_state :: "server \<Rightarrow> server" where
  "dealt_state s =
     (case gameScenario s ! roundNumber s of (mode, st, starting) \<Rightarrow>
        s\<lparr>roundMode := mode, hands := st, nextMove := starting, trickNo := 1, takenInRound := [],
          lastDeal := st\<rparr>)"

definition put_state :: "card \<Rightarrow> server \<Rightarrow> server" where
  "put_state c s =
     s\<lparr>table := table s @ [c],
       hands := (hands s)(nextMove s \<mapsto> remove1 c (get [] (nextMove s) (hands s))),
       nextMove := nxt (nextMove s)\<rparr>"

lemma hands_dealt: "hands (dealt_state s) = fst (snd (gameScenario s ! roundNumber s))"
  by (simp add: dealt_state_def split: prod.splits)

lemma nextMove_dealt: "nextMove (dealt_state s) = snd (snd (gameScenario s ! roundNumber s))"
  by (simp add: dealt_state_def split: prod.splits)

lemmas game_states = taken_state_def closed_state_def dealt_state_def put_state_def

text \<open>What is not the game's part: nothing of it changes while a card is played.\<close>

definition same_conn :: "server \<Rightarrow> server \<Rightarrow> bool" where
  "same_conn s s' \<longleftrightarrow>
     workerMgr s' = workerMgr s \<and> activeSides s' = activeSides s \<and>
     gameStateMutex s' = gameStateMutex s \<and> exitCode s' = exitCode s \<and>
     playersConnected s' = playersConnected s \<and> sOwnAddr s' = sOwnAddr s \<and> exiting s' = exiting s \<and>
     sTimeout s' = sTimeout s \<and> sysLog s' = sysLog s \<and> workerToSide s' = workerToSide s \<and>
     zombieWorkerToSide s' = zombieWorkerToSide s \<and> gameScenario s' = gameScenario s"

lemma same_conn_states:
  "same_conn s (taken_state s)" "same_conn s (closed_state s)" "same_conn s (dealt_state s)"
  "same_conn s (put_state c s)"
  by (simp_all add: same_conn_def game_states Let_def split: prod.splits)

lemma same_conn_trans: "same_conn a b \<Longrightarrow> same_conn b c \<Longrightarrow> same_conn a c"
  by (simp add: same_conn_def)

lemma same_conn_act: "same_conn s s' \<Longrightarrow> act s' = act s"
  unfolding act_def by (rule ext) (simp add: same_conn_def)

lemma same_conn_full: "same_conn s s' \<Longrightarrow> table_full s' = table_full s"
  by (simp add: table_full_def seated_def same_conn_act) (simp add: same_conn_def)

lemma table_full_states [simp]:
  "table_full (taken_state s) = table_full s" "table_full (closed_state s) = table_full s"
  "table_full (dealt_state s) = table_full s" "table_full (put_state c s) = table_full s"
  using same_conn_states same_conn_full by blast+

text \<open>The states refine the moves of the game.\<close>

lemma game_of_put: "game_of (put_state c s) = put_card c (game_of s)"
  by (simp add: game_of_def put_state_def put_card_def Let_def fun_eq_iff get_def)

lemma game_of_taken:
  "game_shape s \<Longrightarrow> game_of (taken_state s) = next_trick (game_of s)"
  by (auto simp: game_of_def taken_state_def next_trick_def take_trick_def Let_def gTrickNo_def
      fun_eq_iff get_def game_shape_def)

lemma game_of_closed:
  assumes "game_shape s"
  shows "game_of (closed_state s) = close_round (game_of s)"
proof -
  have "get 0 t (penalties s) = 0" "get 0 t (penaltiesRound s) = 0" if "\<not> real_side t" for t
    using assms that by (auto simp: game_shape_def real_side_def get_def domIff split: option.splits)
  then show ?thesis
    by (auto simp: game_of_def closed_state_def close_round_def fun_eq_iff get_score_of)
qed

lemma game_of_dealt: "table s = [] \<Longrightarrow> game_of (dealt_state s) = deal_round (game_of s)"
  by (auto simp: game_of_def dealt_state_def deal_round_def split: prod.splits)

section \<open>A card is played\<close>

definition score_msgs :: "server \<Rightarrow> (send_job \<times> side) list" where
  "score_msgs s =
     to_all (\<lambda>t. [SendJobScore (score_of (\<lambda>t. get 0 t (penaltiesRound s))),
                  SendJobTotal (score_of (\<lambda>t. get 0 t (penalties s) + get 0 t (penaltiesRound s)))])"

lemma score_msgs_post [simp]: "score_msgs (post_sides js s) = score_msgs s"
  by (simp add: score_msgs_def)

lemma penalties_same_conn: "same_conn s (s\<lparr>penalties := a, penaltiesRound := b\<rparr>)"
  by (simp add: same_conn_def)

lemma prepareRound_eq:
  "roundNumber s < length (gameScenario s) \<Longrightarrow>
   \<exists>s'. prepareRound s = Inr s' \<and> s'\<lparr>lastDeal := hands s'\<rparr> = dealt_state s"
  by (auto simp: prepareRound_def dealt_state_def split: prod.splits)

lemma post_push:
  "(post_sides js s)\<lparr>penaltiesRound := b\<rparr> = post_sides js (s\<lparr>penaltiesRound := b\<rparr>)"
  "(post_sides js s)\<lparr>roundNumber := n\<rparr> = post_sides js (s\<lparr>roundNumber := n\<rparr>)"
  "(post_sides js s)\<lparr>takenInRound := x\<rparr> = post_sides js (s\<lparr>takenInRound := x\<rparr>)"
  by (simp_all add: post_sides_def post_def act_def)

lemma dealt_post: "dealt_state (post_sides js s) = post_sides js (dealt_state s)"
  by (simp add: post_sides_def post_def act_def dealt_state_def split: prod.splits)

lemma end_round_eq:
  assumes full: "table_full s" and shape: "game_shape s"
    and lt: "roundNumber s < length (gameScenario s)"
    and deal: "Suc (roundNumber s) < length (gameScenario s) \<Longrightarrow>
       dom (fst (snd (gameScenario s ! Suc (roundNumber s)))) = set sides"
  shows "end_round no_write_error s =
    (if Suc (roundNumber s) = length (gameScenario s)
     then Inr (True, finalized (post_sides (score_msgs s) (closed_state s)))
     else Inr (False, post_sides (score_msgs s @ deal_msgs (game_of (dealt_state (closed_state s))))
            (dealt_state (closed_state s))))"
proof -
  let ?pen = "score_of (\<lambda>t. get 0 t (penalties s) + get 0 t (penaltiesRound s))"
  let ?rnd = "score_of (\<lambda>t. get 0 t (penaltiesRound s))"
  let ?s1 = "s\<lparr>penalties := ?pen, penaltiesRound := ?rnd\<rparr>"
  have upd: "updatePenalties s = ?s1"
    using shape by (intro updatePenalties_eq) (simp_all add: game_shape_def)
  have full1: "table_full ?s1" using full same_conn_full [OF penalties_same_conn] by simp
  let ?s2 = "post_sides (score_msgs s) ?s1"
  have scores: "send_scores no_write_error (SendJobScore ?rnd) (SendJobTotal ?pen) ?s1 = Inr ?s2"
    using send_scores_eq [OF full1] by (simp add: score_msgs_def)
  have clear: "clearTmpPenalties ?s2 = ?s2\<lparr>penaltiesRound := score_of (\<lambda>t. 0)\<rparr>"
    by (rule clearTmpPenalties_eq) simp
  let ?s4 = "post_sides (score_msgs s) (closed_state s)"
  have full4: "table_full ?s4" using full by simp
  then have free: "mgr_free (workerMgr ?s4)" by (simp add: table_full_def)
  note start = end_round_def Let_def upd scores clear post_push
  show ?thesis
  proof (cases "Suc (roundNumber s) = length (gameScenario s)")
    case True
    with finalize_eq [OF free] show ?thesis
      by (simp add: start closed_state_def)
  next
    case False
    with lt have nxt_lt: "roundNumber ?s4 < length (gameScenario ?s4)" by (simp add: closed_state_def)
    then obtain s5 where s5: "prepareRound ?s4 = Inr s5" "s5\<lparr>lastDeal := hands s5\<rparr> = dealt_state ?s4"
      using prepareRound_eq by blast
    have "dom (hands (dealt_state ?s4)) = set sides"
      using deal nxt_lt by (simp add: hands_dealt closed_state_def)
    with full4 have "send_deals no_write_error (dealt_state ?s4) =
        Inr (post_sides (deal_msgs (game_of (dealt_state ?s4))) (dealt_state ?s4))"
      by (intro send_deals_eq) simp_all
    with s5 False show ?thesis
      by (simp add: start closed_state_def dealt_post)
  qed
qed

definition taken_msgs :: "server \<Rightarrow> (send_job \<times> side) list" where
  "taken_msgs s =
     to_all (\<lambda>t. [SendJobTaken (table s) (winner (nextMove s) (table s)) (int (trickNo s))])"

lemma end_trick_eq:
  assumes full: "table_full s" and side: "real_side (nextMove s)" and mode: "real_round (roundMode s)"
    and four: "length (table s) = 4"
  shows "end_trick no_write_error s =
    (if trickNo s = TRICKS_PER_ROUND
     then end_round no_write_error (post_sides (taken_msgs s) (taken_state s))
     else Inr (False, post_sides (taken_msgs s) (taken_state s)))"
proof -
  let ?w = "winner (nextMove s) (table s)"
  let ?pen = "penalty (roundMode s) (table s) (trickNo s)"
  let ?s2 = "s\<lparr>nextMove := ?w, penaltiesRound := (penaltiesRound s)(?w \<mapsto> get 0 ?w (penaltiesRound s) + ?pen),
               trickNo := trickNo s + 1, table := []\<rparr>"
  have who: "whoTakes (nextMove s) (table s) (roundMode s) (trickNo s) = Inr (?w, ?pen)"
    using side mode four by (simp add: whoTakes_winner)
  have "same_conn s ?s2" by (simp add: same_conn_def)
  then have full2: "table_full ?s2" using full same_conn_full by blast
  have send: "send_sides no_write_error (SendJobTaken (table s) ?w (int (trickNo s))) ?s2 =
      Inr (post_sides (taken_msgs s) ?s2)"
    using send_sides_eq [OF full2] by (simp add: taken_msgs_def)
  show ?thesis
    using send by (simp add: end_trick_def who Let_def post_push taken_state_def)
qed

section \<open>The move as a whole\<close>

lemma fair_cards:
  assumes "fair (gScenario g)" and "in_round g" and "real_side t" and "x \<in> set (gHands g t)"
  shows "game_card x"
proof -
  obtain r st s where rnd: "gScenario g ! gRound g = (r, st, s)" by (cases "gScenario g ! gRound g")
  have "gRound g < length (gScenario g)" using assms(2) by (simp add: in_round_def round_started_def)
  then have "(r, st, s) \<in> set (gScenario g)" using rnd by (metis nth_mem)
  then have "mset (all_cards (deal_of g)) = mset deck"
    using assms(1) rnd by (auto simp: fair_def deal_of_def [abs_def])
  then have "set_mset (mset (all_cards (gHands g))) \<subseteq> set deck"
    using assms(2) unfolding in_round_def cards_ok_def by (metis set_mset_mset set_mset_union sup_ge1 le_supE)
  moreover have "x \<in> set (all_cards (gHands g))"
    using assms(3,4) by (cases t) (auto simp: all_cards_def sides_def)
  ultimately show ?thesis by (auto simp: set_deck)
qed

lemma fair_deal:
  assumes "fair sc" and "i < length sc"
  shows "dom (fst (snd (sc ! i))) = set sides" "real_round (fst (sc ! i))"
    "real_side (snd (snd (sc ! i)))"
proof -
  obtain r st s where x: "sc ! i = (r, st, s)" by (cases "sc ! i")
  then have "(r, st, s) \<in> set sc" using assms(2) by (metis nth_mem)
  then have "round_ok (r, st, s)" using assms(1) by (auto simp: fair_def scenario_ok_def)
  with x show "dom (fst (snd (sc ! i))) = set sides" "real_round (fst (sc ! i))"
    "real_side (snd (snd (sc ! i)))"
    by (simp_all add: round_ok_def)
qed

lemma put_code:
  assumes "\<forall>x \<in> set (get [] (nextMove s) (hands s)). wf_card x" and "wf_card c"
  shows "s\<lparr>table := table s @ [c],
           hands := (hands s)(nextMove s \<mapsto> rmCardIfPresent (get [] (nextMove s) (hands s)) c),
           nextMove := nxt (nextMove s)\<rparr> = put_state c s"
  using assms by (simp add: put_state_def rmCardIfPresent_remove1)

lemma game_shape_put:
  "game_shape s \<Longrightarrow> real_side (nextMove s) \<Longrightarrow> game_shape (put_state c s)"
  by (auto simp: game_shape_def put_state_def real_side_def insert_absorb)

lemma game_shape_taken:
  assumes "game_shape s" and "real_side (nextMove s)"
  shows "game_shape (taken_state s)"
proof -
  have "real_side (winner (nextMove s) (table s))" using assms(2) by (rule real_side_winner)
  moreover have "takenInRound (taken_state s) = taken_jobs (gWon (game_of (taken_state s)))"
  proof -
    define w where "w = winner (nextMove s) (table s)"
    define ws where "ws = gWon (game_of s)"
    have "takenInRound s = taken_jobs ws" "trickNo s = Suc (length ws)"
      using assms(1) by (simp_all add: game_shape_def ws_def)
    moreover have "gWon (game_of (taken_state s)) = ws @ [(table s, w)]"
      using assms(1) by (simp add: game_of_taken ws_def w_def)
    ultimately show ?thesis
      by (simp add: taken_jobs_snoc) (simp add: taken_state_def Let_def w_def)
  qed
  ultimately show ?thesis
    using assms(1) by (auto simp: game_shape_def taken_state_def Let_def real_side_def)
qed

lemma game_shape_closed: "game_shape s \<Longrightarrow> game_shape (closed_state s)"
  by (simp add: game_shape_def closed_state_def)

lemma game_shape_dealt:
  assumes "game_shape s" and "fair (gameScenario s)" and "roundNumber s < length (gameScenario s)"
  shows "game_shape (dealt_state s)"
proof -
  have "dom (hands (dealt_state s)) = set sides" using fair_deal(1) [OF assms(2,3)] by (simp add: hands_dealt)
  moreover have "penalties (dealt_state s) = penalties s" "penaltiesRound (dealt_state s) = penaltiesRound s"
    "trickNo (dealt_state s) = 1" "takenInRound (dealt_state s) = []"
    by (simp_all add: dealt_state_def split: prod.splits)
  ultimately show ?thesis using assms(1) by (simp add: game_shape_def taken_jobs_def)
qed

text \<open>The hands last dealt, which a player who comes back is shown.\<close>

definition last_deal :: "server \<Rightarrow> table_state" where
  "last_deal s = fst (snd (gameScenario s ! min (roundNumber s) (length (gameScenario s) - 1)))"

lemma play_card_refines:
  assumes full: "table_full s" and shape: "game_shape s" and inv: "game_inv (game_of s)"
    and legal: "gLegal t n c (game_of s)" and t: "real_side t" and last: "lastDeal s = last_deal s"
  shows "\<exists>s1. play_card no_write_error c t s =
     Inr (True, (if roundNumber s1 = length (gameScenario s1) then finalized else id)
                 (post_sides (spec_msgs c (game_of s)) s1)) \<and>
     same_conn s s1 \<and> game_of s1 = spec_move c (game_of s) \<and> game_shape s1 \<and> lastDeal s1 = last_deal s1"
proof -
  let ?g = "game_of s"
  have turn: "nextMove s = t" and c: "c \<in> set (get [] t (hands s))"
    using legal by (auto simp: gLegal_def legal_move_def)
  have fair: "fair (gameScenario s)" using inv by (simp add: game_inv_def)
  have round: "in_round ?g" using inv legal t game_over_no_move by (auto simp: game_inv_def)
  have lt: "roundNumber s < length (gameScenario s)" and mode: "roundMode s = fst (gameScenario s ! roundNumber s)"
    using round by (simp_all add: in_round_def round_started_def)
  have len: "length (table s) < 4" "length (takenInRound s) < TRICKS_PER_ROUND"
    using round by (simp_all add: in_round_def seats_ok_def)
  have wf: "\<forall>x \<in> set (get [] t (hands s)). wf_card x"
    using fair_cards [of ?g t] fair round t by (auto simp: game_card_wf)
  let ?p = "put_state c s"
  have put: "s\<lparr>table := table s @ [c], hands := (hands s)(t \<mapsto> rmCardIfPresent (get [] t (hands s)) c),
      nextMove := nxt t\<rparr> = ?p"
    using put_code [of s c] wf c turn by simp
  have pshape: "game_shape ?p" and pfull: "table_full ?p" and pturn: "nextMove ?p = nxt t"
    and pgame: "game_of ?p = put_card c ?g" and ptab: "table ?p = table s @ [c]"
    using shape full t turn by (simp_all add: game_shape_put game_of_put) (simp_all add: put_state_def)
  have code: "play_card no_write_error c t s =
      bindE (if length (table ?p) = 4 then end_trick no_write_error ?p else Inr (False, ?p)) (\<lambda>(returned, s3).
         if returned then Inr (True, s3)
         else bindE (send_trick no_write_error s3) (\<lambda>s4. Inr (True, s4)))"
    using t put by (simp add: play_card_def Let_def nxtSide_real turn ptab)
  have p_other: "roundNumber ?p = roundNumber s" "gameScenario ?p = gameScenario s"
    "takenInRound ?p = takenInRound s" "trickNo ?p = trickNo s" "roundMode ?p = roundMode s"
    "lastDeal ?p = lastDeal s" "last_deal ?p = last_deal s"
    by (simp_all add: put_state_def last_deal_def)
  show ?thesis
  proof (cases "length (table s) = 3")
    case False
    with len have short: "length (table ?p) \<noteq> 4" and three: "length (table s) < 3" by (simp_all add: ptab)
    have move: "spec_move c ?g = put_card c ?g" "spec_msgs c ?g = trick_msg (put_card c ?g)"
      using three by (simp_all add: spec_move_def spec_msgs_def)
    have "send_trick no_write_error ?p = Inr (post_sides (trick_msg (game_of ?p)) ?p)"
      using pfull pshape t pturn by (intro send_trick_eq) (simp_all add: game_shape_trickNo)
    with code short move lt have "play_card no_write_error c t s = Inr (True,
        (if roundNumber ?p = length (gameScenario ?p) then finalized else id) (post_sides (spec_msgs c ?g) ?p))"
      by (simp add: pgame p_other)
    then show ?thesis using pshape pgame move last same_conn_states(4) p_other by metis
  next
    case True
    then have four: "length (table ?p) = 4" by (simp add: ptab)
    let ?k = "taken_state ?p"
    have rr: "real_round (roundMode ?p)" using fair_deal(2) [OF fair lt] mode by (simp add: p_other)
    have et: "end_trick no_write_error ?p =
      (if trickNo ?p = TRICKS_PER_ROUND then end_round no_write_error (post_sides (taken_msgs ?p) ?k)
       else Inr (False, post_sides (taken_msgs ?p) ?k))"
      using pfull t pturn rr four by (intro end_trick_eq) simp_all
    have kgame: "game_of ?k = next_trick (put_card c ?g)" using game_of_taken [OF pshape] pgame by simp
    have kshape: "game_shape ?k" using pshape t pturn by (intro game_shape_taken) simp_all
    have k_other: "roundNumber ?k = roundNumber s" "gameScenario ?k = gameScenario s"
      "lastDeal ?k = lastDeal s" "last_deal ?k = last_deal s" "table ?k = []"
      by (simp_all add: taken_state_def Let_def p_other last_deal_def)
    have kside: "real_side (nextMove ?k)"
      using t pturn by (simp add: taken_state_def Let_def real_side_winner)
    have conn: "same_conn s ?k" using same_conn_states same_conn_trans by blast
    have no: "trickNo ?p = Suc (length (gWon ?g))" using shape by (simp add: game_shape_def p_other)
    have tmsg: "taken_msgs ?p = to_all (\<lambda>t. [SendJobTaken (gTable (put_card c ?g))
        (gTurn (next_trick (put_card c ?g))) (int (gTrickNo (put_card c ?g)))])"
      using ptab pturn turn shape by (simp add: taken_msgs_def p_other game_shape_trickNo)
    show ?thesis
    proof (cases "Suc (length (gWon ?g)) = TRICKS_PER_ROUND")
      case False
      with len have more: "Suc (length (gWon ?g)) < TRICKS_PER_ROUND" by simp
      have move: "spec_move c ?g = game_of ?k" "spec_msgs c ?g = taken_msgs ?p @ trick_msg (game_of ?k)"
        using True more by (simp_all add: spec_move_def spec_msgs_def Let_def kgame tmsg)
      have "send_trick no_write_error (post_sides (taken_msgs ?p) ?k) =
          Inr (post_sides (trick_msg (game_of ?k)) (post_sides (taken_msgs ?p) ?k))"
        using pfull kshape kside
        by (subst send_trick_eq) (simp_all add: game_shape_trickNo)
      with code four et no False lt move have "play_card no_write_error c t s = Inr (True,
          (if roundNumber ?k = length (gameScenario ?k) then finalized else id) (post_sides (spec_msgs c ?g) ?k))"
        by (simp add: k_other)
      then show ?thesis using kshape move last conn k_other by metis
    next
      case last_one: True
      let ?q = "post_sides (taken_msgs ?p) ?k"
      have er: "end_round no_write_error ?q =
        (if Suc (roundNumber ?q) = length (gameScenario ?q)
         then Inr (True, finalized (post_sides (score_msgs ?q) (closed_state ?q)))
         else Inr (False, post_sides (score_msgs ?q @ deal_msgs (game_of (dealt_state (closed_state ?q))))
                (dealt_state (closed_state ?q))))"
        using pfull kshape lt fair_deal(1) [OF fair]
        by (intro end_round_eq) (simp_all add: k_other)
      let ?c = "closed_state ?k"
      have cq: "closed_state ?q = post_sides (taken_msgs ?p) ?c"
        by (simp add: closed_state_def post_sides_def post_def act_def)
      have smsg: "score_msgs ?k = to_all (\<lambda>t. [SendJobScore (score_of (gRoundPts (game_of ?k))),
          SendJobTotal (score_of (gTotal (close_round (game_of ?k))))])"
        by (simp add: score_msgs_def)
      have cgame: "game_of ?c = close_round (game_of ?k)" using game_of_closed [OF kshape] .
      have cshape: "game_shape ?c" using kshape by (rule game_shape_closed)
      have c_other: "roundNumber ?c = Suc (roundNumber s)" "gameScenario ?c = gameScenario s"
        "lastDeal ?c = lastDeal s" "table ?c = []"
        by (simp_all add: closed_state_def k_other)
      have cconn: "same_conn s ?c" using conn same_conn_states same_conn_trans by blast
      show ?thesis
      proof (cases "Suc (roundNumber s) = length (gameScenario s)")
        case True
        have move: "spec_move c ?g = game_of ?c" "spec_msgs c ?g = taken_msgs ?p @ score_msgs ?k"
          using \<open>length (table s) = 3\<close> last_one True
          by (simp_all add: spec_move_def spec_msgs_def Let_def cgame kgame tmsg smsg)
        have "last_deal ?c = last_deal s" using True [symmetric] by (simp add: last_deal_def c_other)
        with code four et no last_one er True cq move c_other have "play_card no_write_error c t s = Inr (True,
          (if roundNumber ?c = length (gameScenario ?c) then finalized else id) (post_sides (spec_msgs c ?g) ?c))"
          by (simp add: k_other)
        then show ?thesis using cshape move last cconn c_other \<open>last_deal ?c = last_deal s\<close> by metis
      next
        case False
        let ?d = "dealt_state ?c"
        have lt': "Suc (roundNumber s) < length (gameScenario s)" using False lt by simp
        have dgame: "game_of ?d = deal_round (game_of ?c)" using game_of_dealt c_other by simp
        have dshape: "game_shape ?d" using cshape fair lt' by (intro game_shape_dealt) (simp_all add: c_other)
        have d_other: "roundNumber ?d = Suc (roundNumber s)" "gameScenario ?d = gameScenario s"
          "lastDeal ?d = last_deal ?d"
          using lt' by (auto simp: dealt_state_def c_other last_deal_def min_def split: prod.splits)
        have dconn: "same_conn s ?d" using cconn same_conn_states same_conn_trans by blast
        have dside: "real_side (nextMove ?d)"
          using fair_deal(3) [OF fair lt'] by (simp add: nextMove_dealt c_other)
        have move: "spec_move c ?g = game_of ?d"
          "spec_msgs c ?g = taken_msgs ?p @ score_msgs ?k @ deal_msgs (game_of ?d) @ trick_msg (game_of ?d)"
          using \<open>length (table s) = 3\<close> last_one False
          by (simp_all add: spec_move_def spec_msgs_def Let_def cgame kgame tmsg smsg dgame)
        have st: "send_trick no_write_error (post_sides ms ?d) =
            Inr (post_sides (trick_msg (game_of ?d)) (post_sides ms ?d))" for ms
          using pfull dshape dside by (subst send_trick_eq) (simp_all add: game_shape_trickNo)
        from code four et no last_one er False cq move have "play_card no_write_error c t s = Inr (True,
          (if roundNumber ?d = length (gameScenario ?d) then finalized else id) (post_sides (spec_msgs c ?g) ?d))"
          by (simp add: k_other d_other dealt_post st)
        then show ?thesis using dshape move dconn d_other by metis
      qed
    qed
  qed
qed

end
