(* ===== verification/Server_Inv.thy ===== *)
theory Server_Inv
  imports Server_Exec
begin

text \<open>
  The server as a transition system: the callbacks of the workers, the cleaner and the workers' own
  steps as events, the invariant that ties the tables of connections together, and the proof that
  no admissible event fails or breaks it. The game inside the server is at every moment a state of
  the specified game.
\<close>

section \<open>Invariant\<close>

text \<open>
  The connection tables: \<open>activeSides\<close> and \<open>workerToSide\<close> are inverse to each other, the workers in
  them are those with the role \<open>SERVING_ACTIVE\<close>, a worker that waits in \<open>CLEANUP\<close> has the side it
  had, and the counter counts the occupied sides.
\<close>

definition seat_tables :: "(side \<rightharpoonup> int) \<Rightarrow> (int \<rightharpoonup> side) \<Rightarrow> bool" where
  "seat_tables active wts \<longleftrightarrow>
     dom active = set sides \<and>
     (\<forall>t ix. active t = Some ix \<longrightarrow> ix \<noteq> - 1 \<longrightarrow> wts ix = Some t) \<and>
     (\<forall>ix t. wts ix = Some t \<longrightarrow> active t = Some ix \<and> ix \<noteq> - 1)"

definition role_tables :: "(int \<rightharpoonup> side) \<Rightarrow> (int \<rightharpoonup> side) \<Rightarrow> (int \<rightharpoonup> worker_status) \<Rightarrow> bool" where
  "role_tables wts zom rs \<longleftrightarrow>
     (\<forall>ix. rs ix = Some SERVING_ACTIVE \<longleftrightarrow> wts ix \<noteq> None) \<and>
     (\<forall>ix. rs ix = Some CLEANUP \<longrightarrow> (\<exists>t. real_side t \<and> zom ix = Some t)) \<and>
     (\<forall>ix. zom ix \<noteq> None \<longrightarrow> rs ix = Some CLEANUP \<or> rs ix = Some SHUTDOWN)"

definition occupied :: "(side \<rightharpoonup> int) \<Rightarrow> int" where
  "occupied active = int (length (filter (\<lambda>t. get 0 t active \<noteq> - 1) sides))"

definition conn_inv :: "server \<Rightarrow> bool" where
  "conn_inv s \<longleftrightarrow>
     seat_tables (activeSides s) (workerToSide s) \<and>
     role_tables (workerToSide s) (zombieWorkerToSide s) (roles (workerMgr s)) \<and>
     playersConnected s = occupied (activeSides s)"

lemma seat_tables_real: "seat_tables active wts \<Longrightarrow> wts ix = Some t \<Longrightarrow> real_side t \<and> active t = Some ix"
  unfolding seat_tables_def real_side_def by blast

lemma role_tables_upd:
  assumes "role_tables wts zom rs" and "wts ix = None" and "r \<noteq> SERVING_ACTIVE" and "r \<noteq> CLEANUP"
    and "zom ix \<noteq> None \<Longrightarrow> r = SHUTDOWN"
  shows "role_tables wts zom (rs(ix \<mapsto> r))"
  using assms unfolding role_tables_def by simp

definition deal_inv :: "server \<Rightarrow> bool" where
  "deal_inv s \<longleftrightarrow>
     (lastDeal s = last_deal s \<or> lastDeal s = Map.empty \<and> hands s = last_deal s \<and> playersConnected s < 4) \<and>
     (roundNumber s = length (gameScenario s) \<longrightarrow> exiting s)"

text \<open>A server that is exiting has released its cleaner.\<close>

definition flag_inv :: "server \<Rightarrow> bool" where
  "flag_inv s \<longleftrightarrow> (exiting s \<longrightarrow> finishFlag (workerMgr s))"

definition core_inv :: "game_scenario \<Rightarrow> server \<Rightarrow> bool" where
  "core_inv sc s \<longleftrightarrow>
     sc = gameScenario s \<and> fair (gameScenario s) \<and> gameScenario s \<noteq> [] \<and> pool_inv (workerMgr s) \<and> conn_inv s \<and>
     game_shape s \<and> plays (gameScenario s) (game_of s) \<and> deal_inv s \<and> flag_inv s"

definition srv_inv :: "game_scenario \<Rightarrow> server \<Rightarrow> bool" where
  "srv_inv sc s \<longleftrightarrow> \<not> gameStateMutex s \<and> core_inv sc s"

text \<open>The fields the invariant does not look at.\<close>

lemma core_inv_fields [simp]:
  "core_inv sc (s\<lparr>gameStateMutex := b\<rparr>) = core_inv sc s" "core_inv sc (s\<lparr>exitCode := i\<rparr>) = core_inv sc s"
  "core_inv sc (s\<lparr>sysLog := l\<rparr>) = core_inv sc s" "core_inv sc (s\<lparr>sOwnAddr := a\<rparr>) = core_inv sc s"
  by (simp_all add: core_inv_def conn_inv_def deal_inv_def flag_inv_def game_shape_def game_of_def last_deal_def)

lemma mgr_frame [simp]:
  "game_of (s\<lparr>workerMgr := m\<rparr>) = game_of s" "game_shape (s\<lparr>workerMgr := m\<rparr>) = game_shape s"
  "last_deal (s\<lparr>workerMgr := m\<rparr>) = last_deal s" "deal_inv (s\<lparr>workerMgr := m\<rparr>) = deal_inv s"
  by (simp_all add: game_of_def game_shape_def last_deal_def deal_inv_def)

lemma core_inv_mgr_iff:
  assumes "core_inv sc s"
  shows "core_inv sc (s\<lparr>workerMgr := m\<rparr>) \<longleftrightarrow>
    pool_inv m \<and> role_tables (workerToSide s) (zombieWorkerToSide s) (roles m) \<and>
    (exiting s \<longrightarrow> finishFlag m)"
  using assms unfolding core_inv_def mgr_frame conn_inv_def flag_inv_def by simp

lemma core_inv_mgr:
  "core_inv sc s \<Longrightarrow> pool_inv m \<Longrightarrow> roles m = roles (workerMgr s) \<Longrightarrow>
   (finishFlag (workerMgr s) \<Longrightarrow> finishFlag m) \<Longrightarrow> core_inv sc (s\<lparr>workerMgr := m\<rparr>)"
  unfolding core_inv_mgr_iff by (simp add: core_inv_def conn_inv_def flag_inv_def)

text \<open>A change of role that concerns neither an active player nor a former one.\<close>

lemma core_inv_role:
  assumes "core_inv sc s" and "pool_inv m" and "roles m = (roles (workerMgr s))(ix \<mapsto> r)"
    and "workerToSide s ix = None" and "r \<noteq> SERVING_ACTIVE" and "r \<noteq> CLEANUP"
    and "zombieWorkerToSide s ix \<noteq> None \<Longrightarrow> r = SHUTDOWN" and "finishFlag m = finishFlag (workerMgr s)"
  shows "core_inv sc (s\<lparr>workerMgr := m\<rparr>)"
proof -
  have "exiting s \<longrightarrow> finishFlag m" using assms(1,8) by (simp add: core_inv_def flag_inv_def)
  moreover have "role_tables (workerToSide s) (zombieWorkerToSide s) (roles (workerMgr s))"
    using assms(1) by (simp add: core_inv_def conn_inv_def)
  note role_tables_upd [OF this assms(4-7)]
  ultimately show ?thesis using assms(2,3) by (simp add: core_inv_mgr_iff [OF assms(1)])
qed

lemma core_inv_post:
  assumes "core_inv sc s"
  shows "core_inv sc (post js s)" and "core_inv sc (post_sides ks s)"
  using core_inv_mgr [OF assms] assms by (simp_all add: post_def post_sides_def core_inv_def)

lemma exiting_frame:
  "game_of (s\<lparr>exiting := b\<rparr>) = game_of s" "game_shape (s\<lparr>exiting := b\<rparr>) = game_shape s"
  "conn_inv (s\<lparr>exiting := b\<rparr>) = conn_inv s" "deal_inv s \<Longrightarrow> deal_inv (s\<lparr>exiting := True\<rparr>)"
  by (auto simp: game_of_def game_shape_def conn_inv_def deal_inv_def last_deal_def)

lemma core_inv_finalized:
  assumes "core_inv sc s"
  shows "core_inv sc (finalized s)"
proof -
  have "core_inv sc ((s\<lparr>workerMgr := kill_all (raise_flag (workerMgr s))\<rparr>)\<lparr>exiting := True\<rparr>)"
    using assms unfolding core_inv_def by (simp add: exiting_frame flag_inv_def) (simp add: conn_inv_def)
  moreover have "s\<lparr>workerMgr := m, exiting := True\<rparr> = s\<lparr>exiting := True, workerMgr := m\<rparr>" for m
    by (cases s) simp
  ultimately show ?thesis using assms by (simp add: finalized_def)
qed

lemma flag_inv_finalized: "flag_inv s \<Longrightarrow> flag_inv (finalized s)"
  by (simp add: flag_inv_def finalized_def)

section \<open>Facts about connections\<close>

lemma core_pool: "core_inv sc s \<Longrightarrow> pool_inv (workerMgr s)"
  by (simp add: core_inv_def)

lemma core_free: "core_inv sc s \<Longrightarrow> mgr_free (workerMgr s)"
  by (simp add: core_inv_def pool_inv_free)

lemma core_game:
  assumes "core_inv sc s"
  shows "game_inv (game_of s)"
proof -
  have "plays (gameScenario s) (game_of s)" "fair (gameScenario s)" "gameScenario s \<noteq> []"
    using assms by (simp_all add: core_inv_def)
  then show ?thesis using plays_inv by blast
qed

lemma core_shape: "core_inv sc s \<Longrightarrow> game_shape s"
  by (simp add: core_inv_def)

lemma core_turn: "core_inv sc s \<Longrightarrow> real_side (nextMove s)"
  using game_inv_turn [of "game_of s"] core_game [of sc s] by simp

lemma core_conn: "core_inv sc s \<Longrightarrow> conn_inv s"
  by (simp add: core_inv_def)

lemma core_role_active: "core_inv sc s \<Longrightarrow> workerToSide s ix = Some t \<Longrightarrow> roles (workerMgr s) ix = Some SERVING_ACTIVE"
  using core_conn [of sc s] unfolding conn_inv_def role_tables_def by blast

lemma core_active_side:
  "core_inv sc s \<Longrightarrow> roles (workerMgr s) ix = Some SERVING_ACTIVE \<Longrightarrow>
   \<exists>t. workerToSide s ix = Some t \<and> real_side t \<and> activeSides s t = Some ix"
  using core_conn [of sc s] seat_tables_real unfolding conn_inv_def role_tables_def by blast

lemma core_zombie_side:
  "core_inv sc s \<Longrightarrow> roles (workerMgr s) ix = Some CLEANUP \<Longrightarrow>
   \<exists>t. zombieWorkerToSide s ix = Some t \<and> real_side t"
  using core_conn [of sc s] unfolding conn_inv_def role_tables_def by blast

lemma core_not_active:
  "core_inv sc s \<Longrightarrow> roles (workerMgr s) ix = Some r \<Longrightarrow> r \<noteq> SERVING_ACTIVE \<Longrightarrow> workerToSide s ix = None"
  using core_role_active [of sc s ix] by (cases "workerToSide s ix") auto

lemma core_not_zombie:
  "core_inv sc s \<Longrightarrow> roles (workerMgr s) ix = Some r \<Longrightarrow> r \<noteq> CLEANUP \<Longrightarrow> r \<noteq> SHUTDOWN \<Longrightarrow>
   zombieWorkerToSide s ix = None"
  using core_conn [of sc s] unfolding conn_inv_def role_tables_def by fastforce

text \<open>When four players are connected every side has a worker that is known.\<close>

lemma occupied_le: "occupied active \<le> 4"
  using length_filter_le [of "\<lambda>t. get 0 t active \<noteq> - 1" sides] by (simp add: occupied_def sides_def)

lemma occupied_four: "occupied active = 4 \<Longrightarrow> real_side t \<Longrightarrow> get 0 t active \<noteq> - 1"
  by (cases t) (auto simp: occupied_def sides_def split: if_splits)

lemma core_full:
  assumes "core_inv sc s" and "\<not> playersConnected s < 4"
  shows "table_full s"
proof -
  have tabs: "seat_tables (activeSides s) (workerToSide s)" and count: "playersConnected s = occupied (activeSides s)"
    using core_conn [OF assms(1)] by (simp_all add: conn_inv_def)
  have four: "occupied (activeSides s) = 4" using count assms(2) occupied_le [of "activeSides s"] by simp
  have "seated s t" if t: "real_side t" for t
  proof -
    have "t \<in> dom (activeSides s)" using tabs t by (simp add: seat_tables_def real_side_def)
    then obtain ix where ix: "activeSides s t = Some ix" by blast
    with occupied_four [OF four t] have "ix \<noteq> - 1" by simp
    with tabs ix have "workerToSide s ix = Some t" unfolding seat_tables_def by blast
    then have "roles (workerMgr s) ix = Some SERVING_ACTIVE" by (rule core_role_active [OF assms(1)])
    with core_pool [OF assms(1)] have "known (workerMgr s) ix" by (rule pool_inv_known) simp
    with ix show ?thesis by (simp add: seated_def act_def)
  qed
  with core_free [OF assms(1)] show ?thesis by (simp add: table_full_def)
qed

lemma core_four: "core_inv sc s \<Longrightarrow> \<not> playersConnected s < 4 \<Longrightarrow> lastDeal s = last_deal s"
  by (auto simp: core_inv_def deal_inv_def)

lemma with_game_ok:
  assumes "srv_inv sc s"
    and "\<And>s. core_inv sc s \<Longrightarrow> P s \<Longrightarrow> \<exists>r s'. f s = Inr (r, s') \<and> core_inv sc s'"
    and "P (s\<lparr>gameStateMutex := True\<rparr>)"
  shows "\<exists>r s'. with_game f s = Inr (r, s') \<and> srv_inv sc s'"
proof -
  have "core_inv sc (s\<lparr>gameStateMutex := True\<rparr>)" using assms(1) by (simp add: srv_inv_def)
  with assms(2,3) obtain r s' where "f (s\<lparr>gameStateMutex := True\<rparr>) = Inr (r, s')" "core_inv sc s'" by blast
  with assms(1) show ?thesis by (simp add: with_game_def srv_inv_def)
qed

section \<open>A card\<close>

lemma core_hands_wf:
  assumes "core_inv sc s" and "real_side t"
  shows "\<forall>x \<in> set (get [] t (hands s)). wf_card x"
proof (cases "in_round (game_of s)")
  case True
  with assms fair_cards [of "game_of s" t] show ?thesis by (auto simp: core_inv_def game_card_wf)
next
  case False
  with core_game [OF assms(1)] have "game_over (game_of s)" by (simp add: game_inv_def)
  with assms(2) show ?thesis by (simp add: game_over_def)
qed

lemma core_hand:
  assumes "core_inv sc s" and "real_side t"
  shows "hands s t = Some (get [] t (hands s))"
proof -
  have "t \<in> dom (hands s)" using core_shape [OF assms(1)] assms(2) by (simp add: game_shape_def real_side_def)
  then show ?thesis by (auto simp: get_def)
qed

text \<open>What \<open>playerTricked\<close> does once the side is known: the move of the game, or a complaint.\<close>

lemma trick_move_eq:
  assumes inv: "core_inv sc s" and four: "\<not> playersConnected s < 4" and t: "real_side t" and c: "wf_card c"
  shows "if gLegal t n c (game_of s)
    then \<exists>s1. trick_move no_write_error n c t s =
       Inr (True, (if roundNumber s1 = length (gameScenario s1) then finalized else id)
                   (post_sides (spec_msgs c (game_of s)) s1)) \<and>
       same_conn s s1 \<and> game_of s1 = spec_move c (game_of s) \<and> game_shape s1 \<and> lastDeal s1 = last_deal s1
    else trick_move no_write_error n c t s = Inr (True, post_sides [(SendJobWrong (trickNo s), t)] s)"
proof -
  have full: "table_full s" using inv four by (rule core_full)
  have wrong: "send_wrong no_write_error t s = Inr (True, post_sides [(SendJobWrong (trickNo s), t)] s)"
    using full t by (simp add: send_wrong_def table_full_side)
  have no: "gTrickNo (game_of s) = trickNo s" using core_shape [OF inv] by (rule game_shape_trickNo)
  have leg: "isMoveLegal t c (hands s) (table s) = Inr (legal_move (get [] t (hands s)) c (table s))"
    using core_hand [OF inv t] c core_hands_wf [OF inv t] by (rule isMoveLegal_legal)
  show ?thesis
  proof (cases "gLegal t n c (game_of s)")
    case True
    then have "n = trickNo s" "nextMove s = t" "legal_move (get [] t (hands s)) c (table s)"
      using no by (auto simp: gLegal_def)
    with leg have "trick_move no_write_error n c t s = play_card no_write_error c t s"
      by (simp add: trick_move_def)
    with play_card_refines [OF full core_shape [OF inv] core_game [OF inv] True t core_four [OF inv four]] True
    show ?thesis by simp
  next
    case False
    then have "n \<noteq> trickNo s \<or> nextMove s \<noteq> t \<or> \<not> legal_move (get [] t (hands s)) c (table s)"
      using no by (auto simp: gLegal_def)
    with leg wrong False show ?thesis by (auto simp: trick_move_def)
  qed
qed

lemma core_inv_move:
  assumes "core_inv sc s" and "same_conn s s1" and "game_of s1 = spec_move c (game_of s)"
    and "gLegal t n c (game_of s)" and "game_shape s1" and "lastDeal s1 = last_deal s1"
  shows "core_inv sc ((if roundNumber s1 = length (gameScenario s1) then finalized else id) s1)"
proof -
  have sc: "gameScenario s1 = gameScenario s" using assms(2) by (simp add: same_conn_def)
  have plays: "plays (gameScenario s1) (game_of s1)"
    unfolding sc assms(3) using assms(1,4) by (auto simp: core_inv_def intro: plays.move)
  have conn: "conn_inv s1" "pool_inv (workerMgr s1)"
    using assms(1,2) by (simp_all add: core_inv_def conn_inv_def same_conn_def)
  have "deal_inv ((if roundNumber s1 = length (gameScenario s1) then finalized else id) s1)"
    using assms(6) by (simp add: deal_inv_def last_deal_def)
  moreover have "flag_inv s1" using assms(1,2) by (simp add: core_inv_def flag_inv_def same_conn_def)
  ultimately show ?thesis using plays conn assms(1,5) sc
    by (auto simp: core_inv_def conn_inv_def game_shape_def flag_inv_finalized)
qed

lemma trick_move_inv:
  assumes inv: "core_inv sc s" and four: "\<not> playersConnected s < 4" and t: "real_side t" and c: "wf_card c"
  shows "\<exists>s'. trick_move no_write_error n c t s = Inr (True, s') \<and> core_inv sc s'"
proof (cases "gLegal t n c (game_of s)")
  case True
  with trick_move_eq [OF assms, of n] obtain s1 where s1:
    "trick_move no_write_error n c t s =
       Inr (True, (if roundNumber s1 = length (gameScenario s1) then finalized else id)
                   (post_sides (spec_msgs c (game_of s)) s1))"
    "same_conn s s1" "game_of s1 = spec_move c (game_of s)" "game_shape s1" "lastDeal s1 = last_deal s1"
    by auto
  let ?p = "post_sides (spec_msgs c (game_of s)) s1"
  have "core_inv sc ((if roundNumber ?p = length (gameScenario ?p) then finalized else id) ?p)"
  proof (rule core_inv_move [where s = "post_sides (spec_msgs c (game_of s)) s"])
    show "same_conn (post_sides (spec_msgs c (game_of s)) s) ?p"
      using s1(2) same_conn_act [OF s1(2)] by (simp add: same_conn_def) (simp add: post_sides_def same_conn_def)
    show "gLegal t n c (game_of (post_sides (spec_msgs c (game_of s)) s))" using True by simp
    show "lastDeal ?p = last_deal ?p" using s1(5) by (simp add: last_deal_def)
  qed (use inv s1 in \<open>simp_all add: core_inv_post\<close>)
  with s1(1) show ?thesis by simp
next
  case False
  with trick_move_eq [OF assms, of n] inv show ?thesis by (simp add: core_inv_post)
qed

section \<open>Calls on the manager from a callback\<close>

lemma op_setRole:
  "core_inv sc s \<Longrightarrow> roles (workerMgr s) ix \<noteq> None \<Longrightarrow>
   mgr_op no_write_error (\<lambda>cb. setRole ix r) s = Inr (s\<lparr>workerMgr := set_role ix r (workerMgr s)\<rparr>)"
  by (rule mgr_op_eq) (simp add: core_free setRole_eq)

lemma op_sendKill:
  "core_inv sc s \<Longrightarrow> roles (workerMgr s) ix = Some r \<Longrightarrow> r \<noteq> SHUTDOWN \<Longrightarrow>
   mgr_op no_write_error (\<lambda>cb. sendKill no_write_error cb ix False) s =
     Inr (s\<lparr>workerMgr := order_death ix (workerMgr s)\<rparr>)"
  by (rule mgr_op_eq) (simp add: core_free core_pool pool_inv_known sendKill_eq)

lemma op_signalRole:
  "core_inv sc s \<Longrightarrow> mgr_op no_write_error (\<lambda>cb. signalRole no_write_error cb r) s =
     Inr (s\<lparr>workerMgr := bump_role r (workerMgr s)\<rparr>)"
  by (rule mgr_op_eq) (simp add: core_free signalRole_eq)

lemma op_getRole: "core_inv sc s \<Longrightarrow> getRole ix (workerMgr s) = map_at (roles (workerMgr s)) ix"
  by (simp add: core_free getRole_eq)

lemma op_send:
  "core_inv sc s \<Longrightarrow> roles (workerMgr s) ix = Some r \<Longrightarrow> r \<noteq> SHUTDOWN \<Longrightarrow>
   send_to no_write_error j ix s = Inr (post [(j, ix)] s)"
  by (simp add: core_free core_pool pool_inv_known send_to_eq)

lemma op_finalize: "core_inv sc s \<Longrightarrow> finalize no_write_error s = Inr (finalized s)"
  by (simp add: core_free finalize_eq)

lemma op_erase:
  assumes "core_inv sc s" and "roles (workerMgr s) ix \<noteq> None"
  shows "erase_mark no_write_error ix s =
      Inr (s\<lparr>workerMgr := set_role ix SHUTDOWN (erase_entry ix (workerMgr s))\<rparr>)"
    and "mark_erase no_write_error ix s =
      Inr (s\<lparr>workerMgr := erase_entry ix (set_role ix SHUTDOWN (workerMgr s))\<rparr>)"
  using core_free [OF assms(1)] assms(2)
  by (simp_all add: erase_mark_def mark_erase_def mgr_op_def eraseWorker_eq setRole_eq)

lemma core_inv_kill: "core_inv sc s \<Longrightarrow> core_inv sc (s\<lparr>workerMgr := order_death ix (workerMgr s)\<rparr>)"
  by (rule core_inv_mgr) (simp_all add: core_pool)

lemma core_inv_bump: "core_inv sc s \<Longrightarrow> core_inv sc (s\<lparr>workerMgr := bump_role r (workerMgr s)\<rparr>)"
  by (rule core_inv_mgr) (simp_all add: core_pool)

text \<open>A worker that serves no side is refused, or shut down.\<close>

lemma core_inv_refuse:
  assumes "core_inv sc s" and "roles (workerMgr s) ix = Some r" and "r = SERVING_UNKNOWN \<or> r = SERVING_PROXY"
  shows "core_inv sc (s\<lparr>workerMgr := set_role ix CLEANUP_UNKNOWN (workerMgr s)\<rparr>)"
proof (rule core_inv_role [OF assms(1)])
  show "pool_inv (set_role ix CLEANUP_UNKNOWN (workerMgr s))"
    using core_pool [OF assms(1)] assms(2,3) by (intro pool_inv_set_role) auto
  show "workerToSide s ix = None" using core_not_active [OF assms(1,2)] assms(3) by auto
  show "zombieWorkerToSide s ix \<noteq> None \<Longrightarrow> CLEANUP_UNKNOWN = SHUTDOWN"
    using core_not_zombie [OF assms(1,2)] assms(3) by auto
qed simp_all

lemma core_inv_shutdown:
  assumes "core_inv sc s" and "roles (workerMgr s) ix = Some r" and "r \<noteq> SERVING_ACTIVE"
  shows "core_inv sc (s\<lparr>workerMgr := set_role ix SHUTDOWN (erase_entry ix (workerMgr s))\<rparr>)"
    and "core_inv sc (s\<lparr>workerMgr := erase_entry ix (set_role ix SHUTDOWN (workerMgr s))\<rparr>)"
proof -
  note none = core_not_active [OF assms]
  note pool = pool_inv_shutdown [OF core_pool [OF assms(1)], of ix]
  show "core_inv sc (s\<lparr>workerMgr := set_role ix SHUTDOWN (erase_entry ix (workerMgr s))\<rparr>)"
    by (rule core_inv_role [OF assms(1)]) (use assms none pool in simp_all)
  show "core_inv sc (s\<lparr>workerMgr := erase_entry ix (set_role ix SHUTDOWN (workerMgr s))\<rparr>)"
    by (rule core_inv_role [OF assms(1)]) (use assms none pool in simp_all)
qed

section \<open>The callbacks\<close>

text \<open>\<open>role_is\<close>: the worker has a role and it satisfies the predicate.\<close>

definition role_is :: "(worker_status \<Rightarrow> bool) \<Rightarrow> int \<Rightarrow> server \<Rightarrow> bool" where
  "role_is P ix s \<longleftrightarrow> (case roles (workerMgr s) ix of None \<Rightarrow> False | Some r \<Rightarrow> P r)"

lemma role_isE: "role_is P ix s \<Longrightarrow> (\<And>r. roles (workerMgr s) ix = Some r \<Longrightarrow> P r \<Longrightarrow> thesis) \<Longrightarrow> thesis"
  by (cases "roles (workerMgr s) ix") (auto simp: role_is_def)

lemma role_is_mutex [simp]: "role_is P ix (s\<lparr>gameStateMutex := b\<rparr>) = role_is P ix s"
  by (simp add: role_is_def)

lemma playerTricked_inv:
  assumes "srv_inv sc s" and "role_is (\<lambda>r. True) ix s" and "wf_card c"
  shows "\<exists>b s'. playerTricked no_write_error n c ix s = Inr (b, s') \<and> srv_inv sc s'"
  unfolding playerTricked_def
proof (rule with_game_ok [where P = "role_is (\<lambda>r. True) ix", OF assms(1)])
  show "role_is (\<lambda>r. True) ix (s\<lparr>gameStateMutex := True\<rparr>)" using assms(2) by simp
  fix s
  assume inv: "core_inv sc s" and "role_is (\<lambda>r. True) ix s"
  then obtain r where r: "roles (workerMgr s) ix = Some r" by (auto elim: role_isE)
  note ops = op_getRole [OF inv] r op_setRole [OF inv] op_finalize op_sendKill
  let ?u = "s\<lparr>workerMgr := set_role ix CLEANUP_UNKNOWN (workerMgr s)\<rparr>"
  have ref: "core_inv sc ?u" if "r = SERVING_UNKNOWN \<or> r = SERVING_PROXY" using core_inv_refuse [OF inv r that] .
  have kill: "mgr_op no_write_error (\<lambda>cb. sendKill no_write_error cb ix False) ?u =
      Inr (?u\<lparr>workerMgr := order_death ix (workerMgr ?u)\<rparr>)" if "core_inv sc ?u"
    using that by (rule op_sendKill [where r = CLEANUP_UNKNOWN]) simp_all
  show "\<exists>b s'. (if playersConnected s < 4 then Inr (False, s)
     else bindE (getRole ix (workerMgr s)) (\<lambda>role.
       case role of
         SERVING_UNKNOWN \<Rightarrow>
           bindE (mgr_op no_write_error (\<lambda>cb. setRole ix CLEANUP_UNKNOWN) s) (\<lambda>s.
           bindE (mgr_op no_write_error (\<lambda>cb. sendKill no_write_error cb ix False) s) (\<lambda>s. Inr (True, s)))
       | SERVING_ACTIVE \<Rightarrow> bindE (map_at (workerToSide s) ix) (\<lambda>side. trick_move no_write_error n c side s)
       | SERVING_PROXY \<Rightarrow>
           bindE (mgr_op no_write_error (\<lambda>cb. setRole ix CLEANUP_UNKNOWN) s) (\<lambda>s.
           bindE (finalize no_write_error s) (\<lambda>s. Inr (True, s)))
       | CLEANUP \<Rightarrow> bindE (map_at (zombieWorkerToSide s) ix) (\<lambda>side. trick_move no_write_error n c side s)
       | CLEANUP_UNKNOWN \<Rightarrow> Inr (True, s)
       | SHUTDOWN \<Rightarrow> Inr (True, s))) = Inr (b, s') \<and> core_inv sc s'"
  proof (cases "playersConnected s < 4")
    case True
    with inv show ?thesis by auto
  next
    case four: False
    show ?thesis
    proof (cases r)
      case SERVING_UNKNOWN
      with ref kill core_inv_kill [of sc ?u ix] ops four show ?thesis by simp
    next
      case SERVING_ACTIVE
      with core_active_side [OF inv] r obtain t where t: "workerToSide s ix = Some t" "real_side t" by blast
      obtain s' where "trick_move no_write_error n c t s = Inr (True, s')" "core_inv sc s'"
        using trick_move_inv [OF inv four t(2) assms(3)] by blast
      with t SERVING_ACTIVE ops four show ?thesis by simp
    next
      case SERVING_PROXY
      with ref core_inv_finalized [of sc ?u] ops four show ?thesis by simp
    next
      case CLEANUP
      with core_zombie_side [OF inv] r obtain t where t: "zombieWorkerToSide s ix = Some t" "real_side t" by blast
      obtain s' where "trick_move no_write_error n c t s = Inr (True, s')" "core_inv sc s'"
        using trick_move_inv [OF inv four t(2) assms(3)] by blast
      with t CLEANUP ops four show ?thesis by simp
    qed (use inv ops four in simp_all)
  qed
qed

lemma handleWrongMessage_inv:
  assumes "srv_inv sc s" and "role_is (\<lambda>r. r \<noteq> SHUTDOWN) ix s"
  shows "\<exists>b s'. handleWrongMessage no_write_error ix s = Inr (b, s') \<and> srv_inv sc s'"
  unfolding handleWrongMessage_def
proof (rule with_game_ok [where P = "role_is (\<lambda>r. r \<noteq> SHUTDOWN) ix", OF assms(1)])
  fix s
  assume inv: "core_inv sc s" and "role_is (\<lambda>r. r \<noteq> SHUTDOWN) ix s"
  then obtain r where r: "roles (workerMgr s) ix = Some r" "r \<noteq> SHUTDOWN" by (auto elim: role_isE)
  with inv op_sendKill [OF inv r] core_inv_kill [OF inv]
  show "\<exists>b s'. (if playersConnected s < 4 \<and> \<not> exiting s then Inr (False, s)
     else bindE (mgr_op no_write_error (\<lambda>cb. sendKill no_write_error cb ix False) s) (\<lambda>s. Inr (True, s)))
     = Inr (b, s') \<and> core_inv sc s'" by auto
qed (use assms(2) in simp)

lemma handleTimeout_inv:
  assumes "srv_inv sc s" and "role_is (\<lambda>r. True) ix s"
  shows "\<exists>b s'. handleTimeout no_write_error ix s = Inr (b, s') \<and> srv_inv sc s'"
  unfolding handleTimeout_def
proof (rule with_game_ok [where P = "role_is (\<lambda>r. True) ix", OF assms(1)])
  fix s
  assume inv: "core_inv sc s" and "role_is (\<lambda>r. True) ix s"
  then obtain r where r: "roles (workerMgr s) ix = Some r" by (auto elim: role_isE)
  have kill: "mgr_op no_write_error (\<lambda>cb. sendKill no_write_error cb ix False) s =
     Inr (s\<lparr>workerMgr := order_death ix (workerMgr s)\<rparr>)" if "r = SERVING_UNKNOWN"
    using op_sendKill [OF inv r] that by simp
  have send: "send_to no_write_error j ix s = Inr (post [(j, ix)] s)" if "r = SERVING_ACTIVE" for j
    using op_send [OF inv r] that by simp
  have side: "\<exists>t. workerToSide s ix = Some t" if "r = SERVING_ACTIVE"
    using core_active_side [OF inv] r that by blast
  show "\<exists>b s'. (if exiting s then Inr ((), s)
     else bindE (getRole ix (workerMgr s)) (\<lambda>role.
       if role = SERVING_UNKNOWN then
         bindE (mgr_op no_write_error (\<lambda>cb. sendKill no_write_error cb ix False) s) (\<lambda>s. Inr ((), s))
       else bindE (getRole ix (workerMgr s)) (\<lambda>role.
         if role = SERVING_ACTIVE then
           bindE (map_at (workerToSide s) ix) (\<lambda>t.
             if nextMove s \<noteq> t then Inr ((), s)
             else if playersConnected s < 4 then Inr ((), s)
             else bindE (send_to no_write_error (SendJobTrick (table s) (trickNo s)) ix s) (\<lambda>s. Inr ((), s)))
         else Inr ((), s)))) = Inr (b, s') \<and> core_inv sc s'"
  proof (cases "r = SERVING_ACTIVE")
    case True
    with side obtain t where "workerToSide s ix = Some t" by blast
    with True send inv core_inv_post(1) [OF inv] show ?thesis
      by (cases "nextMove s = t") (simp_all add: op_getRole [OF inv] r)
  next
    case False
    with kill inv core_inv_kill [OF inv] show ?thesis by (simp add: op_getRole [OF inv] r)
  qed
qed (use assms(2) in simp)

section \<open>A worker ends\<close>

lemma exit_errs_inv:
  "core_inv sc s \<Longrightarrow> \<exists>b s'. exit_errs no_write_error es s = Inr (b, s') \<and> core_inv sc s' \<and>
     roles (workerMgr s') = roles (workerMgr s)"
proof (induction es arbitrary: s)
  case (Cons e es)
  let ?s = "s\<lparr>sysLog := sysLog s @ [e]\<rparr>"
  have inv: "core_inv sc ?s" "core_inv sc (?s\<lparr>exitCode := 1\<rparr>)" using Cons.prems by simp_all
  show ?case
  proof (cases "errType e = IO_ERR_INTERNAL")
    case True
    with inv op_finalize [OF inv(2)] core_inv_finalized [OF inv(2)] show ?thesis
      by (simp add: handleSysErr_def sys_err_body_def Let_def)
  next
    case False
    with Cons.IH [OF inv(1)] show ?thesis by (simp add: handleSysErr_def sys_err_body_def Let_def)
  qed
qed simp

definition left_state :: "int \<Rightarrow> side \<Rightarrow> server \<Rightarrow> server" where
  "left_state ix t s =
     s\<lparr>playersConnected := playersConnected s - 1, activeSides := (activeSides s)(t \<mapsto> - 1),
       zombieWorkerToSide := (zombieWorkerToSide s)(ix \<mapsto> t), workerToSide := (workerToSide s)(ix := None)\<rparr>"

lemma occupied_leave:
  assumes "real_side t" and "active t = Some ix" and "ix \<noteq> - 1"
  shows "occupied (active(t \<mapsto> - 1)) = occupied active - 1"
  using assms by (cases t) (auto simp: occupied_def sides_def get_def)

lemma occupied_join:
  assumes "real_side t" and "active t = Some (- 1)" and "ix \<noteq> - 1"
  shows "occupied (active(t \<mapsto> ix)) = occupied active + 1"
  using assms by (cases t) (auto simp: occupied_def sides_def get_def)

lemma seat_tablesI:
  assumes "dom active = set sides"
    and "\<And>t ix. active t = Some ix \<Longrightarrow> ix \<noteq> - 1 \<Longrightarrow> wts ix = Some t"
    and "\<And>ix t. wts ix = Some t \<Longrightarrow> active t = Some ix \<and> ix \<noteq> - 1"
  shows "seat_tables active wts"
  using assms unfolding seat_tables_def by blast

lemma seat_tablesD:
  assumes "seat_tables active wts"
  shows "dom active = set sides" "active t = Some ix \<Longrightarrow> ix \<noteq> - 1 \<Longrightarrow> wts ix = Some t"
    "wts ix = Some t \<Longrightarrow> active t = Some ix \<and> ix \<noteq> - 1"
  using assms unfolding seat_tables_def by blast+

lemma seat_tables_leave:
  assumes tabs: "seat_tables active wts" and ix: "wts ix = Some t"
  shows "seat_tables (active(t \<mapsto> - 1)) (wts(ix := None))"
proof (rule seat_tablesI)
  note d = seat_tablesD [OF tabs]
  have "t \<in> dom active" using d(3) [OF ix] by blast
  then show "dom (active(t \<mapsto> - 1)) = set sides" using d(1) by (simp add: insert_absorb del: set_sides)
  fix u i
  show "(active(t \<mapsto> - 1)) u = Some i \<Longrightarrow> i \<noteq> - 1 \<Longrightarrow> (wts(ix := None)) i = Some u"
    using d(2) [of u i] ix by (simp split: if_splits) force
  show "(wts(ix := None)) i = Some u \<Longrightarrow> (active(t \<mapsto> - 1)) u = Some i \<and> i \<noteq> - 1"
    using d(3) [of i u] d(3) [OF ix] by (simp split: if_splits) force
qed

lemma seat_tables_join:
  assumes tabs: "seat_tables active wts" and t: "active t = Some (- 1)" and ix: "wts ix = None" "ix \<noteq> - 1"
  shows "seat_tables (active(t \<mapsto> ix)) (wts(ix \<mapsto> t))"
proof (rule seat_tablesI)
  note d = seat_tablesD [OF tabs]
  have "t \<in> dom active" using t by blast
  then show "dom (active(t \<mapsto> ix)) = set sides" using d(1) by (simp add: insert_absorb del: set_sides)
  fix u i
  show "(active(t \<mapsto> ix)) u = Some i \<Longrightarrow> i \<noteq> - 1 \<Longrightarrow> (wts(ix \<mapsto> t)) i = Some u"
    using d(2) [of u i] ix by (simp split: if_splits) force
  show "(wts(ix \<mapsto> t)) i = Some u \<Longrightarrow> (active(t \<mapsto> ix)) u = Some i \<and> i \<noteq> - 1"
    using d(3) [of i u] t ix by (simp split: if_splits) force
qed

lemma leave_frame:
  "game_of (left_state ix t s) = game_of s" "game_shape (left_state ix t s) = game_shape s"
  "deal_inv s \<Longrightarrow> deal_inv (left_state ix t s)" "workerMgr (left_state ix t s) = workerMgr s"
  by (auto simp: game_of_def game_shape_def deal_inv_def last_deal_def left_state_def)

lemma core_inv_leave:
  assumes "core_inv sc s" and "workerToSide s ix = Some t" and "pool_inv m"
    and "roles m = (roles (workerMgr s))(ix \<mapsto> r)" and "r = CLEANUP \<or> r = SHUTDOWN"
    and "finishFlag m = finishFlag (workerMgr s)"
  shows "core_inv sc ((left_state ix t s)\<lparr>workerMgr := m\<rparr>)"
proof -
  have tabs: "seat_tables (activeSides s) (workerToSide s)" "playersConnected s = occupied (activeSides s)"
    and rt: "role_tables (workerToSide s) (zombieWorkerToSide s) (roles (workerMgr s))"
    using core_conn [OF assms(1)] by (simp_all add: conn_inv_def)
  have act: "real_side t" "activeSides s t = Some ix" using seat_tables_real [OF tabs(1) assms(2)] by auto
  have ix: "ix \<noteq> - 1" using tabs(1) assms(2) unfolding seat_tables_def by blast
  have "role_tables ((workerToSide s)(ix := None)) ((zombieWorkerToSide s)(ix \<mapsto> t)) (roles m)"
    using rt act(1) assms(4,5) unfolding role_tables_def by auto
  then have "conn_inv ((left_state ix t s)\<lparr>workerMgr := m\<rparr>)"
    using seat_tables_leave [OF tabs(1) assms(2)] occupied_leave [of t "activeSides s" ix] act ix tabs(2)
    by (simp add: conn_inv_def left_state_def)
  with assms(1,3,6) show ?thesis
    unfolding core_inv_def mgr_frame leave_frame(1,2)
    by (simp add: leave_frame flag_inv_def) (simp add: left_state_def)
qed

lemma op_leave:
  assumes "core_inv sc s" and "workerToSide s ix = Some t"
  shows "mgr_op no_write_error (\<lambda>cb. setRole ix CLEANUP) (left_state ix t s) =
      Inr ((left_state ix t s)\<lparr>workerMgr := set_role ix CLEANUP (workerMgr s)\<rparr>)"
    and "mark_erase no_write_error ix (left_state ix t s) =
      Inr ((left_state ix t s)\<lparr>workerMgr := erase_entry ix (set_role ix SHUTDOWN (workerMgr s))\<rparr>)"
    and "core_inv sc ((left_state ix t s)\<lparr>workerMgr := set_role ix CLEANUP (workerMgr s)\<rparr>)"
    and "core_inv sc ((left_state ix t s)\<lparr>workerMgr := erase_entry ix (set_role ix SHUTDOWN (workerMgr s))\<rparr>)"
proof -
  have r: "roles (workerMgr s) ix = Some SERVING_ACTIVE" using core_role_active [OF assms] .
  note free = core_free [OF assms(1)] and pool = core_pool [OF assms(1)]
  show "mgr_op no_write_error (\<lambda>cb. setRole ix CLEANUP) (left_state ix t s) =
      Inr ((left_state ix t s)\<lparr>workerMgr := set_role ix CLEANUP (workerMgr s)\<rparr>)"
    "mark_erase no_write_error ix (left_state ix t s) =
      Inr ((left_state ix t s)\<lparr>workerMgr := erase_entry ix (set_role ix SHUTDOWN (workerMgr s))\<rparr>)"
    using free r by (simp_all add: mark_erase_def mgr_op_def eraseWorker_eq setRole_eq leave_frame)
  show "core_inv sc ((left_state ix t s)\<lparr>workerMgr := set_role ix CLEANUP (workerMgr s)\<rparr>)"
    by (rule core_inv_leave [OF assms, where r = CLEANUP]) (use pool r in \<open>simp_all add: pool_inv_set_role\<close>)
  show "core_inv sc ((left_state ix t s)\<lparr>workerMgr := erase_entry ix (set_role ix SHUTDOWN (workerMgr s))\<rparr>)"
    by (rule core_inv_leave [OF assms, where r = SHUTDOWN]) (use pool r in \<open>simp_all add: pool_inv_shutdown\<close>)
qed

lemma grandExitCallback_inv:
  assumes "srv_inv sc s" and "role_is (\<lambda>r. True) ix s"
  shows "\<exists>b s'. grandExitCallback no_write_error es ix has_work s = Inr (b, s') \<and> srv_inv sc s'"
  unfolding grandExitCallback_def exit_switch_def
proof (rule with_game_ok [where P = "role_is (\<lambda>r. True) ix", OF assms(1)])
  show "role_is (\<lambda>r. True) ix (s\<lparr>gameStateMutex := True\<rparr>)" using assms(2) by simp
  fix s
  assume inv0: "core_inv sc s" and "role_is (\<lambda>r. True) ix s"
  then obtain r where r0: "roles (workerMgr s) ix = Some r" by (auto elim: role_isE)
  obtain b s1 where s1: "exit_errs no_write_error es s = Inr (b, s1)" and inv: "core_inv sc s1"
    and r: "roles (workerMgr s1) ix = Some r"
    using exit_errs_inv [OF inv0, of es] r0 by auto
  note ops = op_getRole [OF inv] r op_erase [OF inv]
  show "\<exists>b s'. bindE (exit_errs no_write_error es s) (\<lambda>(stop, s).
     if stop then Inr (True, s)
     else bindE (getRole ix (workerMgr s)) (\<lambda>role.
       case role of
         SERVING_UNKNOWN \<Rightarrow> bindE (erase_mark no_write_error ix s) (\<lambda>s. Inr (True, s))
       | SERVING_ACTIVE \<Rightarrow>
           bindE (map_at (workerToSide s) ix) (\<lambda>t.
           let s1 = s\<lparr>playersConnected := playersConnected s - 1,
                      activeSides := (activeSides s)(t \<mapsto> - 1),
                      zombieWorkerToSide := (zombieWorkerToSide s)(ix \<mapsto> t),
                      workerToSide := (workerToSide s)(ix := None)\<rparr>
           in if has_work \<or> (playersConnected s1 < 3 \<and> \<not> exiting s1)
              then bindE (mgr_op no_write_error (\<lambda>cb. setRole ix CLEANUP) s1) (\<lambda>s. Inr (False, s))
              else bindE (mark_erase no_write_error ix s1) (\<lambda>s. Inr (True, s)))
       | CLEANUP \<Rightarrow>
           if playersConnected s = 4 \<and> \<not> has_work
           then bindE (erase_mark no_write_error ix s) (\<lambda>s. Inr (True, s)) else Inr (False, s)
       | SHUTDOWN \<Rightarrow> Inr (True, s)
       | SERVING_PROXY \<Rightarrow>
           bindE (mark_erase no_write_error ix s) (\<lambda>s. bindE (finalize no_write_error s) (\<lambda>s. Inr (True, s)))
       | CLEANUP_UNKNOWN \<Rightarrow>
           if playersConnected s = 4 \<and> \<not> has_work
           then bindE (erase_mark no_write_error ix s) (\<lambda>s. Inr (True, s)) else Inr (False, s)))
     = Inr (b, s') \<and> core_inv sc s'"
  proof (cases "b \<or> r = SHUTDOWN")
    case True
    with s1 inv ops show ?thesis by auto
  next
    case nb: False
    show ?thesis
    proof (cases "r = SERVING_ACTIVE")
      case True
      with core_active_side [OF inv] r obtain t where t: "workerToSide s1 ix = Some t" by blast
      note leave = op_leave [OF inv t]
      have ls: "s1\<lparr>playersConnected := playersConnected s1 - 1, activeSides := (activeSides s1)(t \<mapsto> - 1),
          zombieWorkerToSide := (zombieWorkerToSide s1)(ix \<mapsto> t),
          workerToSide := (workerToSide s1)(ix := None)\<rparr> = left_state ix t s1"
        by (simp add: left_state_def)
      show ?thesis
        unfolding s1 bindE_simps Let_def prod.case op_getRole [OF inv]
        using nb True r t leave by (simp add: ls)
    next
      case False
      note shut = core_inv_shutdown [OF inv r False]
      show ?thesis
        using s1 nb False ops shut inv core_inv_finalized [OF shut(2)] op_finalize [OF shut(2)]
        by (cases r) simp_all
    qed
  qed
qed

section \<open>A player joins\<close>

definition joined_state :: "int \<Rightarrow> side \<Rightarrow> server \<Rightarrow> server" where
  "joined_state ix t s =
     s\<lparr>activeSides := (activeSides s)(t \<mapsto> ix), workerToSide := (workerToSide s)(ix \<mapsto> t),
       workerMgr := set_role ix SERVING_ACTIVE (workerMgr s), playersConnected := playersConnected s + 1\<rparr>"

lemma join_frame:
  "game_of (joined_state ix t s) = game_of s" "game_shape (joined_state ix t s) = game_shape s"
  "last_deal (joined_state ix t s) = last_deal s" "gameScenario (joined_state ix t s) = gameScenario s"
  "game_of (s\<lparr>lastDeal := d\<rparr>) = game_of s" "game_shape (s\<lparr>lastDeal := d\<rparr>) = game_shape s"
  "last_deal (s\<lparr>lastDeal := d\<rparr>) = last_deal s" "conn_inv (s\<lparr>lastDeal := d\<rparr>) = conn_inv s"
  "lastDeal (joined_state ix t s) = lastDeal s" "hands (joined_state ix t s) = hands s"
  "takenInRound (joined_state ix t s) = takenInRound s" "table (joined_state ix t s) = table s"
  "roundMode (joined_state ix t s) = roundMode s" "nextMove (joined_state ix t s) = nextMove s"
  "trickNo (joined_state ix t s) = trickNo s"
  "playersConnected (joined_state ix t s) = playersConnected s + 1"
  "activeSides (joined_state ix t s) = (activeSides s)(t \<mapsto> ix)"
  "roles (workerMgr (joined_state ix t s)) = (roles (workerMgr s))(ix \<mapsto> SERVING_ACTIVE)"
  by (auto simp: game_of_def game_shape_def last_deal_def joined_state_def conn_inv_def)

lemma conn_inv_join:
  assumes "core_inv sc s" and "roles (workerMgr s) ix = Some SERVING_UNKNOWN" and "real_side t"
    and "activeSides s t = Some (- 1)"
  shows "conn_inv (joined_state ix t s) \<and> pool_inv (workerMgr (joined_state ix t s))"
proof -
  have tabs: "seat_tables (activeSides s) (workerToSide s)" "playersConnected s = occupied (activeSides s)"
    and rt: "role_tables (workerToSide s) (zombieWorkerToSide s) (roles (workerMgr s))"
    using core_conn [OF assms(1)] by (simp_all add: conn_inv_def)
  have none: "workerToSide s ix = None" "zombieWorkerToSide s ix = None"
    using core_not_active [OF assms(1,2)] core_not_zombie [OF assms(1,2)] by simp_all
  have ix: "ix \<noteq> - 1" using pool_inv_id [OF core_pool [OF assms(1)] assms(2)] by simp
  have "role_tables ((workerToSide s)(ix \<mapsto> t)) (zombieWorkerToSide s) ((roles (workerMgr s))(ix \<mapsto> SERVING_ACTIVE))"
    using rt none unfolding role_tables_def by simp
  moreover have "pool_inv (set_role ix SERVING_ACTIVE (workerMgr s))"
    using core_pool [OF assms(1)] assms(2) by (rule pool_inv_set_role) simp_all
  ultimately show ?thesis
    using seat_tables_join [OF tabs(1) assms(4) none(1) ix] occupied_join [of t "activeSides s" ix] tabs(2)
      assms(3,4) ix
    by (simp add: conn_inv_def joined_state_def)
qed

lemma last_deal_dom:
  assumes "core_inv sc s"
  shows "dom (last_deal s) = set sides"
proof -
  have "fair (gameScenario s)" "gameScenario s \<noteq> []" using assms by (simp_all add: core_inv_def)
  moreover from this have "min (roundNumber s) (length (gameScenario s) - 1) < length (gameScenario s)"
    by (simp add: min_less_iff_disj)
  ultimately show ?thesis unfolding last_deal_def by (intro fair_deal(1))
qed

lemma last_deal_nonempty: "core_inv sc s \<Longrightarrow> last_deal s \<noteq> Map.empty"
  using last_deal_dom [of sc s] by auto

text \<open>The first time four players are there, or whenever the game has started, the state is in order.\<close>

lemma core_inv_join:
  assumes "core_inv sc s" and "roles (workerMgr s) ix = Some SERVING_UNKNOWN" and "real_side t"
    and "activeSides s t = Some (- 1)"
  shows "lastDeal s \<noteq> Map.empty \<or> playersConnected s + 1 < 4 \<Longrightarrow> core_inv sc (joined_state ix t s)"
    and "lastDeal s = Map.empty \<Longrightarrow> core_inv sc ((joined_state ix t s)\<lparr>lastDeal := hands s\<rparr>)"
proof -
  note join = conn_inv_join [OF assms]
  have deal: "deal_inv s" and rest: "sc = gameScenario s" "fair (gameScenario s)" "gameScenario s \<noteq> []" "game_shape s"
    "plays (gameScenario s) (game_of s)" "flag_inv (joined_state ix t s)"
    using assms(1) by (simp_all add: core_inv_def flag_inv_def joined_state_def)
  have other: "roundNumber (joined_state ix t s) = roundNumber s" "exiting (joined_state ix t s) = exiting s"
    by (simp_all add: joined_state_def)
  show "core_inv sc (joined_state ix t s)" if "lastDeal s \<noteq> Map.empty \<or> playersConnected s + 1 < 4"
  proof -
    have "deal_inv (joined_state ix t s)"
      using deal that unfolding deal_inv_def join_frame other by auto
    with join rest show ?thesis by (simp add: core_inv_def join_frame)
  qed
  show "core_inv sc ((joined_state ix t s)\<lparr>lastDeal := hands s\<rparr>)" if "lastDeal s = Map.empty"
  proof -
    have "hands s = last_deal s" using deal that last_deal_nonempty [OF assms(1)] unfolding deal_inv_def by metis
    then have "deal_inv ((joined_state ix t s)\<lparr>lastDeal := hands s\<rparr>)"
      using deal unfolding deal_inv_def join_frame by (simp add: other join_frame)
    with join rest show ?thesis by (simp add: core_inv_def join_frame flag_inv_def)
  qed
qed

text \<open>What the new player is told: the deal and the tricks taken so far.\<close>

definition catch_up :: "side \<Rightarrow> server \<Rightarrow> send_job list" where
  "catch_up t s = SendDealJob (roundMode s) (nextMove s) (get [] t (last_deal s)) # takenInRound s"

lemma send_list_eq:
  "mgr_free (workerMgr s) \<Longrightarrow> known (workerMgr s) ix \<Longrightarrow>
   foldE (\<lambda>msg. send_to no_write_error msg ix) ms s = Inr (post (map (\<lambda>j. (j, ix)) ms) s)"
  by (induction ms arbitrary: s) (simp_all add: send_to_eq)

text \<open>The new state, and whether the messages of a move are due.\<close>

definition wake_all :: "server \<Rightarrow> server" where
  "wake_all s = s\<lparr>workerMgr := bump_role SERVING_UNKNOWN (bump_role CLEANUP_UNKNOWN
                    (bump_role SERVING_ACTIVE (workerMgr s)))\<rparr>"

definition welcomed :: "int \<Rightarrow> side \<Rightarrow> server \<Rightarrow> server" where
  "welcomed ix t s =
     (let s1 = joined_state ix t s in
      if lastDeal s = Map.empty then
        if playersConnected s1 = 4 then
          post_sides (deal_msgs (game_of s) @ trick_msg (game_of s)) (s1\<lparr>lastDeal := hands s\<rparr>)
        else s1
      else
        let s2 = post (map (\<lambda>j. (j, ix)) (catch_up t s)) s1 in
        if playersConnected s1 = 4 then post_sides (trick_msg (game_of s)) (wake_all s2) else s2)"

lemma core_inv_wake: "core_inv sc s \<Longrightarrow> core_inv sc (wake_all s)"
  unfolding wake_all_def by (rule core_inv_mgr) (simp_all add: core_pool)

lemma wake_simps [simp]:
  "game_of (wake_all s) = game_of s" "playersConnected (wake_all s) = playersConnected s"
  "trickNo (wake_all s) = trickNo s" "nextMove (wake_all s) = nextMove s"
  by (simp_all add: wake_all_def)

lemma signals_eq:
  assumes "core_inv sc s"
  shows "bindE (mgr_op no_write_error (\<lambda>cb. signalRole no_write_error cb SERVING_ACTIVE) s) (\<lambda>s.
         bindE (mgr_op no_write_error (\<lambda>cb. signalRole no_write_error cb CLEANUP_UNKNOWN) s) (\<lambda>s.
         bindE (mgr_op no_write_error (\<lambda>cb. signalRole no_write_error cb SERVING_UNKNOWN) s) f)) =
    f (wake_all s)"
  using op_signalRole [OF assms, of SERVING_ACTIVE] op_signalRole [OF core_inv_bump [OF assms], of CLEANUP_UNKNOWN]
    op_signalRole [OF core_inv_bump [OF core_inv_bump [OF assms]], of SERVING_UNKNOWN]
  by (simp add: wake_all_def)

lemma core_send_trick:
  assumes "core_inv sc s" and "\<not> playersConnected s < 4"
  shows "send_trick no_write_error s = Inr (post_sides (trick_msg (game_of s)) s)"
  using core_full [OF assms] core_turn [OF assms(1)] game_shape_trickNo [OF core_shape [OF assms(1)]]
  by (rule send_trick_eq)

lemma accept_player_eq:
  assumes inv: "core_inv sc s" and role: "roles (workerMgr s) ix = Some SERVING_UNKNOWN"
    and t: "real_side t" and free: "activeSides s t = Some (- 1)"
  shows "accept_player no_write_error t ix s = Inr (welcomed ix t s) \<and> core_inv sc (welcomed ix t s)"
proof -
  let ?j = "joined_state ix t s"
  have upd: "mgr_op no_write_error (\<lambda>cb. setRole ix SERVING_ACTIVE)
      (s\<lparr>activeSides := (activeSides s)(t \<mapsto> ix), workerToSide := (workerToSide s)(ix \<mapsto> t)\<rparr>) =
    Inr (s\<lparr>activeSides := (activeSides s)(t \<mapsto> ix), workerToSide := (workerToSide s)(ix \<mapsto> t),
           workerMgr := set_role ix SERVING_ACTIVE (workerMgr s)\<rparr>)"
    using core_free [OF inv] role by (simp add: mgr_op_def setRole_eq)
  have j: "s\<lparr>activeSides := (activeSides s)(t \<mapsto> ix), workerToSide := (workerToSide s)(ix \<mapsto> t),
      workerMgr := set_role ix SERVING_ACTIVE (workerMgr s), playersConnected := playersConnected s + 1\<rparr> = ?j"
    by (simp add: joined_state_def)
  note join = core_inv_join [OF inv role t free]
  have other: "playersConnected s + 1 \<le> 4"
    using core_conn [OF inv] occupied_join [of t "activeSides s" 0] t free occupied_le [of "(activeSides s)(t \<mapsto> 0)"]
    by (simp add: conn_inv_def)
  note code = accept_player_def upd bindE_simps Let_def
  show ?thesis
  proof (cases "lastDeal s = Map.empty")
    case True
    show ?thesis
    proof (cases "playersConnected s + 1 = 4")
      case False
      with other join(1) have "core_inv sc ?j" by simp
      with True False j show ?thesis
        by (simp add: code welcomed_def join_frame)
    next
      case four: True
      let ?d = "?j\<lparr>lastDeal := hands s\<rparr>"
      have d: "core_inv sc ?d" using join(2) [OF True] .
      have n: "\<not> playersConnected ?d < 4" using four by (simp add: join_frame)
      have "dom (hands ?d) = set sides" using core_shape [OF inv] by (simp add: game_shape_def join_frame)
      with core_full [OF d n] have deals:
        "send_deals no_write_error ?d = Inr (post_sides (deal_msgs (game_of ?d)) ?d)"
        by (rule send_deals_eq)
      let ?p = "post_sides (deal_msgs (game_of ?d)) ?d"
      have p: "core_inv sc ?p" using core_inv_post(2) [OF d] .
      have "send_trick no_write_error ?p = Inr (post_sides (trick_msg (game_of ?p)) ?p)"
        using core_send_trick [OF p] n by simp
      with True four deals j core_inv_post(2) [OF p, of "trick_msg (game_of s)"] show ?thesis
        by (simp add: code welcomed_def join_frame)
    qed
  next
    case False
    then have c: "core_inv sc ?j" using join(1) by simp
    have ld: "lastDeal s = last_deal s" using inv False by (auto simp: core_inv_def deal_inv_def)
    have k: "known (workerMgr ?j) ix"
      by (rule pool_inv_known [OF core_pool [OF c], of _ SERVING_ACTIVE]) (simp_all add: join_frame)
    let ?deal = "SendDealJob (roundMode s) (nextMove s) (get [] t (last_deal s))"
    have "t \<in> dom (lastDeal s)" using last_deal_dom [OF inv] t by (simp add: ld real_side_def)
    then have touch: "?j\<lparr>lastDeal := touch [] t (lastDeal s)\<rparr> = ?j"
      by (simp add: touch_dom) (simp add: joined_state_def)
    have "seated ?j t" using k by (simp add: seated_def act_def join_frame get_def)
    with core_free [OF c] have "send_side no_write_error ?deal t ?j = Inr (post_sides [(?deal, t)] ?j)"
      by (rule send_side_eq)
    also have "post_sides [(?deal, t)] ?j = post [(?deal, ix)] ?j"
      by (simp add: post_sides_def act_def join_frame get_def)
    finally have deal: "send_side no_write_error ?deal t ?j = Inr (post [(?deal, ix)] ?j)" .
    have list: "foldE (\<lambda>msg. send_to no_write_error msg ix) (takenInRound s) (post [(?deal, ix)] ?j) =
        Inr (post (map (\<lambda>j. (j, ix)) (catch_up t s)) ?j)"
      using core_free [OF c] k by (subst send_list_eq) (simp_all add: catch_up_def)
    let ?p = "post (map (\<lambda>j. (j, ix)) (catch_up t s)) ?j"
    have p: "core_inv sc ?p" using core_inv_post(1) [OF c] .
    show ?thesis
    proof (cases "playersConnected s + 1 = 4")
      case four: True
      have w: "core_inv sc (wake_all ?p)" using core_inv_wake [OF p] .
      have "send_trick no_write_error (wake_all ?p) = Inr (post_sides (trick_msg (game_of s)) (wake_all ?p))"
        using core_send_trick [OF w] four by (simp add: join_frame)
      with False four j deal touch list ld signals_eq [OF p, of "send_trick no_write_error"] core_inv_post(2) [OF w, of "trick_msg (game_of s)"]
      show ?thesis by (simp add: code welcomed_def join_frame del: bindE_eq_Inr)
    next
      case nf: False
      with False j deal touch list ld p show ?thesis
        by (simp add: code welcomed_def join_frame)
    qed
  qed
qed

definition refused :: "side list \<Rightarrow> int \<Rightarrow> server \<Rightarrow> server" where
  "refused ord ix s =
     post [(SendJobBusy (busy_list ord (activeSides s)), ix)]
       (s\<lparr>workerMgr := set_role ix CLEANUP_UNKNOWN (workerMgr s)\<rparr>)"

lemma with_game_eq:
  assumes "\<not> gameStateMutex s" and "f (s\<lparr>gameStateMutex := True\<rparr>) = Inr (r, s')"
  shows "with_game f s = Inr (r, s'\<lparr>gameStateMutex := False\<rparr>)"
  using assms by (simp add: with_game_def)

lemma intro_body:
  fixes ord :: "side list"
  assumes inv: "core_inv sc s" and role: "roles (workerMgr s) ix = Some SERVING_UNKNOWN" and t: "real_side t"
  defines "s' \<equiv> (if activeSides s t = Some (- 1) then welcomed ix t s else refused ord ix s)"
  shows "bindE (getRole ix (workerMgr s)) (\<lambda>role.
     if role \<noteq> SERVING_UNKNOWN then
       if playersConnected s < 4 then Inr (False, s)
       else bindE (mgr_op no_write_error (\<lambda>cb. sendKill no_write_error cb ix False) s) (\<lambda>s.
            bindE (mgr_op no_write_error (\<lambda>cb. setRole ix CLEANUP) s) (\<lambda>s. Inr (True, s)))
     else
       let a = get 0 t (activeSides s); s = s\<lparr>activeSides := touch 0 t (activeSides s)\<rparr> in
       if a = - 1 then bindE (accept_player no_write_error t ix s) (\<lambda>s. Inr (True, s))
       else bindE (mgr_op no_write_error (\<lambda>cb. setRole ix CLEANUP_UNKNOWN) s) (\<lambda>s.
            bindE (send_to no_write_error (SendJobBusy (busy_list ord (activeSides s))) ix s) (\<lambda>s.
            Inr (True, s)))) = Inr (True, s') \<and> core_inv sc s'"
proof -
  have "t \<in> dom (activeSides s)"
    using core_conn [OF inv] t by (simp add: conn_inv_def seat_tables_def real_side_def)
  then obtain a where a: "activeSides s t = Some a" by blast
  then have touch: "s\<lparr>activeSides := touch 0 t (activeSides s)\<rparr> = s" by (cases s) auto
  let ?u = "s\<lparr>workerMgr := set_role ix CLEANUP_UNKNOWN (workerMgr s)\<rparr>"
  have u: "core_inv sc ?u" using core_inv_refuse [OF inv role] by simp
  have busy: "send_to no_write_error j ix ?u = Inr (post [(j, ix)] ?u)" for j
    using u by (rule op_send [where r = CLEANUP_UNKNOWN]) simp_all
  show ?thesis
  proof (cases "a = - 1")
    case True
    with accept_player_eq [OF inv role t] a touch role show ?thesis
      by (simp add: op_getRole [OF inv] s'_def del: bindE_eq_Inr)
  next
    case False
    with a touch role op_setRole [OF inv, of ix CLEANUP_UNKNOWN] busy core_inv_post(1) [OF u] show ?thesis
      by (simp add: op_getRole [OF inv] s'_def refused_def del: bindE_eq_Inr)
  qed
qed

lemma playerIntro_eq:
  assumes "srv_inv sc s" and "roles (workerMgr s) ix = Some SERVING_UNKNOWN" and "real_side t"
  shows "playerIntro no_write_error ord t ix s =
    Inr (True, (if activeSides s t = Some (- 1) then welcomed ix t (s\<lparr>gameStateMutex := True\<rparr>)
                else refused ord ix (s\<lparr>gameStateMutex := True\<rparr>))\<lparr>gameStateMutex := False\<rparr>)"
proof -
  have "\<not> gameStateMutex s" "core_inv sc (s\<lparr>gameStateMutex := True\<rparr>)" using assms(1) by (simp_all add: srv_inv_def)
  with intro_body [of sc "s\<lparr>gameStateMutex := True\<rparr>" ix t ord] assms(2,3) show ?thesis
    unfolding playerIntro_def by (intro with_game_eq) simp_all
qed

lemma playerIntro_inv:
  assumes "srv_inv sc s" and "role_is (\<lambda>r. r = SERVING_UNKNOWN \<or> playersConnected s < 4) ix s" and "real_side t"
  shows "\<exists>b s'. playerIntro no_write_error ord t ix s = Inr (b, s') \<and> srv_inv sc s'"
proof (cases "roles (workerMgr s) ix = Some SERVING_UNKNOWN")
  case True
  show ?thesis
    unfolding playerIntro_def
  proof (rule with_game_ok [where P = "\<lambda>s. roles (workerMgr s) ix = Some SERVING_UNKNOWN", OF assms(1)])
    fix s
    assume "core_inv sc s" "roles (workerMgr s) ix = Some SERVING_UNKNOWN"
    from intro_body [OF this assms(3), of ord]
    show "\<exists>b s'. bindE (getRole ix (workerMgr s)) (\<lambda>role.
     if role \<noteq> SERVING_UNKNOWN then
       if playersConnected s < 4 then Inr (False, s)
       else bindE (mgr_op no_write_error (\<lambda>cb. sendKill no_write_error cb ix False) s) (\<lambda>s.
            bindE (mgr_op no_write_error (\<lambda>cb. setRole ix CLEANUP) s) (\<lambda>s. Inr (True, s)))
     else
       let a = get 0 t (activeSides s); s = s\<lparr>activeSides := touch 0 t (activeSides s)\<rparr> in
       if a = - 1 then bindE (accept_player no_write_error t ix s) (\<lambda>s. Inr (True, s))
       else bindE (mgr_op no_write_error (\<lambda>cb. setRole ix CLEANUP_UNKNOWN) s) (\<lambda>s.
            bindE (send_to no_write_error (SendJobBusy (busy_list ord (activeSides s))) ix s) (\<lambda>s.
            Inr (True, s)))) = Inr (b, s') \<and> core_inv sc s'" by blast
  qed (use True in simp)
next
  case False
  with assms(2) obtain r where r: "roles (workerMgr s) ix = Some r" "r \<noteq> SERVING_UNKNOWN" "playersConnected s < 4"
    by (auto elim!: role_isE)
  have "\<not> gameStateMutex s" "core_inv sc (s\<lparr>gameStateMutex := True\<rparr>)" using assms(1) by (simp_all add: srv_inv_def)
  with r assms(1) op_getRole [of sc "s\<lparr>gameStateMutex := True\<rparr>" ix] show ?thesis
    by (simp add: playerIntro_def with_game_def srv_inv_def)
qed

section \<open>New connections and the cleaner\<close>

lemma core_inv_spawn:
  assumes "core_inv sc s" and "role = SERVING_UNKNOWN \<or> role = SERVING_PROXY"
    and "spawnNewWorker cb (Inr (rd, wrt)) role mk (workerMgr s) = Inr m'"
  shows "core_inv sc (s\<lparr>workerMgr := m'\<rparr>)"
proof -
  have "role \<noteq> SHUTDOWN" using assms(2) by auto
  note sp = spawn_inv [OF core_pool [OF assms(1)] assms(3) this]
  have none: "workerToSide s (nextIx (workerMgr s)) = None" "zombieWorkerToSide s (nextIx (workerMgr s)) = None"
  proof -
    have r: "roles (workerMgr s) (nextIx (workerMgr s)) = None" using sp by blast
    have rt: "role_tables (workerToSide s) (zombieWorkerToSide s) (roles (workerMgr s))"
      using core_conn [OF assms(1)] by (simp add: conn_inv_def)
    then have "roles (workerMgr s) ix = Some SERVING_ACTIVE \<longleftrightarrow> workerToSide s ix \<noteq> None"
      "zombieWorkerToSide s ix \<noteq> None \<longrightarrow> roles (workerMgr s) ix \<noteq> None" for ix
      unfolding role_tables_def by auto
    with r show "workerToSide s (nextIx (workerMgr s)) = None"
      "zombieWorkerToSide s (nextIx (workerMgr s)) = None" by (metis option.distinct(1))+
  qed
  show ?thesis
    by (rule core_inv_role [OF assms(1), where ix = "nextIx (workerMgr s)" and r = role])
      (use sp none assms(2) in auto)
qed

lemma forwardConnection_inv:
  assumes "srv_inv sc s"
  shows "\<exists>u s'. forwardConnection no_write_error True (Inr (rd, wrt)) now fd addr s = Inr (u, s') \<and> srv_inv sc s'"
  unfolding forwardConnection_def
proof (rule with_game_ok [where P = "\<lambda>s. True", OF assms])
  fix s
  assume inv: "core_inv sc s"
  let ?mk = "\<lambda>rd ix. mk_handler rd ix fd addr (sOwnAddr s) (sTimeout s) now"
  obtain m' where m': "spawnNewWorker cb (Inr (rd, wrt)) SERVING_UNKNOWN ?mk (workerMgr s) = Inr m'" for cb
    using spawn_eq [OF core_free [OF inv]] by meson
  then have "mgr_op no_write_error (\<lambda>cb. spawnNewWorker cb (Inr (rd, wrt)) SERVING_UNKNOWN ?mk) s =
      Inr (s\<lparr>workerMgr := m'\<rparr>)" by (intro mgr_op_eq)
  with core_inv_spawn [OF inv _ m']
  show "\<exists>u s'. bindE (setTimeout True) (\<lambda>_.
     bindE (mgr_op no_write_error (\<lambda>cb. spawnNewWorker cb (Inr (rd, wrt)) SERVING_UNKNOWN
                   (\<lambda>rd ix. mk_handler rd ix fd addr (sOwnAddr s) (sTimeout s) now)) s) (\<lambda>s.
          Inr ((), s))) = Inr (u, s') \<and> core_inv sc s'" by simp
qed simp

lemma srv_inv_clean:
  assumes "srv_inv sc s" and "waitForClearing (workerMgr s) = Some (Inr (b, m'))"
  shows "srv_inv sc (s\<lparr>workerMgr := m'\<rparr>)"
proof -
  have inv: "core_inv sc s" using assms(1) by (simp add: srv_inv_def)
  note st = waitForClearing_step [OF assms(2) core_pool [OF inv]]
  have "core_inv sc (s\<lparr>workerMgr := m'\<rparr>)" by (rule core_inv_mgr [OF inv]) (use st in simp_all)
  with assms(1) show ?thesis by (simp add: srv_inv_def)
qed

lemma waitForClearing_free: "mgr_free m \<Longrightarrow> waitForClearing m \<noteq> Some (Inl e)"
  by (simp add: waitForClearing_def mgr_free_def Let_def)

text \<open>The worker's own thread changes its object.\<close>

definition own_step :: "int \<Rightarrow> io_worker \<Rightarrow> mgr \<Rightarrow> mgr" where
  "own_step ix w m = (case workers m ix of None \<Rightarrow> m | Some _ \<Rightarrow> m\<lparr>workers := (workers m)(ix \<mapsto> w)\<rparr>)"

lemma finishFlag_own [simp]: "finishFlag (own_step ix w m) = finishFlag m"
  by (simp add: own_step_def split: option.splits)

lemma pool_inv_own: "pool_inv m \<Longrightarrow> pool_inv (own_step ix w m) \<and> roles (own_step ix w m) = roles m"
proof (cases "workers m ix")
  case (Some w0)
  then have "erase_inv (m\<lparr>workers := (workers m)(ix \<mapsto> w)\<rparr>) = erase_inv m"
    by (auto simp: erase_inv_def known_def)
  with Some show "pool_inv m \<Longrightarrow> pool_inv (own_step ix w m) \<and> roles (own_step ix w m) = roles m"
    by (auto simp: own_step_def pool_inv_def mgr_free_def mgr_wf_def known_def insert_absorb domIff)
qed (simp add: own_step_def)

section \<open>The transition system\<close>

text \<open>
  Events: the callbacks, with the arguments the worker passes; a turn of the cleaner; a step of a
  worker on its own object.
\<close>

datatype event =
    Ev_intro "side list" side int
  | Ev_trick nat card int
  | Ev_wrong int
  | Ev_timeout int
  | Ev_exit "err_info list" int bool
  | Ev_connect int int int int net_address
  | Ev_clean
  | Ev_own int io_worker

fun handle :: "event \<Rightarrow> server \<Rightarrow> server res" where
  "handle (Ev_intro ord t ix) s = bindE (playerIntro no_write_error ord t ix s) (\<lambda>p. Inr (snd p))"
| "handle (Ev_trick n c ix) s = bindE (playerTricked no_write_error n c ix s) (\<lambda>p. Inr (snd p))"
| "handle (Ev_wrong ix) s = bindE (handleWrongMessage no_write_error ix s) (\<lambda>p. Inr (snd p))"
| "handle (Ev_timeout ix) s = bindE (handleTimeout no_write_error ix s) (\<lambda>p. Inr (snd p))"
| "handle (Ev_exit es ix hw) s = bindE (grandExitCallback no_write_error es ix hw s) (\<lambda>p. Inr (snd p))"
| "handle (Ev_connect rd wrt now fd addr) s =
     bindE (forwardConnection no_write_error True (Inr (rd, wrt)) now fd addr s) (\<lambda>p. Inr (snd p))"
| "handle Ev_clean s =
     (case waitForClearing (workerMgr s) of
        None \<Rightarrow> Inr s
      | Some r \<Rightarrow> bindE r (\<lambda>p. Inr (s\<lparr>workerMgr := clear_join (snd p)\<rparr>)))"
| "handle (Ev_own ix w) s = Inr (s\<lparr>workerMgr := own_step ix w (workerMgr s)\<rparr>)"

text \<open>
  When the workers may raise them: the worker has been spawned; it raises no more message events
  once it is shut down; the messages are those the parser lets through, a real side and a card made
  by \<^verbatim>\<open>fromString\<close>. A second introduction while four players are connected is left out: see
  \<open>second_intro_fails\<close>.
\<close>

fun admissible :: "event \<Rightarrow> server \<Rightarrow> bool" where
  "admissible (Ev_intro ord t ix) s \<longleftrightarrow>
     real_side t \<and> role_is (\<lambda>r. r = SERVING_UNKNOWN \<or> playersConnected s < 4) ix s"
| "admissible (Ev_trick n c ix) s \<longleftrightarrow> wf_card c \<and> role_is (\<lambda>r. True) ix s"
| "admissible (Ev_wrong ix) s \<longleftrightarrow> role_is (\<lambda>r. r \<noteq> SHUTDOWN) ix s"
| "admissible (Ev_timeout ix) s \<longleftrightarrow> role_is (\<lambda>r. True) ix s"
| "admissible (Ev_exit es ix hw) s \<longleftrightarrow> role_is (\<lambda>r. True) ix s"
| "admissible (Ev_connect rd wrt now fd addr) s \<longleftrightarrow> True"
| "admissible Ev_clean s \<longleftrightarrow> True"
| "admissible (Ev_own ix w) s \<longleftrightarrow> True"

lemma pool_inv_join:
  "pool_inv (clear_join m) = pool_inv m" "roles (clear_join m) = roles m" "finishFlag (clear_join m) = finishFlag m"
  by (simp_all add: clear_join_def pool_inv_def erase_inv_def mgr_free_def mgr_wf_def known_def)

lemma handle_ok:
  assumes "srv_inv sc s" and "admissible e s"
  shows "\<exists>s'. handle e s = Inr s' \<and> srv_inv sc s'"
proof -
  have inv: "core_inv sc s" using assms(1) by (simp add: srv_inv_def)
  show ?thesis
  proof (cases e)
    case (Ev_intro ord t ix)
    with playerIntro_inv [OF assms(1), of ix t ord] assms(2) show ?thesis by auto
  next
    case (Ev_trick n c ix)
    with playerTricked_inv [OF assms(1), of ix c n] assms(2) show ?thesis by auto
  next
    case (Ev_wrong ix)
    with handleWrongMessage_inv [OF assms(1), of ix] assms(2) show ?thesis by auto
  next
    case (Ev_timeout ix)
    with handleTimeout_inv [OF assms(1), of ix] assms(2) show ?thesis by auto
  next
    case (Ev_exit es ix hw)
    with grandExitCallback_inv [OF assms(1), of ix es hw] assms(2) show ?thesis by auto
  next
    case (Ev_connect rd wrt now fd addr)
    with forwardConnection_inv [OF assms(1), of rd wrt now fd addr] show ?thesis by auto
  next
    case Ev_clean
    show ?thesis
    proof (cases "waitForClearing (workerMgr s)")
      case None
      with Ev_clean assms(1) show ?thesis by simp
    next
      case (Some r)
      with waitForClearing_free [OF core_free [OF inv]] obtain b m' where r: "r = Inr (b, m')"
        by (cases r) auto
      have "core_inv sc (s\<lparr>workerMgr := m'\<rparr>)"
        using srv_inv_clean [OF assms(1)] Some r by (simp add: srv_inv_def)
      then have "core_inv sc ((s\<lparr>workerMgr := m'\<rparr>)\<lparr>workerMgr := clear_join m'\<rparr>)"
        by (rule core_inv_mgr) (use \<open>core_inv sc (s\<lparr>workerMgr := m'\<rparr>)\<close> in \<open>simp_all add: pool_inv_join core_inv_def\<close>)
      with Ev_clean Some r assms(1) show ?thesis by (simp add: srv_inv_def)
    qed
  next
    case (Ev_own ix w)
    have "core_inv sc (s\<lparr>workerMgr := own_step ix w (workerMgr s)\<rparr>)"
      by (rule core_inv_mgr [OF inv]) (use pool_inv_own [OF core_pool [OF inv]] in simp_all)
    with Ev_own assms(1) show ?thesis by (simp add: srv_inv_def)
  qed
qed

inductive runs :: "game_scenario \<Rightarrow> server \<Rightarrow> bool" for sc where
  start: "run_start no_write_error env (Inr (rd, wrt)) now (Server sc port tmo) = Inr s \<Longrightarrow> runs sc s"
| event: "runs sc s \<Longrightarrow> admissible e s \<Longrightarrow> handle e s = Inr s' \<Longrightarrow> runs sc s'"

inductive_cases runs_cases: "runs sc s"

end
