(* ===== verification/Server_Correct.thy ===== *)
theory Server_Correct
  imports Server_Inv
begin

text \<open>
  The running server: its first state satisfies the invariant, so every state it reaches does; the
  table can be filled from any of them; what a card and an introduction do to the queues of the
  players. It ends with the ways in which the code fails.
\<close>

section \<open>The first state\<close>

lemma start_inv:
  assumes "run_start no_write_error env (Inr (rd, wrt)) now (Server sc port tmo) = Inr s"
    and "fair sc" and "sc \<noteq> []"
  shows "srv_inv sc s"
proof -
  obtain mode st starting where rnd: "sc ! 0 = (mode, st, starting)" by (cases "sc ! 0")
  obtain a where a: "s = (Server sc port tmo)\<lparr>roundMode := mode, hands := st, nextMove := starting,
      trickNo := 1, takenInRound := [], sOwnAddr := a, workerMgr := workerMgr s\<rparr>"
    and m: "spawnNewWorker (mgr_cb no_write_error ((Server sc port tmo)\<lparr>roundMode := mode, hands := st,
        nextMove := starting, trickNo := 1, takenInRound := [], sOwnAddr := a\<rparr>)) (Inr (rd, wrt)) SERVING_PROXY
        (\<lambda>rd ix. mk_connect rd ix (socket_fd env) a now) IOWorkerMgr = Inr (workerMgr s)"
    using assms(1,3) rnd
    by (auto simp: run_start_def prepareRound_def makeTCPSock_def mgr_op_def Server_def
        split: if_splits option.splits)
  let ?s = "(Server sc port tmo)\<lparr>roundMode := mode, hands := st, nextMove := starting,
      trickNo := 1, takenInRound := [], sOwnAddr := a\<rparr>"
  have dom: "dom st = set sides" using fair_deal(1) [OF assms(2), of 0] assms(3) rnd by simp
  have game: "game_of ?s = start_game sc"
    using rnd by (auto simp: game_of_def start_game_def deal_round_def Server_def fun_eq_iff get_def)
  have "game_shape ?s"
    using dom by (auto simp: game_shape_def Server_def taken_jobs_def split: if_splits)
  moreover have "plays sc (game_of ?s)" unfolding game by (rule plays.start)
  moreover have "conn_inv ?s"
    by (auto simp: conn_inv_def seat_tables_def role_tables_def occupied_def Server_def IOWorkerMgr_def
        sides_def get_def split: if_splits)
  moreover have "deal_inv ?s"
    using rnd assms(3) by (simp add: deal_inv_def last_deal_def Server_def)
  moreover have "pool_inv (workerMgr ?s)" using pool_inv_init by (simp add: Server_def)
  moreover have "gameScenario ?s = sc" by (simp add: Server_def)
  moreover have "flag_inv ?s" by (simp add: flag_inv_def Server_def)
  ultimately have "core_inv sc ?s" using assms(2,3) by (simp add: core_inv_def)
  moreover have "workerMgr ?s = IOWorkerMgr" by (simp add: Server_def)
  ultimately have "core_inv sc (?s\<lparr>workerMgr := workerMgr s\<rparr>)"
    using m core_inv_spawn [of sc ?s SERVING_PROXY] by simp
  then have "core_inv sc s" using a by simp
  moreover have "\<not> gameStateMutex s" by (subst a) (simp add: Server_def)
  ultimately show ?thesis by (simp add: srv_inv_def)
qed

lemma runs_inv: "runs sc s \<Longrightarrow> fair sc \<Longrightarrow> sc \<noteq> [] \<Longrightarrow> srv_inv sc s"
proof (induction rule: runs.induct)
  case (start env rd wrt now port tmo s)
  then show ?case using start_inv by blast
next
  case (event s e s')
  with handle_ok [of sc s e] show ?case by auto
qed

lemma runs_core: "runs sc s \<Longrightarrow> fair sc \<Longrightarrow> sc \<noteq> [] \<Longrightarrow> core_inv sc s"
  using runs_inv by (auto simp: srv_inv_def)

text \<open>A run begins whenever the system calls succeed.\<close>

definition good_env :: tcp_env where
  "good_env = \<lparr>socket_fd = 3, sockopt1_ok = True, sockopt2_ok = True, bind_ok = True,
               sockname = Some (htons 1234, ''::''), listen_ok = True\<rparr>"

lemma start_game_of:
  assumes "run_start no_write_error env (Inr (rd, wrt)) now (Server sc port tmo) = Inr s" and "sc \<noteq> []"
  shows "game_of s = start_game sc"
proof -
  obtain mode st starting where rnd: "sc ! 0 = (mode, st, starting)" by (cases "sc ! 0")
  have "roundMode s = mode \<and> hands s = st \<and> nextMove s = starting \<and> takenInRound s = [] \<and> table s = [] \<and>
      gameScenario s = sc \<and> roundNumber s = 0 \<and> penaltiesRound s = Map.empty \<and>
      penalties s = [W \<mapsto> 0, E \<mapsto> 0, S \<mapsto> 0, N \<mapsto> 0]"
    using assms rnd
    by (auto simp: run_start_def prepareRound_def makeTCPSock_def mgr_op_def Server_def
        split: if_splits option.splits)
  then show ?thesis
    using rnd by (auto simp: game_of_def start_game_def deal_round_def fun_eq_iff get_def)
qed

lemma runs_exist: "sc \<noteq> [] \<Longrightarrow> \<exists>s. runs sc s \<and> game_of s = start_game sc"
proof -
  assume sc: "sc \<noteq> []"
  obtain mode st starting where rnd: "sc ! 0 = (mode, st, starting)" by (cases "sc ! 0")
  have "\<exists>s. run_start no_write_error good_env (Inr (4, 5)) 0 (Server sc 0 5) = Inr s"
    using sc rnd mgr_wf_init
    by (simp add: run_start_def prepareRound_def makeTCPSock_def getAddrStruct_def good_env_def mgr_op_def Server_def spawn_eq)
  then show ?thesis using runs.start start_game_of [OF _ sc] by blast
qed

section \<open>Filling the table\<close>

text \<open>No worker waits to be cleaned up.\<close>

definition serving :: "server \<Rightarrow> bool" where
  "serving s \<longleftrightarrow> (\<forall>ix r. roles (workerMgr s) ix = Some r \<longrightarrow> r \<noteq> CLEANUP \<and> r \<noteq> CLEANUP_UNKNOWN)"

lemma serving_upd:
  assumes "serving s" and "roles (workerMgr s') = (roles (workerMgr s))(ix \<mapsto> r)" and "r \<noteq> CLEANUP" "r \<noteq> CLEANUP_UNKNOWN"
  shows "serving s'"
  using assms by (auto simp: serving_def)

text \<open>A free side can be taken by a worker that has just connected.\<close>

lemma connect_step:
  assumes "srv_inv sc s"
  shows "\<exists>s' ix. handle (Ev_connect 0 1 0 0 (0, '''')) s = Inr s' \<and>
     roles (workerMgr s') = (roles (workerMgr s))(ix \<mapsto> SERVING_UNKNOWN) \<and> activeSides s' = activeSides s \<and>
     playersConnected s' = playersConnected s \<and> lastDeal s' = lastDeal s \<and> game_of s' = game_of s \<and>
     exiting s' = exiting s \<and> exitCode s' = exitCode s \<and> roles (workerMgr s) ix = None"
proof -
  let ?s = "s\<lparr>gameStateMutex := True\<rparr>"
  have free: "mgr_free (workerMgr s)" and nomx: "\<not> gameStateMutex s"
    using assms core_free by (auto simp: srv_inv_def)
  let ?mk = "\<lambda>rd ix. mk_handler rd ix 0 (0, '''') (sOwnAddr s) (sTimeout s) 0"
  obtain m' where m': "spawnNewWorker cb (Inr (0, 1)) SERVING_UNKNOWN ?mk (workerMgr s) = Inr m'" for cb
    using spawn_eq [OF free] by meson
  have r: "roles m' = (roles (workerMgr s))(nextIx (workerMgr s) \<mapsto> SERVING_UNKNOWN)"
    using m' spawn_eq [OF free, of undefined 0 1 SERVING_UNKNOWN ?mk] by auto
  have "handle (Ev_connect 0 1 0 0 (0, '''')) s = Inr (s\<lparr>workerMgr := m'\<rparr>)"
    using nomx m' by (cases s) (simp add: forwardConnection_def with_game_def mgr_op_def)
  moreover have "roles (workerMgr s) (nextIx (workerMgr s)) = None"
    using free unfolding mgr_free_def mgr_wf_def by (auto simp: domIff)
  ultimately show ?thesis using r
    by (intro exI [of _ "s\<lparr>workerMgr := m'\<rparr>"] exI [of _ "nextIx (workerMgr s)"]) simp
qed

lemma welcomed_tables:
  "activeSides (welcomed ix t s) = (activeSides s)(t \<mapsto> ix)"
  "playersConnected (welcomed ix t s) = playersConnected s + 1"
  "game_of (welcomed ix t s) = game_of s"
  "exiting (welcomed ix t s) = exiting s" "exitCode (welcomed ix t s) = exitCode s"
  "roles (workerMgr (welcomed ix t s)) = (roles (workerMgr s))(ix \<mapsto> SERVING_ACTIVE)"
  by (simp_all add: welcomed_def Let_def join_frame wake_all_def) (simp_all add: joined_state_def)

lemma game_of_mutex [simp]: "game_of (s\<lparr>gameStateMutex := b\<rparr>) = game_of s"
  by (simp add: game_of_def)

lemma join_step:
  assumes "runs sc s" and "fair sc" and "sc \<noteq> []" and "real_side t" and "activeSides s t = Some (- 1)"
  shows "\<exists>s'. runs sc s' \<and> playersConnected s' = playersConnected s + 1 \<and> game_of s' = game_of s \<and>
     exiting s' = exiting s \<and> exitCode s' = exitCode s \<and> (serving s \<longrightarrow> serving s') \<and>
     (playersConnected s' < 4 \<longrightarrow> lastDeal s = Map.empty \<longrightarrow> lastDeal s' = Map.empty) \<and>
     (\<exists>ix. activeSides s' = (activeSides s)(t \<mapsto> ix))"
proof -
  have inv: "srv_inv sc s" using assms(1-3) by (rule runs_inv)
  obtain s1 ix where s1: "handle (Ev_connect 0 1 0 0 (0, '''')) s = Inr s1"
    and roles: "roles (workerMgr s1) = (roles (workerMgr s))(ix \<mapsto> SERVING_UNKNOWN)"
    and act: "activeSides s1 = activeSides s"
    and n: "playersConnected s1 = playersConnected s" and g: "game_of s1 = game_of s" "exiting s1 = exiting s"
      "exitCode s1 = exitCode s" "lastDeal s1 = lastDeal s"
    using connect_step [OF inv] by blast
  then have role: "roles (workerMgr s1) ix = Some SERVING_UNKNOWN" by simp
  have r1: "runs sc s1" by (rule runs.event [OF assms(1) _ s1]) simp
  then have inv1: "srv_inv sc s1" using assms(2,3) by (rule runs_inv)
  let ?s2 = "(welcomed ix t (s1\<lparr>gameStateMutex := True\<rparr>))\<lparr>gameStateMutex := False\<rparr>"
  have "handle (Ev_intro [] t ix) s1 = Inr ?s2"
    using playerIntro_eq [OF inv1 role assms(4), of "[]"] act assms(5) by simp
  moreover have "admissible (Ev_intro [] t ix) s1" using assms(4) role by (simp add: role_is_def)
  ultimately have "runs sc ?s2" by (rule runs.event [OF r1, rotated])
  moreover have "serving ?s2" if "serving s"
    by (rule serving_upd [OF serving_upd [OF that roles], of _ ix SERVING_ACTIVE]) (simp_all add: welcomed_tables)
  moreover have "lastDeal ?s2 = Map.empty" if "playersConnected ?s2 < 4" "lastDeal s = Map.empty"
    using that g(4) by (simp add: welcomed_tables) (simp add: welcomed_def Let_def join_frame joined_state_def)
  ultimately show ?thesis using act n g by (intro exI [of _ ?s2]) (auto simp: welcomed_tables)
qed

lemma fill_table:
  assumes "runs sc s" and "fair sc" and "sc \<noteq> []"
  shows "\<exists>s'. runs sc s' \<and> playersConnected s' = 4 \<and> game_of s' = game_of s \<and> exiting s' = exiting s \<and>
     exitCode s' = exitCode s \<and> (serving s \<longrightarrow> serving s')"
  using assms(1)
proof (induction "nat (4 - playersConnected s)" arbitrary: s rule: less_induct)
  case less
  have inv: "core_inv sc s" using less.prems assms(2,3) by (rule runs_core)
  then have count: "playersConnected s = occupied (activeSides s)"
    and tabs: "seat_tables (activeSides s) (workerToSide s)"
    using core_conn by (auto simp: conn_inv_def)
  show ?case
  proof (cases "playersConnected s = 4")
    case True
    with less.prems show ?thesis by blast
  next
    case False
    then have lt: "playersConnected s < 4" using count occupied_le [of "activeSides s"] by simp
    have "\<not> (\<forall>t \<in> set sides. get 0 t (activeSides s) \<noteq> - 1)"
    proof
      assume "\<forall>t \<in> set sides. get 0 t (activeSides s) \<noteq> - 1"
      then have "occupied (activeSides s) = int (length sides)"
        unfolding occupied_def by (simp only: filter_True)
      with lt count show False by (simp add: sides_def)
    qed
    then obtain t where t: "t \<in> set sides" "get 0 t (activeSides s) = - 1" by blast
    then have "t \<in> dom (activeSides s)" using seat_tablesD(1) [OF tabs] by simp
    with t have "activeSides s t = Some (- 1)" by (auto simp: get_def)
    then obtain s' where s': "runs sc s'" "playersConnected s' = playersConnected s + 1" "game_of s' = game_of s"
      "exiting s' = exiting s" "exitCode s' = exitCode s" "serving s \<longrightarrow> serving s'"
      using join_step [OF less.prems assms(2,3), of t] t(1) by (auto simp: real_side_def)
    have "nat (4 - playersConnected s') < nat (4 - playersConnected s)" using s'(2) lt by simp
    from less.hyps [OF this s'(1)] s'(3-6) show ?thesis by auto
  qed
qed

section \<open>What a card does\<close>

lemma four_active:
  assumes "core_inv sc s" and "\<not> playersConnected s < 4" and "real_side t"
  shows "activeSides s t = Some (act s t) \<and> workerToSide s (act s t) = Some t \<and> known (workerMgr s) (act s t)"
proof -
  have tabs: "seat_tables (activeSides s) (workerToSide s)" and count: "playersConnected s = occupied (activeSides s)"
    using core_conn [OF assms(1)] by (simp_all add: conn_inv_def)
  have "occupied (activeSides s) = 4" using assms(2) count occupied_le [of "activeSides s"] by simp
  then have n: "act s t \<noteq> - 1" using occupied_four assms(3) by (simp add: act_def)
  have "t \<in> dom (activeSides s)" using seat_tablesD(1) [OF tabs] assms(3) by (simp add: real_side_def)
  then have "activeSides s t = Some (act s t)" by (auto simp: act_def)
  moreover have "known (workerMgr s) (act s t)"
    using core_full [OF assms(1,2)] assms(3) by (simp add: table_full_def seated_def)
  ultimately show ?thesis using seat_tablesD(2) [OF tabs] n by blast
qed

lemma act_inj:
  assumes "core_inv sc s" and "\<not> playersConnected s < 4" and "real_side t" and "real_side u"
  shows "act s t = act s u \<longleftrightarrow> t = u"
  using four_active [OF assms(1,2,3)] four_active [OF assms(1,2,4)] by (metis option.inject)

definition for_side :: "side \<Rightarrow> (send_job \<times> side) list \<Rightarrow> send_job list" where
  "for_side u js = map fst (filter (\<lambda>p. snd p = u) js)"

lemma inbox_post_sides:
  assumes inv: "core_inv sc s" and four: "\<not> playersConnected s < 4" and u: "real_side u"
    and js: "\<forall>p \<in> set js. real_side (snd p)"
  shows "inbox (workerMgr (post_sides js s)) (act s u) = inbox (workerMgr s) (act s u) @ for_side u js"
proof -
  have "filter (\<lambda>p. snd p = act s u) (map (\<lambda>p. (fst p, act s (snd p))) js) =
      map (\<lambda>p. (fst p, act s (snd p))) (filter (\<lambda>p. snd p = u) js)"
    using js act_inj [OF inv four _ u] by (induction js) auto
  then have "map fst (filter (\<lambda>p. snd p = act s u) (map (\<lambda>p. (fst p, act s (snd p))) js)) = for_side u js"
    by (simp add: for_side_def comp_def)
  with four_active [OF inv four u] show ?thesis
    by (simp add: post_sides_def inbox_deliver)
qed

lemma to_all_real: "p \<in> set (to_all f) \<Longrightarrow> real_side (snd p)"
  by (auto simp: to_all_def)

lemma spec_msgs_real:
  assumes "in_round g" and "gLegal t n c g" and "fair (gScenario g)" and "p \<in> set (spec_msgs c g)"
  shows "real_side (snd p)"
proof -
  have turn: "real_side (gTurn g)" using assms(1) by (rule in_round_turn)
  have trick: "real_side (snd q)" if "q \<in> set (trick_msg h)" "real_side (gTurn h)" for q h
    using that by (auto simp: trick_msg_def)
  have turn2: "real_side (gTurn (next_trick (put_card c g)))" using turn by (simp add: real_side_winner)
  have turn3: "real_side (gTurn (deal_round h))"
    if "gScenario h = gScenario g" "gRound h = gRound g + 1" "gRound g + 1 < length (gScenario g)" for h
    using fair_deal(3) [OF assms(3) that(3)] that(1,2)
    by (cases "gScenario g ! Suc (gRound g)") (simp add: deal_round_def)
  obtain j u where p: "p = (j, u)" by (cases p)
  note cases = p turn turn2 assms(4) trick to_all_real
  from assms(1,2) show ?thesis
  proof (cases rule: spec_move_cases)
    case card
    with cases show ?thesis by (auto simp: spec_msgs_def)
  next
    case trick
    with cases show ?thesis by (auto simp: spec_msgs_def Let_def)
  next
    case last
    with cases show ?thesis by (auto simp: spec_msgs_def Let_def)
  next
    case round
    have "real_side (gTurn (deal_round (close_round (next_trick (put_card c g)))))"
      using round(3) by (intro turn3) simp_all
    with round cases show ?thesis by (auto simp: spec_msgs_def Let_def deal_msgs_def)
  qed
qed

text \<open>A card of a worker that serves, or served, the side \<open>t\<close>.\<close>

definition speaks_for :: "server \<Rightarrow> int \<Rightarrow> side \<Rightarrow> bool" where
  "speaks_for s ix t \<longleftrightarrow>
     roles (workerMgr s) ix = Some SERVING_ACTIVE \<and> workerToSide s ix = Some t \<or>
     roles (workerMgr s) ix = Some CLEANUP \<and> zombieWorkerToSide s ix = Some t"

lemma speaks_real: "core_inv sc s \<Longrightarrow> speaks_for s ix t \<Longrightarrow> real_side t"
  unfolding speaks_for_def using core_active_side core_zombie_side by (metis option.inject)

lemma playerTricked_speaks:
  assumes "srv_inv sc s" and "\<not> playersConnected s < 4" and "speaks_for s ix t"
    and "trick_move no_write_error n c t (s\<lparr>gameStateMutex := True\<rparr>) = Inr (b, s')"
  shows "playerTricked no_write_error n c ix s = Inr (b, s'\<lparr>gameStateMutex := False\<rparr>)"
proof -
  have "\<not> gameStateMutex s" "mgr_free (workerMgr s)"
    using assms(1) core_free by (auto simp: srv_inv_def)
  with assms(2-4) show ?thesis
    by (auto simp: playerTricked_def with_game_def getRole_eq speaks_for_def)
qed

lemma playerTricked_legal:
  assumes inv: "srv_inv sc s" and four: "playersConnected s = 4" and sp: "speaks_for s ix t"
    and c: "wf_card c" and legal: "gLegal t n c (game_of s)"
  shows "\<exists>s'. playerTricked no_write_error n c ix s = Inr (True, s') \<and>
     game_of s' = spec_move c (game_of s) \<and> act s' = act s \<and> playersConnected s' = playersConnected s \<and>
     roles (workerMgr s') = roles (workerMgr s) \<and> exitCode s' = exitCode s \<and>
     (exiting s' \<longleftrightarrow> exiting s \<or> game_over (game_of s')) \<and>
     (\<forall>u. real_side u \<longrightarrow> inbox (workerMgr s') (act s u) =
        inbox (workerMgr s) (act s u) @ for_side u (spec_msgs c (game_of s)))"
proof -
  let ?s = "s\<lparr>gameStateMutex := True\<rparr>"
  have core: "core_inv sc ?s" and n4: "\<not> playersConnected ?s < 4"
    using inv four by (simp_all add: srv_inv_def)
  have t: "real_side t" using speaks_real [OF core, of ix] sp by (simp add: speaks_for_def)
  have leg: "gLegal t n c (game_of ?s)" using legal by simp
  obtain s1 where s1: "trick_move no_write_error n c t ?s =
       Inr (True, (if roundNumber s1 = length (gameScenario s1) then finalized else id)
                   (post_sides (spec_msgs c (game_of ?s)) s1))"
    "same_conn ?s s1" "game_of s1 = spec_move c (game_of ?s)" "game_shape s1" "lastDeal s1 = last_deal s1"
    using trick_move_eq [OF core n4 t c, of n] leg by (simp only: if_True) blast
  let ?js = "spec_msgs c (game_of s)"
  let ?p = "post_sides ?js s1"
  let ?r = "(if roundNumber s1 = length (gameScenario s1) then finalized else id) ?p"
  have code: "playerTricked no_write_error n c ix s = Inr (True, ?r\<lparr>gameStateMutex := False\<rparr>)"
    using playerTricked_speaks [OF inv _ sp] four s1(1) by simp
  have core1: "core_inv sc ((if roundNumber s1 = length (gameScenario s1) then finalized else id) s1)"
    using core_inv_move [OF core s1(2,3) leg s1(4,5)] .
  have gi: "game_inv (game_of s1)" using core_game [OF core1] by (simp split: if_splits)
  have over: "roundNumber s1 = length (gameScenario s1) \<longleftrightarrow> game_over (game_of s1)"
    using gi by (auto simp: game_inv_def game_over_def in_round_def round_started_def)
  have act: "act s1 = act s" using same_conn_act [OF s1(2)] by (simp add: act_def fun_eq_iff)
  have ex: "exiting s1 = exiting s" "playersConnected s1 = playersConnected s" "exitCode s1 = exitCode s"
    "roles (workerMgr s1) = roles (workerMgr s)"
    using s1(2) by (simp_all add: same_conn_def)
  have fair: "fair (gameScenario s)" using core by (simp add: core_inv_def)
  have "\<not> game_over (game_of s)" using game_over_no_move [OF _ t] legal by blast
  then have round: "in_round (game_of s)" using core_game [OF core] by (simp add: game_inv_def)
  have real: "\<forall>p \<in> set ?js. real_side (snd p)"
    using spec_msgs_real [OF round legal] fair by simp
  have core1': "core_inv sc (post_sides ?js ?s)" using core_inv_post(2) [OF core] .
  have box: "inbox (workerMgr ?r) (act s u) = inbox (workerMgr s) (act s u) @ for_side u ?js"
    if u: "real_side u" for u
  proof -
    have "workerMgr s1 = workerMgr s" using s1(2) by (simp add: same_conn_def)
    then have "workerMgr ?p = workerMgr (post_sides ?js ?s)"
      using act by (simp add: post_sides_def act_def fun_eq_iff)
    moreover have "inbox (workerMgr (post_sides ?js ?s)) (act s u) = inbox (workerMgr s) (act s u) @ for_side u ?js"
      using inbox_post_sides [OF core n4 u real] by (simp add: act_def)
    ultimately show ?thesis by simp
  qed
  show ?thesis
    using code s1(3) act ex over box
    by (intro exI [of _ "?r\<lparr>gameStateMutex := False\<rparr>"])
      (simp add: act_def fun_eq_iff)
qed

lemma playerTricked_illegal:
  assumes inv: "srv_inv sc s" and four: "playersConnected s = 4" and sp: "speaks_for s ix t"
    and c: "wf_card c" and illegal: "\<not> gLegal t n c (game_of s)"
  shows "\<exists>s'. playerTricked no_write_error n c ix s = Inr (True, s') \<and> game_of s' = game_of s \<and>
     act s' = act s \<and> exiting s' = exiting s \<and>
     (\<forall>u. real_side u \<longrightarrow> inbox (workerMgr s') (act s u) =
        inbox (workerMgr s) (act s u) @ (if u = t then [SendJobWrong (trickNo s)] else []))"
proof -
  let ?s = "s\<lparr>gameStateMutex := True\<rparr>"
  have core: "core_inv sc ?s" and n4: "\<not> playersConnected ?s < 4"
    using inv four by (simp_all add: srv_inv_def)
  have t: "real_side t" using speaks_real [OF core, of ix] sp by (simp add: speaks_for_def)
  let ?js = "[(SendJobWrong (trickNo s), t)]"
  have "trick_move no_write_error n c t ?s = Inr (True, post_sides ?js ?s)"
    using trick_move_eq [OF core n4 t c, of n] illegal by simp
  then have code: "playerTricked no_write_error n c ix s = Inr (True, (post_sides ?js ?s)\<lparr>gameStateMutex := False\<rparr>)"
    using playerTricked_speaks [OF inv _ sp] four by simp
  have box: "inbox (workerMgr (post_sides ?js ?s)) (act s u) =
      inbox (workerMgr s) (act s u) @ (if u = t then [SendJobWrong (trickNo s)] else [])" if u: "real_side u" for u
    using inbox_post_sides [OF core n4 u, of ?js] t by (auto simp: act_def for_side_def)
  show ?thesis
    using code box by (intro exI [of _ "(post_sides ?js ?s)\<lparr>gameStateMutex := False\<rparr>"])
      (simp add: act_def fun_eq_iff)
qed

section \<open>The game can be played to its end\<close>

lemma seated_speaks:
  assumes "core_inv sc s" and "\<not> playersConnected s < 4" and "real_side t"
  shows "speaks_for s (act s t) t"
  using four_active [OF assms] core_role_active [OF assms(1), of "act s t" t] by (simp add: speaks_for_def)

lemma legal_wf:
  assumes "core_inv sc s" and "real_side t" and "gLegal t n c (game_of s)"
  shows "wf_card c"
  using core_hands_wf [OF assms(1,2)] assms(3) by (auto simp: gLegal_def legal_move_def)

lemma move_step:
  assumes "runs sc s" and "fair sc" and "sc \<noteq> []" and "playersConnected s = 4" and "\<not> game_over (game_of s)"
  shows "\<exists>s'. runs sc s' \<and> playersConnected s' = 4 \<and> cards_left (game_of s) = Suc (cards_left (game_of s')) \<and>
     (game_over (game_of s') \<longrightarrow> exiting s') \<and> (serving s \<longrightarrow> serving s') \<and> exitCode s' = exitCode s \<and>
     (exiting s' \<longleftrightarrow> exiting s \<or> game_over (game_of s'))"
proof -
  have inv: "srv_inv sc s" using assms(1-3) by (rule runs_inv)
  then have core: "core_inv sc s" by (simp add: srv_inv_def)
  have round: "in_round (game_of s)" using core_game [OF core] assms(5) by (simp add: game_inv_def)
  let ?t = "nextMove s" and ?n = "gTrickNo (game_of s)"
  obtain c where legal: "gLegal ?t ?n c (game_of s)" using in_round_legal [OF round] by auto
  have t: "real_side ?t" using core_turn [OF core] .
  have sp: "speaks_for s (act s ?t) ?t" using core assms(4) t by (intro seated_speaks) simp_all
  have wf: "wf_card c" using legal_wf [OF core t legal] .
  obtain s' where s': "playerTricked no_write_error ?n c (act s ?t) s = Inr (True, s')"
    "game_of s' = spec_move c (game_of s)" "playersConnected s' = playersConnected s"
    "roles (workerMgr s') = roles (workerMgr s)" "exitCode s' = exitCode s"
    "exiting s' \<longleftrightarrow> exiting s \<or> game_over (game_of s')"
    using playerTricked_legal [OF inv assms(4) sp wf legal] by blast
  have "handle (Ev_trick ?n c (act s ?t)) s = Inr s'" using s'(1) by simp
  moreover have "admissible (Ev_trick ?n c (act s ?t)) s"
    using wf sp by (auto simp: role_is_def speaks_for_def)
  ultimately have "runs sc s'" by (rule runs.event [OF assms(1), rotated])
  then show ?thesis
    using s' assms(4) cards_left_move [OF round legal] by (intro exI [of _ s']) (simp add: serving_def)
qed

lemma play_to_end:
  assumes "runs sc s" and "fair sc" and "sc \<noteq> []" and "playersConnected s = 4"
    and "game_over (game_of s) \<longrightarrow> exiting s"
  shows "\<exists>s'. runs sc s' \<and> game_over (game_of s') \<and> exiting s'"
  using assms(1,4,5)
proof (induction "cards_left (game_of s)" arbitrary: s rule: less_induct)
  case less
  show ?case
  proof (cases "game_over (game_of s)")
    case True
    with less.prems show ?thesis by blast
  next
    case False
    from move_step [OF less.prems(1) assms(2,3) less.prems(2) False] less.hyps show ?thesis
      by (metis lessI)
  qed
qed

text \<open>On the way the server comes to a state in which one card is left.\<close>

lemma play_to_last:
  assumes "runs sc s" and "fair sc" and "sc \<noteq> []" and "playersConnected s = 4" and "\<not> exiting s"
    and "0 < cards_left (game_of s)"
  shows "\<exists>s'. runs sc s' \<and> playersConnected s' = 4 \<and> \<not> exiting s' \<and> cards_left (game_of s') = 1 \<and>
     exitCode s' = exitCode s \<and> (serving s \<longrightarrow> serving s')"
  using assms(1,4-6)
proof (induction "cards_left (game_of s)" arbitrary: s rule: less_induct)
  case less
  show ?case
  proof (cases "cards_left (game_of s) = 1")
    case True
    with less.prems show ?thesis by blast
  next
    case False
    have over: "game_over (game_of u) \<longleftrightarrow> cards_left (game_of u) = 0" if "runs sc u" for u
      using that runs_core core_game cards_left_over assms(2,3) by blast
    with less.prems have "\<not> game_over (game_of s)" by simp
    from move_step [OF less.prems(1) assms(2,3) less.prems(2) this] obtain u where u: "runs sc u"
      "playersConnected u = 4" "cards_left (game_of s) = Suc (cards_left (game_of u))"
      "serving s \<longrightarrow> serving u" "exitCode u = exitCode s" "exiting u \<longleftrightarrow> exiting s \<or> game_over (game_of u)" by blast
    with False over [OF u(1)] less.prems(3) have "\<not> exiting u" "0 < cards_left (game_of u)" by simp_all
    with less.hyps [of u] u show ?thesis by fastforce
  qed
qed

lemma over_exiting: "core_inv sc s \<Longrightarrow> game_over (game_of s) \<Longrightarrow> exiting s"
  by (simp add: core_inv_def deal_inv_def game_over_def)

lemma can_finish:
  assumes "runs sc s" and "fair sc" and "sc \<noteq> []"
  shows "\<exists>s'. runs sc s' \<and> game_over (game_of s') \<and> exiting s'"
proof -
  obtain s1 where s1: "runs sc s1" "playersConnected s1 = 4" using fill_table [OF assms] by blast
  have "core_inv sc s1" using runs_core [OF s1(1) assms(2,3)] .
  then show ?thesis using play_to_end [OF s1(1) assms(2,3) s1(2)] over_exiting by blast
qed

section \<open>Waiting, joining, leaving\<close>

text \<open>While a player is missing nothing is played.\<close>

lemma paused:
  assumes "\<not> gameStateMutex s" and "playersConnected s < 4"
  shows "playerTricked wr n c ix s = Inr (False, s)"
    and "\<not> exiting s \<Longrightarrow> handleWrongMessage wr ix s = Inr (False, s)"
    and "\<not> exiting s \<Longrightarrow> execMutexed f x s = Inr ((False, x), s)"
proof -
  have "s\<lparr>gameStateMutex := False\<rparr> = s" using assms(1) by (cases s) simp
  with assms show "playerTricked wr n c ix s = Inr (False, s)"
    "\<not> exiting s \<Longrightarrow> handleWrongMessage wr ix s = Inr (False, s)"
    "\<not> exiting s \<Longrightarrow> execMutexed f x s = Inr ((False, x), s)"
    by (simp_all add: playerTricked_def handleWrongMessage_def execMutexed_def with_game_def)
qed

text \<open>A player who takes a free side after the first deal.\<close>

lemma rejoin_inbox:
  assumes inv: "srv_inv sc s" and role: "roles (workerMgr s) ix = Some SERVING_UNKNOWN"
    and t: "real_side t" and free: "activeSides s t = Some (- 1)" and deal: "lastDeal s \<noteq> Map.empty"
  shows "\<exists>s'. playerIntro no_write_error ord t ix s = Inr (True, s') \<and>
     activeSides s' = (activeSides s)(t \<mapsto> ix) \<and> playersConnected s' = playersConnected s + 1 \<and>
     game_of s' = game_of s \<and>
     inbox (workerMgr s') ix = inbox (workerMgr s) ix @
       SendDealJob (roundMode s) (nextMove s) (get [] t (last_deal s)) # taken_jobs (gWon (game_of s)) @
       (if playersConnected s = 3 \<and> nextMove s = t then [SendJobTrick (table s) (trickNo s)] else [])"
proof -
  let ?s = "s\<lparr>gameStateMutex := True\<rparr>"
  have core: "core_inv sc ?s" using inv by (simp add: srv_inv_def)
  let ?w = "welcomed ix t ?s"
  have intro: "playerIntro no_write_error ord t ix s = Inr (True, ?w\<lparr>gameStateMutex := False\<rparr>)"
    using playerIntro_eq [OF inv role t] free by simp
  have wcore: "core_inv sc ?w"
    using accept_player_eq [OF core _ t] role free by simp
  let ?j = "joined_state ix t ?s"
  have k: "known (workerMgr ?j) ix"
    using pool_inv_known [OF core_pool [OF core]] role by (simp add: joined_state_def)
  have box: "inbox (workerMgr ?j) = inbox (workerMgr s)" by (simp add: joined_state_def)
  have catch: "catch_up t ?s =
      SendDealJob (roundMode s) (nextMove s) (get [] t (last_deal s)) # taken_jobs (gWon (game_of s))"
    using core_shape [OF core] by (simp add: catch_up_def game_shape_def last_deal_def)
  let ?p = "post (map (\<lambda>j. (j, ix)) (catch_up t ?s)) ?j"
  have pbox: "inbox (workerMgr ?p) ix = inbox (workerMgr s) ix @ catch_up t ?s"
    using k box by (simp add: inbox_deliver comp_def filter_map)
  have "inbox (workerMgr ?w) ix = inbox (workerMgr s) ix @ catch_up t ?s @
      (if playersConnected s = 3 \<and> nextMove s = t then [SendJobTrick (table s) (trickNo s)] else [])"
  proof (cases "playersConnected s + 1 = 4")
    case False
    then show ?thesis using deal pbox by (simp add: welcomed_def Let_def join_frame)
  next
    case True
    let ?q = "wake_all ?p"
    have w: "?w = post_sides (trick_msg (game_of s)) ?q"
      using deal True by (simp add: welcomed_def Let_def join_frame)
    have qcore: "core_inv sc ?q"
    proof -
      have "core_inv sc ?j" using core_inv_join(1) [OF core _ t] role free deal by simp
      then show ?thesis by (intro core_inv_wake core_inv_post)
    qed
    have q4: "\<not> playersConnected ?q < 4" using True by (simp add: join_frame)
    have qact: "act ?q t = ix" by (simp add: act_def wake_all_def join_frame get_def)
    have qbox: "inbox (workerMgr ?q) ix = inbox (workerMgr ?p) ix" by (simp add: wake_all_def)
    have turn: "real_side (nextMove s)" using core_turn [OF core] by simp
    have "inbox (workerMgr ?w) (act ?q t) = inbox (workerMgr ?q) (act ?q t) @ for_side t (trick_msg (game_of s))"
      unfolding w by (rule inbox_post_sides [OF qcore q4 t]) (simp add: trick_msg_def turn)
    moreover have "for_side t (trick_msg (game_of s)) =
        (if nextMove s = t then [SendJobTrick (table s) (trickNo s)] else [])"
      using game_shape_trickNo [OF core_shape [OF core]] by (auto simp: trick_msg_def for_side_def)
    ultimately show ?thesis using True pbox by (simp add: qact qbox)
  qed
  then show ?thesis
    using intro catch by (intro exI [of _ "?w\<lparr>gameStateMutex := False\<rparr>"]) (simp add: welcomed_tables)
qed

text \<open>A player who asks for a side that is taken.\<close>

lemma busy_inbox:
  assumes inv: "srv_inv sc s" and role: "roles (workerMgr s) ix = Some SERVING_UNKNOWN"
    and t: "real_side t" and taken: "activeSides s t \<noteq> Some (- 1)"
  shows "\<exists>s'. playerIntro no_write_error ord t ix s = Inr (True, s') \<and>
     activeSides s' = activeSides s \<and> playersConnected s' = playersConnected s \<and> game_of s' = game_of s \<and>
     roles (workerMgr s') ix = Some CLEANUP_UNKNOWN \<and>
     inbox (workerMgr s') ix = inbox (workerMgr s) ix @
       [SendJobBusy (filter (\<lambda>u. u \<in> dom (activeSides s) \<and> act s u \<noteq> - 1) ord)]"
proof -
  let ?s = "s\<lparr>gameStateMutex := True\<rparr>"
  have core: "core_inv sc ?s" using inv by (simp add: srv_inv_def)
  have intro: "playerIntro no_write_error ord t ix s = Inr (True, (refused ord ix ?s)\<lparr>gameStateMutex := False\<rparr>)"
    using playerIntro_eq [OF inv role t] taken by simp
  have k: "known (workerMgr s) ix"
    using pool_inv_known [OF core_pool [OF core]] role by simp
  have "busy_list ord (activeSides s) = filter (\<lambda>u. u \<in> dom (activeSides s) \<and> act s u \<noteq> - 1) ord"
    unfolding busy_list_def by (rule filter_cong) (auto simp: act_def split: option.splits)
  then show ?thesis
    using intro k
    by (intro exI [of _ "(refused ord ix ?s)\<lparr>gameStateMutex := False\<rparr>"])
      (simp add: refused_def inbox_deliver)
qed

text \<open>The fourth player, before the first deal: everybody is sent his hand.\<close>

lemma first_deal_inbox:
  assumes inv: "srv_inv sc s" and role: "roles (workerMgr s) ix = Some SERVING_UNKNOWN"
    and t: "real_side t" and free: "activeSides s t = Some (- 1)" and deal: "lastDeal s = Map.empty"
    and three: "playersConnected s = 3"
  shows "\<exists>s'. playerIntro no_write_error ord t ix s = Inr (True, s') \<and> playersConnected s' = 4 \<and>
     game_of s' = game_of s \<and> exiting s' = exiting s \<and> exitCode s' = exitCode s \<and>
     roles (workerMgr s') = (roles (workerMgr s))(ix \<mapsto> SERVING_ACTIVE) \<and>
     (\<forall>u. real_side u \<longrightarrow> inbox (workerMgr s') (act s' u) = inbox (workerMgr s) (act s' u) @
        for_side u (deal_msgs (game_of s) @ trick_msg (game_of s)))"
proof -
  let ?s = "s\<lparr>gameStateMutex := True\<rparr>"
  have core: "core_inv sc ?s" using inv by (simp add: srv_inv_def)
  let ?d = "(joined_state ix t ?s)\<lparr>lastDeal := hands s\<rparr>"
  let ?js = "deal_msgs (game_of s) @ trick_msg (game_of s)"
  have w: "welcomed ix t ?s = post_sides ?js ?d"
    using deal three by (simp add: welcomed_def Let_def join_frame)
  have intro: "playerIntro no_write_error ord t ix s = Inr (True, (post_sides ?js ?d)\<lparr>gameStateMutex := False\<rparr>)"
    using playerIntro_eq [OF inv role t] free w by simp
  have d: "core_inv sc ?d" using core_inv_join(2) [OF core _ t] role free deal by simp
  have four: "\<not> playersConnected ?d < 4" using three by (simp add: join_frame)
  have real: "\<forall>p \<in> set ?js. real_side (snd p)"
    using core_turn [OF core] to_all_real by (auto simp: deal_msgs_def trick_msg_def)
  have "inbox (workerMgr (post_sides ?js ?d)) (act ?d u) = inbox (workerMgr s) (act ?d u) @ for_side u ?js"
    if "real_side u" for u
    using inbox_post_sides [OF d four that real] by (simp add: joined_state_def)
  moreover have "act ((post_sides ?js ?d)\<lparr>gameStateMutex := False\<rparr>) = act ?d" by (simp add: act_def fun_eq_iff)
  ultimately show ?thesis using intro three
    by (intro exI [of _ "(post_sides ?js ?d)\<lparr>gameStateMutex := False\<rparr>"]) (simp add: join_frame, simp add: joined_state_def)
qed

text \<open>The worker of a player ends without an internal error.\<close>

lemma exit_errs_quiet:
  "\<forall>e \<in> set es. errType e \<noteq> IO_ERR_INTERNAL \<Longrightarrow>
   exit_errs wr es s = Inr (False, s\<lparr>sysLog := sysLog s @ es\<rparr>)"
  by (induction es arbitrary: s) (simp_all add: handleSysErr_def sys_err_body_def Let_def)

lemma leave_seat:
  assumes inv: "srv_inv sc s" and ix: "workerToSide s ix = Some t"
    and es: "\<forall>e \<in> set es. errType e \<noteq> IO_ERR_INTERNAL"
  shows "\<exists>b s'. grandExitCallback no_write_error es ix hw s = Inr (b, s') \<and>
     activeSides s' = (activeSides s)(t \<mapsto> - 1) \<and> playersConnected s' = playersConnected s - 1 \<and>
     game_of s' = game_of s \<and> lastDeal s' = lastDeal s \<and> zombieWorkerToSide s' ix = Some t \<and>
     (if b then roles (workerMgr s') ix = Some SHUTDOWN \<and> ix \<in> set (toErase (workerMgr s'))
      else roles (workerMgr s') ix = Some CLEANUP) \<and>
     (b \<longleftrightarrow> \<not> hw \<and> (playersConnected s = 4 \<or> exiting s))"
proof -
  let ?s = "s\<lparr>gameStateMutex := True, sysLog := sysLog s @ es\<rparr>"
  have core: "core_inv sc ?s" using inv by (simp add: srv_inv_def)
  have ix': "workerToSide ?s ix = Some t" using ix by simp
  have role: "roles (workerMgr s) ix = Some SERVING_ACTIVE" using core_role_active [OF core ix'] by simp
  have errs: "exit_errs no_write_error es (s\<lparr>gameStateMutex := True\<rparr>) = Inr (False, ?s)"
    using exit_errs_quiet [OF es] by simp
  have le: "playersConnected s \<le> 4"
    using core_conn [OF core] occupied_le by (simp add: conn_inv_def)
  note leave = op_leave(1,2) [OF core ix']
  have ls: "?s\<lparr>playersConnected := playersConnected s - 1, activeSides := (activeSides s)(t \<mapsto> - 1),
      zombieWorkerToSide := (zombieWorkerToSide s)(ix \<mapsto> t), workerToSide := (workerToSide s)(ix := None)\<rparr> =
      left_state ix t ?s"
    by (simp add: left_state_def)
  show ?thesis
  proof (cases "hw \<or> playersConnected s - 1 < 3 \<and> \<not> exiting s")
    case True
    then have "grandExitCallback no_write_error es ix hw s = Inr (False,
        ((left_state ix t ?s)\<lparr>workerMgr := set_role ix CLEANUP (workerMgr s)\<rparr>)\<lparr>gameStateMutex := False\<rparr>)"
      using inv errs role ix leave core_free [OF core]
      by (simp add: grandExitCallback_def exit_switch_def with_game_def srv_inv_def Let_def getRole_eq ls)
    then show ?thesis
      using True by (auto simp: left_state_def game_of_def)
  next
    case False
    then have "grandExitCallback no_write_error es ix hw s = Inr (True,
        ((left_state ix t ?s)\<lparr>workerMgr := erase_entry ix (set_role ix SHUTDOWN (workerMgr s))\<rparr>)
          \<lparr>gameStateMutex := False\<rparr>)"
      using inv errs role ix leave core_free [OF core]
      by (auto simp: grandExitCallback_def exit_switch_def with_game_def srv_inv_def Let_def getRole_eq ls)
    then show ?thesis
      using False le by (auto simp: left_state_def game_of_def)
  qed
qed

section \<open>Ways to fail\<close>

text \<open>
  A second introduction of an active player while all four are there: the worker's role becomes
  \<open>CLEANUP\<close>, but \<open>zombieWorkerToSide\<close> has no entry for it, and its next card throws.
\<close>

lemma second_intro_fails:
  assumes inv: "srv_inv sc s" and role: "roles (workerMgr s) ix = Some SERVING_ACTIVE"
    and four: "playersConnected s = 4"
  shows "\<exists>s'. playerIntro no_write_error ord u ix s = Inr (True, s') \<and>
     playerTricked no_write_error n c ix s' = Inl Out_of_range"
proof -
  let ?s = "s\<lparr>gameStateMutex := True\<rparr>"
  have core: "core_inv sc ?s" using inv by (simp add: srv_inv_def)
  have none: "zombieWorkerToSide s ix = None" using core_not_zombie [OF core, of ix] role by simp
  let ?m = "set_role ix CLEANUP (order_death ix (workerMgr s))"
  have free: "mgr_free (workerMgr s)" "known (workerMgr s) ix"
    using core_free [OF core] pool_inv_known [OF core_pool [OF core], of ix] role by simp_all
  then have ops: "mgr_op no_write_error (\<lambda>cb. sendKill no_write_error cb ix False) ?s =
      Inr (?s\<lparr>workerMgr := order_death ix (workerMgr s)\<rparr>)"
    "mgr_op no_write_error (\<lambda>cb. setRole ix CLEANUP) (?s\<lparr>workerMgr := order_death ix (workerMgr s)\<rparr>) =
      Inr (?s\<lparr>workerMgr := ?m\<rparr>)"
    using role by (simp_all add: mgr_op_def sendKill_eq setRole_eq)
  have "\<not> gameStateMutex s" using inv by (simp add: srv_inv_def)
  with role four free ops
  have "playerIntro no_write_error ord u ix s = Inr (True, (?s\<lparr>workerMgr := ?m\<rparr>)\<lparr>gameStateMutex := False\<rparr>)"
    by (simp add: playerIntro_def with_game_def getRole_eq)
  moreover have "playerTricked no_write_error n c ix ((?s\<lparr>workerMgr := ?m\<rparr>)\<lparr>gameStateMutex := False\<rparr>) =
      Inl Out_of_range"
    using four free role none by (simp add: playerTricked_def with_game_def getRole_eq map_at_def)
  ultimately show ?thesis by blast
qed

text \<open>
  A failing write to a worker's pipe calls back into the server with both mutexes held.
\<close>

lemma pipe_failure_deadlocks:
  assumes inv: "srv_inv sc s" and role: "roles (workerMgr s) ix = Some r" "r \<noteq> SHUTDOWN"
    and four: "playersConnected s = 4" and fail: "\<forall>fd. wr fd = Some e"
  shows "handleWrongMessage wr ix s = Inl Self_deadlock"
proof -
  let ?s = "s\<lparr>gameStateMutex := True\<rparr>"
  have core: "core_inv sc ?s" and mx: "\<not> gameStateMutex s" using inv by (simp_all add: srv_inv_def)
  have free: "\<not> threadsStructuresMutex (workerMgr s)" using core_free [OF core] by (simp add: mgr_free_def)
  obtain w where "workers (workerMgr s) ix = Some w"
    using pool_inv_known [OF core_pool [OF core]] role by (auto simp: known_def)
  with free four mx fail show ?thesis
    by (simp add: handleWrongMessage_def with_game_def mgr_op_def sendKill_def with_threads_def
        on_worker_def signal_def write_pipe_def Let_def mgr_cb_locked locked_cb_def)
qed

text \<open>Without a round to play the first read of the scenario is out of range.\<close>

lemma empty_scenario: "run_start wr env p now (Server [] port tmo) = Inl Undefined"
  by (simp add: run_start_def prepareRound_def Server_def)

section \<open>The end of the server\<close>

text \<open>An internal error of a worker makes the server end: every worker it still has is told to die.\<close>

lemma internal_error:
  assumes inv: "srv_inv sc s" and e: "errType e = IO_ERR_INTERNAL" and go: "\<not> exiting s"
  shows "\<exists>s'. grandExitCallback no_write_error [e] ix hw s = Inr (True, s') \<and> exiting s' \<and> exitCode s' = 1 \<and>
    finishFlag (workerMgr s') \<and> roles (workerMgr s') = roles (workerMgr s) \<and>
    playersConnected s' = playersConnected s \<and> game_of s' = game_of s \<and>
    (\<forall>jx. known (workerMgr s) jx \<and> jx \<notin> set (toErase (workerMgr s)) \<longrightarrow> killed (workerMgr s') jx)"
proof -
  let ?s = "s\<lparr>gameStateMutex := True, sysLog := sysLog s @ [e], exitCode := 1\<rparr>"
  have core: "core_inv sc (s\<lparr>gameStateMutex := True\<rparr>)" using inv by (simp add: srv_inv_def)
  have free: "mgr_free (workerMgr s)" using core_free [OF core] by simp
  have "exit_errs no_write_error [e] (s\<lparr>gameStateMutex := True\<rparr>) = Inr (True, finalized ?s)"
    using e finalize_eq [of ?s] free by (simp add: handleSysErr_def sys_err_body_def Let_def)
  then have "grandExitCallback no_write_error [e] ix hw s = Inr (True, (finalized ?s)\<lparr>gameStateMutex := False\<rparr>)"
    using inv by (simp add: grandExitCallback_def with_game_def srv_inv_def del: bindE_eq_Inr exit_errs.simps)
  moreover have "killed (kill_all (raise_flag (workerMgr s))) jx"
    if "known (workerMgr s) jx" "jx \<notin> set (toErase (workerMgr s))" for jx
    using that free by (intro killed_kill_all) (auto simp: raise_flag_def mgr_free_def mgr_wf_def known_def)
  ultimately show ?thesis using go by (simp add: finalized_def game_of_def raise_flag_def)
qed

text \<open>While a player is missing, a worker that is to be cleaned up is not let go, whatever else holds.\<close>

lemma cleanup_stays:
  assumes inv: "srv_inv sc s" and role: "roles (workerMgr s) ix = Some CLEANUP \<or> roles (workerMgr s) ix = Some CLEANUP_UNKNOWN"
    and missing: "playersConnected s \<noteq> 4" and es: "\<forall>e \<in> set es. errType e \<noteq> IO_ERR_INTERNAL"
  shows "grandExitCallback no_write_error es ix hw s = Inr (False, s\<lparr>sysLog := sysLog s @ es\<rparr>)"
proof -
  have core: "core_inv sc (s\<lparr>gameStateMutex := True\<rparr>)" and m: "\<not> gameStateMutex s" using inv by (simp_all add: srv_inv_def)
  have "getRole ix (workerMgr s) = map_at (roles (workerMgr s)) ix" using core_free [OF core] by (simp add: getRole_eq)
  moreover have "s\<lparr>gameStateMutex := False\<rparr> = s" using m by (cases s) simp
  ultimately show ?thesis using role missing m exit_errs_quiet [OF es, of no_write_error "s\<lparr>gameStateMutex := True\<rparr>"]
    by (cases s) (auto simp: grandExitCallback_def exit_switch_def with_game_def)
qed

lemma runs_open: "sc \<noteq> [] \<Longrightarrow> \<exists>s. runs sc s \<and> \<not> exiting s \<and> game_of s = start_game sc \<and> serving s \<and> exitCode s = 0 \<and>
     roles (workerMgr s) 0 = Some SERVING_PROXY \<and> playersConnected s = 0 \<and> lastDeal s = Map.empty \<and>
     activeSides s = [W \<mapsto> - 1, E \<mapsto> - 1, S \<mapsto> - 1, N \<mapsto> - 1]"
proof -
  assume sc: "sc \<noteq> []"
  obtain mode st starting where rnd: "sc ! 0 = (mode, st, starting)" by (cases "sc ! 0")
  have "\<exists>s. run_start no_write_error good_env (Inr (4, 5)) 0 (Server sc 0 5) = Inr s \<and> \<not> exiting s \<and>
      serving s \<and> exitCode s = 0 \<and> roles (workerMgr s) 0 = Some SERVING_PROXY \<and> playersConnected s = 0 \<and>
      lastDeal s = Map.empty \<and> activeSides s = [W \<mapsto> - 1, E \<mapsto> - 1, S \<mapsto> - 1, N \<mapsto> - 1]"
    using sc rnd mgr_wf_init
    by (simp add: run_start_def prepareRound_def makeTCPSock_def getAddrStruct_def good_env_def mgr_op_def Server_def
        spawn_eq serving_def) (simp add: IOWorkerMgr_def)
  then show ?thesis using runs.start start_game_of [OF _ sc] by blast
qed

end
