(* ===== verification/Server_Worker.thy ===== *)
theory Server_Worker
  imports IO_Worker_Correct Role_Frames Server_Correct
begin

text \<open>
  The worker threads on the real server: the callbacks of a worker are the server's member functions,
  as \<^verbatim>\<open>run\<close> and \<^verbatim>\<open>forwardConnection\<close> pass them, and its queue is the one in the object the
  manager holds. The laws of \<open>worker_server\<close> hold for the states the server reaches.
\<close>

section \<open>The context\<close>

definition own_queue :: "int \<Rightarrow> server \<Rightarrow> job_queue" where
  "own_queue ix s = (case workers (workerMgr s) ix of None \<Rightarrow> JobQueue | Some w \<Rightarrow> jobQueue w)"

definition put_queue :: "int \<Rightarrow> job_queue \<Rightarrow> server \<Rightarrow> server" where
  "put_queue ix q s =
     (case workers (workerMgr s) ix of
        None \<Rightarrow> s
      | Some w \<Rightarrow> s\<lparr>workerMgr := own_step ix (w\<lparr>jobQueue := q\<rparr>) (workerMgr s)\<rparr>)"

text \<open>
  The lambdas of \<^verbatim>\<open>run\<close> and \<^verbatim>\<open>forwardConnection\<close>. \<open>ord\<close> is the order of the map of sides; a
  new connection's \<^verbatim>\<open>setsockopt\<close> and \<^verbatim>\<open>pipe\<close> succeed, with the descriptors \<open>fds\<close>.
\<close>

definition server_ctx :: "sys_write \<Rightarrow> side list \<Rightarrow> int \<times> int \<Rightarrow> int \<Rightarrow> int \<Rightarrow> server worker_ctx" where
  "server_ctx wr ord fds now ix =
     \<lparr>ownQueue = own_queue ix, setQueue = put_queue ix,
      exitCb = grandExitCallback wr, timeoutCb = handleTimeout wr, execCb = execMutexed,
      introCb = playerIntro wr ord, trickCb = (\<lambda>k. playerTricked wr (size_t_of k)),
      invalidCb = handleWrongMessage wr,
      accCb = forwardConnection wr True (Inr fds) now\<rparr>"

section \<open>The laws\<close>

definition good_state :: "game_scenario \<Rightarrow> server \<Rightarrow> bool" where
  "good_state sc s \<longleftrightarrow> fair sc \<and> sc \<noteq> [] \<and> runs sc s"

definition present :: "int \<Rightarrow> server \<Rightarrow> bool" where
  "present ix s \<longleftrightarrow> role_is (\<lambda>r. True) ix s"

definition alive :: "int \<Rightarrow> server \<Rightarrow> bool" where
  "alive ix s \<longleftrightarrow> role_is (\<lambda>r. r \<noteq> SHUTDOWN) ix s"

definition may_intro :: "int \<Rightarrow> server \<Rightarrow> bool" where
  "may_intro ix s \<longleftrightarrow> role_is (\<lambda>r. r = SERVING_UNKNOWN \<or> playersConnected s < 4) ix s"

lemmas life_defs = present_def alive_def may_intro_def role_is_def

lemma good_step:
  assumes "good_state sc s" and "admissible e s"
  obtains s' where "handle e s = Inr s'" "good_state sc s'"
  using handle_ok [OF runs_inv assms(2)] runs.event [OF _ assms(2)] assms(1)
  unfolding good_state_def by metis

lemma kept_life: "kept s s' \<Longrightarrow> (present ix s \<longrightarrow> present ix s') \<and> (alive ix s \<longrightarrow> alive ix s')"
  by (auto simp: life_defs kept_def keeps_roles_def split: option.splits) force+

lemma good_mutex: "good_state sc s \<Longrightarrow> \<not> gameStateMutex s"
  using runs_inv by (auto simp: good_state_def srv_inv_def)

text \<open>A callback that is an event: what the event system proves of it, and what it does to the roles.\<close>

lemma callback_ok:
  assumes "good_state sc s" and "admissible e s" and "handle e s = bindE r (\<lambda>p. Inr (snd p))"
    and "\<And>b s'. r = Inr (b, s') \<Longrightarrow> kept s s'" and "alive ix s"
  shows "yields r (\<lambda>(b, s'). good_state sc s' \<and> alive ix s')"
proof -
  obtain s' where "handle e s = Inr s'" "good_state sc s'" using good_step [OF assms(1,2)] .
  with assms(3) obtain b where "r = Inr (b, s')" by auto
  with assms(4,5) kept_life \<open>good_state sc s'\<close> show ?thesis by (auto simp: yields_def)
qed

lemma good_exec:
  assumes "good_state sc s"
  shows "execMutexed f x s =
    Inr (if playersConnected s < 4 \<and> \<not> exiting s then (False, x) else (True, f x), s)"
proof -
  have "s\<lparr>gameStateMutex := False\<rparr> = s" using good_mutex [OF assms] by (cases s) simp
  with good_mutex [OF assms] show ?thesis by (simp add: execMutexed_def with_game_def)
qed

lemma good_exit:
  assumes "good_state sc s" and "present ix s"
  shows "yields (grandExitCallback no_write_error es ix hw s)
    (\<lambda>(b, s'). good_state sc s' \<and> present ix s' \<and> (alive ix s \<longrightarrow> \<not> b \<longrightarrow> alive ix s'))"
proof -
  obtain s' where s': "handle (Ev_exit es ix hw) s = Inr s'" "good_state sc s'"
    using good_step [OF assms(1), of "Ev_exit es ix hw"] assms(2) by (auto simp: present_def)
  then obtain b where b: "grandExitCallback no_write_error es ix hw s = Inr (b, s')" by auto
  have "present ix s'" using exit_kept [OF b] assms(2)
    by (auto simp: present_def role_is_def knows_def split: option.splits)
  with exit_kept [OF b] kept_life s'(2) b show ?thesis by (auto simp: yields_def)
qed

lemma good_queue: "good_state sc s \<Longrightarrow> good_state sc (put_queue ix q s)"
  using runs.event [of sc s "Ev_own ix w" for w]
  by (auto simp: good_state_def put_queue_def split: option.splits)

lemma alive_queue: "alive jx s \<Longrightarrow> alive jx (put_queue ix q s)"
  by (auto simp: put_queue_def own_step_def life_defs split: option.splits)

interpretation server_worker: worker_server
  "server_ctx no_write_error ord fds now ix" "good_state sc" present alive may_intro
  for ord fds now ix sc
proof (unfold_locales, unfold server_ctx_def worker_ctx.simps)
  fix s jx
  show "good_state sc s \<Longrightarrow> good_state sc (put_queue ix q s)" for q by (rule good_queue)
  show "alive jx s \<Longrightarrow> alive jx (put_queue ix q s)" for q by (rule alive_queue)
  show "alive jx s \<Longrightarrow> present jx s" by (auto simp: life_defs split: option.splits)
  assume good: "good_state sc s"
  show "present jx s \<Longrightarrow> yields (grandExitCallback no_write_error es jx hw s)
      (\<lambda>(b, s'). good_state sc s' \<and> present jx s' \<and> (alive jx s \<longrightarrow> \<not> b \<longrightarrow> alive jx s'))" for es hw
    by (rule good_exit [OF good])
  assume alive: "alive jx s"
  then have role: "role_is (\<lambda>r. r \<noteq> SHUTDOWN) jx s" "role_is (\<lambda>r. True) jx s"
    by (auto simp: life_defs split: option.splits)
  show "yields (handleTimeout no_write_error jx s) (\<lambda>(u, s'). good_state sc s' \<and> alive jx s')"
    by (rule callback_ok [OF good, of "Ev_timeout jx"]) (use role alive handleTimeout_kept in simp_all)
  show "yields (execMutexed f x s)
      (\<lambda>((b, y), s'). good_state sc s' \<and> alive jx s' \<and> y = (if b then f x else x))" for f and x :: "io_worker \<times> wire"
    using good alive by (simp add: good_exec [OF good])
  show "may_intro jx s \<Longrightarrow> real_side t \<Longrightarrow>
      yields (playerIntro no_write_error ord t jx s) (\<lambda>(b, s'). good_state sc s' \<and> alive jx s')" for t
    by (rule callback_ok [OF good, of "Ev_intro ord t jx"]) (use alive playerIntro_kept in \<open>simp_all add: may_intro_def\<close>)
  show "wf_card c \<Longrightarrow> yields (playerTricked no_write_error (size_t_of k) c jx s)
      (\<lambda>(b, s'). good_state sc s' \<and> alive jx s')" for k c
    by (rule callback_ok [OF good, of "Ev_trick (size_t_of k) c jx"]) (use role alive playerTricked_kept in simp_all)
  show "yields (handleWrongMessage no_write_error jx s) (\<lambda>(b, s'). good_state sc s' \<and> alive jx s')"
    by (rule callback_ok [OF good, of "Ev_wrong jx"]) (use role alive handleWrongMessage_kept in simp_all)
  show "yields (forwardConnection no_write_error True (Inr fds) now fd a s)
      (\<lambda>(u, s'). good_state sc s' \<and> alive jx s')" for fd a
    by (rule callback_ok [OF good, of "Ev_connect (fst fds) (snd fds) now fd a"])
      (use alive forwardConnection_kept in simp_all)
qed

section \<open>The queue of a worker reaches its socket\<close>

text \<open>The kernel takes every message whole.\<close>

definition takes_all :: "turn_in \<Rightarrow> bool" where
  "takes_all i \<longleftrightarrow> (\<forall>k m. sendNoBlockN (kernel i k) m = (int (length m), m))"

lemma send_front_all:
  assumes "takes_all i" and "pendingOutgoing w = j # js"
  obtains w' n' where "send_front i (w, n) = (w', n')" "pendingOutgoing w' = js" "closedFd w' = closedFd w"
    "txBytes n' = txBytes n @ genMsg (scoreOrder i) j" "rxBytes n' = rxBytes n"
    "msgLog n' = msgLog n @ [(ownAddr w, clientAddr w, strip_crlf (genMsg (scoreOrder i) j))]"
    "ownAddr w' = ownAddr w" "clientAddr w' = clientAddr w"
  using assms by (auto simp: send_front_def takes_all_def log_msg_def Let_def)

lemma queue_loop_all:
  assumes "good_state sc s" and "\<not> (playersConnected s < 4 \<and> \<not> exiting s)" and "takes_all i"
  shows "\<exists>w' n'. queue_loop (server_ctx wr ord fds now ix) i (w, n, s) = Some (Inr (w', n', s)) \<and>
    pendingOutgoing w' = [] \<and> closedFd w' = closedFd w \<and>
    txBytes n' = txBytes n @ concat (map (genMsg (scoreOrder i)) (pendingOutgoing w))"
proof (induction "pendingOutgoing w" arbitrary: w n)
  case Nil
  then show ?case by (simp add: queue_loop.simps [of _ i "(w, n, s)"])
next
  case (Cons j js)
  obtain w1 n1 where f: "send_front i (w, n) = (w1, n1)" "pendingOutgoing w1 = js" "closedFd w1 = closedFd w"
    "txBytes n1 = txBytes n @ genMsg (scoreOrder i) j"
    using send_front_all [OF assms(3) Cons.hyps(2) [symmetric]] by metis
  have "execMutexed (send_front i) (w, n) s = Inr ((True, w1, n1), s)"
    using good_exec [OF assms(1), of "send_front i" "(w, n)"] assms(2) f(1) by simp
  with Cons.hyps(1) [of w1 n1] f Cons.hyps(2) [symmetric] show ?case
    by (auto simp: queue_loop.simps [of _ i "(w, n, s)"] server_ctx_def)
qed

text \<open>While the game is paused nothing is sent.\<close>

lemma queue_loop_paused:
  assumes "good_state sc s" and "playersConnected s < 4" and "\<not> exiting s"
  shows "queue_loop (server_ctx wr ord fds now ix) i (w, n, s) = Some (Inr (w, n, s))"
  using good_exec [OF assms(1), of "send_front i" "(w, n)"] assms(2,3)
  by (simp add: queue_loop.simps [of _ i "(w, n, s)"] server_ctx_def)

lemma take_jobs_inbox:
  assumes "workers (workerMgr s) ix = Some obj"
  shows "\<exists>s'. take_jobs (server_ctx wr ord fds now ix) (w, n, s) =
      Inr (w\<lparr>pendingOutgoing := pendingOutgoing w @ inbox (workerMgr s) ix\<rparr>, n, s') \<and>
    inbox (workerMgr s') ix = [] \<and> playersConnected s' = playersConnected s \<and> exiting s' = exiting s \<and>
    s' = put_queue ix (own_queue ix s\<lparr>jobsPending := []\<rparr>) s"
  using assms
  by (simp add: take_jobs_def drain_all server_ctx_def own_queue_def put_queue_def inbox_def own_step_def)

text \<open>Both together, as a turn does them.\<close>

lemma flush_jobs:
  assumes good: "good_state sc s" and obj: "workers (workerMgr s) ix = Some obj" and open_fd: "\<not> closedFd w"
    and play: "4 \<le> playersConnected s \<or> exiting s" and kern: "takes_all i"
  shows "\<exists>w' n' s'. bindO (Some (take_jobs (server_ctx wr ord fds now ix) (w, n, s)))
        (handleQueue (server_ctx wr ord fds now ix) i) = Some (Inr (w', n', s')) \<and>
     txBytes n' = txBytes n @ concat (map (genMsg (scoreOrder i)) (pendingOutgoing w @ inbox (workerMgr s) ix)) \<and>
     pendingOutgoing w' = [] \<and> inbox (workerMgr s') ix = [] \<and> game_of s' = game_of s"
proof -
  let ?w = "w\<lparr>pendingOutgoing := pendingOutgoing w @ inbox (workerMgr s) ix\<rparr>"
  obtain s' where s': "take_jobs (server_ctx wr ord fds now ix) (w, n, s) = Inr (?w, n, s')"
    "inbox (workerMgr s') ix = []" "playersConnected s' = playersConnected s" "exiting s' = exiting s"
    "s' = put_queue ix (own_queue ix s\<lparr>jobsPending := []\<rparr>) s"
    using take_jobs_inbox [OF obj] by blast
  then have "good_state sc s'" using good_queue [OF good] by simp
  from queue_loop_all [OF this _ kern, of wr ord fds now ix ?w n] s' play open_fd have
    "\<exists>w' n'. handleQueue (server_ctx wr ord fds now ix) i (?w, n, s') = Some (Inr (w', n', s')) \<and>
      pendingOutgoing w' = [] \<and>
      txBytes n' = txBytes n @ concat (map (genMsg (scoreOrder i)) (pendingOutgoing w @ inbox (workerMgr s) ix))"
    by (auto simp: handleQueue_def)
  moreover have "game_of s' = game_of s"
    using s'(5) by (simp add: put_queue_def split: option.splits)
  ultimately show ?thesis using s'(1,2) by auto
qed

end
