(* ===== verification/Server_Threads.thy ===== *)
theory Server_Threads
  imports Server_Worker
begin

text \<open>
  The worker threads and the server together: a turn of a worker's loop in any reachable state, a card
  on its way from the socket into the game, and the messages of the game on their way out.
\<close>

section \<open>A turn of a worker\<close>

lemma worker_turn:
  assumes "good_state sc s" and "role_is (\<lambda>r. r \<noteq> SHUTDOWN) (wid w) s" and "buffers_ok w"
    and "turn_input (may_intro (wid w)) i (w, n, s)"
  shows "\<exists>w' n' s'. turn (server_ctx no_write_error ord fds now (wid w)) i (w, n, s) = Some (Inr (w', n', s')) \<and>
     runs sc s' \<and> buffers_ok w' \<and> same_worker w w' \<and>
     (terminate w' \<or> role_is (\<lambda>r. r \<noteq> SHUTDOWN) (wid w) s')"
proof -
  have "live_thread (good_state sc) alive w (w, n, s)"
    using assms(1-3) by (simp add: live_thread_def alive_def)
  from server_worker.turn_ok [OF this assms(4), of ord fds now "wid w"]
  obtain t' where t': "turn (server_ctx no_write_error ord fds now (wid w)) i (w, n, s) = Some (Inr t')"
    "thread_ok (good_state sc) present alive w t'" by (auto simp: returns_def)
  obtain w' n' s' where "t' = (w', n', s')" by (cases t')
  with t' show ?thesis by (auto simp: thread_ok_def live_thread_def good_state_def alive_def)
qed

lemma fresh_handler: "buffers_ok (mk_handler pfd ix fd client own tmo now)"
  by (simp add: mk_handler_def IOWorker_def buffers_ok_def)

section \<open>A player from the wire\<close>

lemma wire_intro:
  assumes w: "kind w = IOWorkerHandler" "reading w" and t: "real_side t"
    and rx: "rxBytes n = genMsg ord (SendJobIntro t) @ rest"
    and code: "playerIntro no_write_error ord' t (wid w) s = Inr (True, s')"
  shows "\<exists>w' n'. socketAction (server_ctx no_write_error ord' fds now (wid w)) i (w, n, s) = Some (Inr (w', n', s')) \<and>
     rxBytes n' = rest \<and> pendingIncoming w' = []"
proof -
  have "introCb (server_ctx no_write_error ord' fds now (wid w)) t (wid w) s = Inr (True, s')"
    using code by (simp add: server_ctx_def)
  from handler_reads_intro [OF w(2) t rx this] w(1) show ?thesis by (fastforce simp: socketAction_def)
qed

section \<open>A card from the wire\<close>

text \<open>A legal card names a trick of the round.\<close>

lemma legal_trick_no:
  assumes "core_inv sc s" and "gLegal t k c (game_of s)"
  shows "1 \<le> k \<and> k \<le> TRICKS_PER_ROUND"
proof -
  have inv: "game_inv (game_of s)" using core_game [OF assms(1)] .
  have "gTurn (game_of s) = t" using assms(2) by (simp add: gLegal_def)
  then have "real_side t" using game_inv_turn [OF inv] by simp
  then have "in_round (game_of s)" using inv assms(2) game_over_no_move by (auto simp: game_inv_def)
  then show ?thesis using assms(2) by (auto simp: in_round_def seats_ok_def gLegal_def gTrickNo_def)
qed

lemma wire_card:
  assumes good: "good_state sc s" and four: "playersConnected s = 4" and sp: "speaks_for s (wid w) t"
    and w: "kind w = IOWorkerHandler" "reading w" and c: "game_card c" "gLegal t k c (game_of s)"
    and rx: "rxBytes n = genMsg ord (SendJobTrick [c] k) @ rest"
  shows "\<exists>w' n' s'. socketAction (server_ctx no_write_error ord' fds now (wid w)) i (w, n, s) = Some (Inr (w', n', s')) \<and>
     playerTricked no_write_error k c (wid w) s = Inr (True, s') \<and>
     game_of s' = spec_move c (game_of s) \<and> rxBytes n' = rest \<and> pendingIncoming w' = [] \<and>
     (\<forall>u. real_side u \<longrightarrow> inbox (workerMgr s') (act s u) =
        inbox (workerMgr s) (act s u) @ for_side u (spec_msgs c (game_of s)))"
proof -
  have inv: "srv_inv sc s" and core: "core_inv sc s"
    using good runs_inv runs_core by (auto simp: good_state_def)
  have k: "1 \<le> k" "k \<le> TRICKS_PER_ROUND" using legal_trick_no [OF core c(2)] by simp_all
  obtain s' where s': "playerTricked no_write_error k c (wid w) s = Inr (True, s')"
    "game_of s' = spec_move c (game_of s)"
    "\<forall>u. real_side u \<longrightarrow> inbox (workerMgr s') (act s u) =
        inbox (workerMgr s) (act s u) @ for_side u (spec_msgs c (game_of s))"
    using playerTricked_legal [OF inv four sp game_card_wf [OF c(1)] c(2)] by blast
  have "trickCb (server_ctx no_write_error ord' fds now (wid w)) (int k) c (wid w) s = Inr (True, s')"
    using s'(1) size_t_small [OF k(2)] by (simp add: server_ctx_def)
  from handler_reads_card [OF w(2) c(1) k rx this] w(1) s' show ?thesis
    by (fastforce simp: socketAction_def)
qed

end
