(* ===== verification/Sample_Game.thy ===== *)
theory Sample_Game
  imports Game_Spec
begin

text \<open>
  The scenario \<^verbatim>\<open>scenarios/simple.scn\<close> of the repository: the game it describes, that it is a fair
  deal, and that the reader yields it from the text of the file (with a newline at its end).
\<close>

definition simple_N :: hand where
  "simple_N =
     [mk_card ''2'' COLOR_H, mk_card ''7'' COLOR_C, mk_card ''7'' COLOR_H, mk_card ''3'' COLOR_S,
      mk_card ''10'' COLOR_D, mk_card ''4'' COLOR_D, mk_card ''5'' COLOR_C, mk_card ''J'' COLOR_C,
      mk_card ''J'' COLOR_D, mk_card ''6'' COLOR_S, mk_card ''Q'' COLOR_S, mk_card ''K'' COLOR_S,
      mk_card ''A'' COLOR_S]"

definition simple_S :: hand where
  "simple_S =
     [mk_card ''2'' COLOR_D, mk_card ''2'' COLOR_S, mk_card ''4'' COLOR_C, mk_card ''5'' COLOR_D,
      mk_card ''5'' COLOR_S, mk_card ''6'' COLOR_H, mk_card ''8'' COLOR_S, mk_card ''9'' COLOR_S,
      mk_card ''10'' COLOR_C, mk_card ''Q'' COLOR_C, mk_card ''Q'' COLOR_D, mk_card ''Q'' COLOR_H,
      mk_card ''A'' COLOR_H]"

definition simple_W :: hand where
  "simple_W =
     [mk_card ''3'' COLOR_C, mk_card ''4'' COLOR_S, mk_card ''4'' COLOR_H, mk_card ''5'' COLOR_H,
      mk_card ''6'' COLOR_C, mk_card ''6'' COLOR_D, mk_card ''7'' COLOR_D, mk_card ''7'' COLOR_S,
      mk_card ''10'' COLOR_S, mk_card ''J'' COLOR_S, mk_card ''J'' COLOR_H, mk_card ''K'' COLOR_C,
      mk_card ''K'' COLOR_D]"

definition simple_E :: hand where
  "simple_E =
     [mk_card ''2'' COLOR_C, mk_card ''3'' COLOR_D, mk_card ''3'' COLOR_H, mk_card ''8'' COLOR_C,
      mk_card ''8'' COLOR_D, mk_card ''8'' COLOR_H, mk_card ''9'' COLOR_C, mk_card ''9'' COLOR_D,
      mk_card ''9'' COLOR_H, mk_card ''10'' COLOR_H, mk_card ''K'' COLOR_H, mk_card ''A'' COLOR_C,
      mk_card ''A'' COLOR_D]"

definition simple_game :: game_scenario where
  "simple_game = [(TRICK_PENALTY, [N \<mapsto> simple_N, S \<mapsto> simple_S, W \<mapsto> simple_W, E \<mapsto> simple_E], W)]"

definition simple_scn :: string where
  "simple_scn = concat (map (\<lambda>l. l @ [CHR 0x0A])
     [''1W'', ''2H7C7H3S10D4D5CJCJD6SQSKSAS'', ''2D2S4C5D5S6H8S9S10CQCQDQHAH'',
      ''3C4S4H5H6C6D7D7S10SJSJHKCKD'', ''2C3D3H8C8D8H9C9D9H10HKHACAD''])"

lemmas simple_defs = simple_N_def simple_S_def simple_W_def simple_E_def

lemma simple_hands:
  "set (simple_N @ simple_S @ simple_W @ simple_E) \<subseteq> set deck"
  by (simp add: simple_defs set_deck faces_def suits_def)

lemma mset_deckI:
  assumes "distinct xs" and "set xs \<subseteq> set deck" and "length xs = 52"
  shows "mset xs = mset deck"
proof -
  have "card (set xs) = card (set deck)"
    using assms(1,3) distinct_deck length_deck by (simp add: distinct_card)
  then have "set xs = set deck" using assms(2) by (intro card_subset_eq) simp_all
  then show ?thesis using set_eq_iff_mset_eq_distinct [OF assms(1) distinct_deck] by simp
qed

lemma simple_distinct: "distinct (simple_N @ simple_S @ simple_W @ simple_E)"
  by (simp add: simple_defs)

lemma simple_lengths:
  "length simple_N = 13" "length simple_S = 13" "length simple_W = 13" "length simple_E = 13"
  by (simp_all add: simple_defs)

lemma simple_round_ok: "scenario_ok simple_game"
proof -
  have "\<forall>hand \<in> {simple_N, simple_S, simple_W, simple_E}. length hand = TRICKS_PER_ROUND \<and> (\<forall>c \<in> set hand. game_card c)"
    using simple_hands simple_lengths by (auto simp: TRICKS_PER_ROUND_def set_deck)
  moreover have "ran [N \<mapsto> simple_N, S \<mapsto> simple_S, W \<mapsto> simple_W, E \<mapsto> simple_E] =
      {simple_N, simple_S, simple_W, simple_E}"
    by (auto simp: ran_def)
  ultimately show ?thesis by (auto simp: scenario_ok_def round_ok_def simple_game_def)
qed

lemma simple_fair: "fair simple_game"
proof -
  have "mset (simple_N @ simple_S @ simple_W @ simple_E) = mset deck"
    using simple_distinct simple_hands simple_lengths by (intro mset_deckI) simp_all
  then have "mset (all_cards (\<lambda>t. get [] t [N \<mapsto> simple_N, S \<mapsto> simple_S, W \<mapsto> simple_W, E \<mapsto> simple_E])) = mset deck"
    by (simp add: all_cards_def sides_def)
  with simple_round_ok show ?thesis by (simp add: fair_def simple_game_def)
qed

lemma simple_nonempty: "simple_game \<noteq> []"
  by (simp add: simple_game_def)

lemma simple_text: "render_scenario simple_game = simple_scn"
  by (simp add: render_scenario_def render_round_def simple_game_def simple_scn_def sides_def simple_defs
      toString_def)

section \<open>Witnesses\<close>

theorem scenario_roundtrip_witness: "parseScenario (Some simple_scn) = Inr simple_game"
  using scenario_roundtrip [OF simple_round_ok] by (simp only: simple_text)

lemma simple_parse: "parseScenario (Some simple_scn) = Inr simple_game"
proof -
  have "\<forall>l \<in> set (concat (map render_round simple_game)). CHR 0x0A \<notin> set l"
    using simple_round_ok render_no_newline by (auto simp: scenario_ok_def)
  then have "getlines (render_scenario simple_game) = concat (map render_round simple_game)"
    unfolding render_scenario_def by (rule getlines_render)
  then show ?thesis
    using scenario_rounds_render [OF simple_round_ok, of "[]"] by (simp add: parseScenario_def flip: simple_text)
qed

theorem scenario_shape_witness:
  "parseScenario (Some simple_scn) = Inr simple_game \<and>
   dom [N \<mapsto> simple_N, S \<mapsto> simple_S, W \<mapsto> simple_W, E \<mapsto> simple_E] = set sides \<and>
   length simple_N = TRICKS_PER_ROUND"
proof -
  let ?st = "[N \<mapsto> simple_N, S \<mapsto> simple_S, W \<mapsto> simple_W, E \<mapsto> simple_E]"
  have "(TRICK_PENALTY, ?st, W) \<in> set simple_game" by (simp add: simple_game_def)
  note shape = scenario_shape [OF simple_parse this]
  have "simple_N \<in> ran ?st" by (rule ranI [of _ N]) simp
  with shape simple_parse show ?thesis by blast
qed

end
