(* ===== verification/Server_End.thy ===== *)
theory Server_End
  imports Server_Threads Sample_Game
begin

text \<open>
  How the server ends. After \<^verbatim>\<open>finalize\<close> every worker has the order to die: in its next turn it sends
  what is queued for it, closes its connection, and the exit callback has it erased; once all are
  gone the cleaner's turn ends the loop of \<^verbatim>\<open>waitForClearing\<close> and \<^verbatim>\<open>run\<close> returns the exit code. A worker
  that is never let go keeps \<^verbatim>\<open>run\<close> from returning.
\<close>

section \<open>The cleaner's last turn\<close>

lemma all_down_clears:
  assumes pool: "pool_inv m" and down: "\<And>ix r. roles m ix = Some r \<Longrightarrow> r = SHUTDOWN"
    and some: "toErase m \<noteq> []" and flag: "finishFlag m"
  shows "\<exists>m'. waitForClearing m = Some (Inr (True, m'))"
proof -
  have e: "erase_inv m" and free: "\<not> threadsStructuresMutex m" and wf: "mgr_wf m"
    using pool by (simp_all add: pool_inv_def mgr_free_def)
  have sem: "clearThreadsSemaphore m \<noteq> 0" using e some by (cases "toErase m") (auto simp: erase_inv_def)
  have "workers m ix = None" if n: "ix \<notin> set (toErase m)" for ix
  proof (rule ccontr)
    assume k: "workers m ix \<noteq> None"
    have "ix \<in> dom (roles m)" using wf k unfolding mgr_wf_def by blast
    then have "roles m ix = Some SHUTDOWN" using down by auto
    with e k n show False by (simp add: erase_inv_def known_def)
  qed
  with sem free flag show ?thesis by (auto simp: waitForClearing_def Let_def collect_workers)
qed

text \<open>While a worker is served \<^verbatim>\<open>run\<close> does not return.\<close>

lemma served_waits:
  assumes "good_state sc s" and "alive ix s"
  shows "run_end s \<noteq> Some (Inr (Some k, u))"
proof
  assume r: "run_end s = Some (Inr (Some k, u))"
  then obtain m' where m': "waitForClearing (workerMgr s) = Some (Inr (True, m'))"
    by (auto simp: run_end_def split: option.splits if_splits)
  have pool: "pool_inv (workerMgr s)" using assms(1) runs_core core_pool by (auto simp: good_state_def)
  obtain r where r: "roles (workerMgr s) ix = Some r" "r \<noteq> SHUTDOWN"
    using assms(2) by (auto simp: alive_def elim: role_isE)
  then have "known (workerMgr s) ix" "ix \<notin> set (toErase (workerMgr s))"
    using pool pool_inv_known [OF pool] by (auto simp: pool_inv_def)
  moreover note st = waitForClearing_step [OF m' pool]
  ultimately have "known m' ix" by simp
  moreover have "mgr_wf m'" using st by (simp add: pool_inv_def mgr_free_def)
  ultimately have "ix \<in> set (all_ids m')" "workers m' ix \<noteq> None"
    using mgr_wf_ids by (auto simp: known_def)
  then show False using m' by (auto simp: waitForClearing_def Let_def split: if_splits)
qed

section \<open>A worker leaves\<close>

lemma set_erase_comm: "set_role ix r (erase_entry jx m) = erase_entry jx (set_role ix r m)"
  by (simp add: set_role_def erase_entry_def)

lemma exit_ending:
  assumes inv: "srv_inv sc s" and ex: "exiting s"
    and role: "roles (workerMgr s) ix = Some r" "r = SERVING_UNKNOWN \<or> r = SERVING_ACTIVE \<or> r = SERVING_PROXY"
    and es: "\<forall>e \<in> set es. errType e \<noteq> IO_ERR_INTERNAL"
  shows "\<exists>s'. grandExitCallback no_write_error es ix False s = Inr (True, s') \<and>
     workerMgr s' = erase_entry ix (set_role ix SHUTDOWN (workerMgr s)) \<and> exiting s' \<and>
     exitCode s' = exitCode s \<and> game_of s' = game_of s"
proof -
  let ?s = "s\<lparr>gameStateMutex := True, sysLog := sysLog s @ es\<rparr>"
  have core: "core_inv sc ?s" using inv by (simp add: srv_inv_def)
  note ops = op_erase [OF core, of ix] op_getRole [OF core, of ix]
  have fin: "finalize no_write_error u = Inr u" if "exiting u" for u using that by (simp add: finalize_def)
  have code: "grandExitCallback no_write_error es ix False s =
      bindE (exit_switch no_write_error ix False r ?s) (\<lambda>p. Inr (fst p, (snd p)\<lparr>gameStateMutex := False\<rparr>))"
    using inv exit_errs_quiet [OF es, of no_write_error "s\<lparr>gameStateMutex := True\<rparr>"] role(1) ops(3)
    by (simp add: grandExitCallback_def with_game_def srv_inv_def)
  show ?thesis
  proof (cases "r = SERVING_ACTIVE")
    case True
    then obtain t where t: "workerToSide s ix = Some t" using core_active_side [OF core, of ix] role(1) by auto
    have ls: "?s\<lparr>playersConnected := playersConnected s - 1, activeSides := (activeSides s)(t \<mapsto> - 1),
        zombieWorkerToSide := (zombieWorkerToSide s)(ix \<mapsto> t), workerToSide := (workerToSide s)(ix := None)\<rparr> =
        left_state ix t ?s" by (simp add: left_state_def)
    have t': "workerToSide ?s ix = Some t" using t by simp
    from True t ex op_leave(2) [OF core t'] show ?thesis
      unfolding code by (simp add: exit_switch_def Let_def ls) (simp add: left_state_def game_of_def)
  next
    case False
    with role ops ex fin show ?thesis
      unfolding code by (auto simp: exit_switch_def set_erase_comm)
  qed
qed

text \<open>The thread's last call, after the worker has been let go.\<close>

lemma exit_gone:
  assumes inv: "srv_inv sc s" and role: "roles (workerMgr s) ix = Some SHUTDOWN"
    and es: "\<forall>e \<in> set es. errType e \<noteq> IO_ERR_INTERNAL"
  shows "grandExitCallback no_write_error es ix hw s = Inr (True, s\<lparr>sysLog := sysLog s @ es\<rparr>)"
proof -
  have core: "core_inv sc (s\<lparr>gameStateMutex := True, sysLog := sysLog s @ es\<rparr>)" and m: "\<not> gameStateMutex s"
    using inv by (simp_all add: srv_inv_def)
  then show ?thesis
    using role op_getRole [OF core, of ix] exit_errs_quiet [OF es, of no_write_error "s\<lparr>gameStateMutex := True\<rparr>"]
    by (cases s) (simp add: grandExitCallback_def exit_switch_def with_game_def)
qed

section \<open>Quiet turns\<close>

text \<open>No call fails, no bytes arrive, the kernel takes what is sent; and there is no new connection.\<close>

definition undisturbed :: "turn_in \<Rightarrow> bool" where
  "undisturbed i \<longleftrightarrow> pollRes i = Poll_ready \<and> arrived i = '''' \<and> pipeEnd i = Read_error EAGAIN \<and>
     closeRes i = None \<and> takes_all i"

definition quiet :: "turn_in \<Rightarrow> bool" where
  "quiet i \<longleftrightarrow> undisturbed i \<and> sockEnd i = Read_error EAGAIN \<and> acceptRes i = Accept_error EAGAIN"

text \<open>A thread that waits for its connection.\<close>

definition waiting :: "io_worker \<times> wire \<Rightarrow> bool" where
  "waiting t \<longleftrightarrow> reading (fst t) \<and> \<not> terminate (fst t) \<and> rxBytes (snd t) = '''' \<and>
     (\<forall>e \<in> set (errs (fst t)). errType e \<noteq> IO_ERR_INTERNAL)"

text \<open>What sending leaves as it is.\<close>

definition same_end :: "io_worker \<Rightarrow> io_worker \<Rightarrow> bool" where
  "same_end w w' \<longleftrightarrow> terminate w' = terminate w \<and> errs w' = errs w \<and> wid w' = wid w \<and>
     pendingIncoming w' = pendingIncoming w \<and> closedFd w' = closedFd w"

lemma queue_loop_end:
  assumes "good_state sc s" and "exiting s" and "takes_all i"
  shows "\<exists>w' n'. queue_loop (server_ctx wr ord fds now ix) i (w, n, s) = Some (Inr (w', n', s)) \<and>
    same_end w w' \<and> pendingOutgoing w' = [] \<and>
    txBytes n' = txBytes n @ concat (map (genMsg (scoreOrder i)) (pendingOutgoing w))"
proof (induction "pendingOutgoing w" arbitrary: w n)
  case Nil
  then show ?case by (simp add: queue_loop.simps [of _ i "(w, n, s)"] same_end_def)
next
  case (Cons j js)
  obtain w1 n1 where f: "send_front i (w, n) = (w1, n1)" by (meson surj_pair)
  then have w1: "pendingOutgoing w1 = js" "same_end w w1" "txBytes n1 = txBytes n @ genMsg (scoreOrder i) j"
    using assms(3) Cons.hyps(2) [symmetric]
    by (auto simp: send_front_def takes_all_def log_msg_def Let_def same_end_def)
  have "execMutexed (send_front i) (w, n) s = Inr ((True, w1, n1), s)"
    using good_exec [OF assms(1), of "send_front i" "(w, n)"] assms(2) f by simp
  moreover have "same_end w v" if "same_end w1 v" for v using w1(2) that by (simp add: same_end_def)
  ultimately show ?case using Cons.hyps(1) [of w1 n1] w1 Cons.hyps(2) [symmetric]
    by (auto simp: queue_loop.simps [of _ i "(w, n, s)"] server_ctx_def)
qed

lemma idle_action:
  assumes "quiet i" and "waiting (w, n)"
  shows "socketAction cx i (w, n, s) = Some (Inr (w, n, s))"
proof -
  have "read_socket i (w, n) = (w, n)"
    using assms by (cases n) (auto simp: quiet_def waiting_def reading_def read_socket_def SILENT_ERRS_def)
  moreover have "msg_loop cx (w, n, s) = Some (Inr (w, n, s))"
    using assms(2) by (simp add: msg_loop.simps [of cx "(w, n, s)"] waiting_def reading_def)
  ultimately have "handler_action cx i (w, n, s) = Some (Inr (w, n, s))"
    using assms(2) by (simp add: handler_action_def waiting_def reading_def)
  moreover have "connect_action cx i (w, n, s) = Inr (w, n, s)"
    using assms(1) by (simp add: connect_action_def quiet_def)
  ultimately show ?thesis by (simp add: socketAction_def split: worker_kind.split)
qed

lemma waiting_timeout [simp]: "waiting (w\<lparr>nextTimeout := x\<rparr>, n) = waiting (w, n)"
  by (simp add: waiting_def reading_def)

section \<open>A worker with the order to die\<close>

text \<open>The server after the worker \<open>ix\<close> has left: the others are as they were.\<close>

definition left_by :: "int \<Rightarrow> server \<Rightarrow> server \<Rightarrow> bool" where
  "left_by ix s s' \<longleftrightarrow>
     roles (workerMgr s') = (roles (workerMgr s))(ix \<mapsto> SHUTDOWN) \<and>
     set (toErase (workerMgr s')) = insert ix (set (toErase (workerMgr s))) \<and>
     (\<forall>jx. jx \<noteq> ix \<longrightarrow> workers (workerMgr s') jx = workers (workerMgr s) jx) \<and>
     exiting s' \<and> exitCode s' = exitCode s \<and> game_of s' = game_of s"

lemma left_by_log [simp]: "left_by ix s (s'\<lparr>sysLog := l\<rparr>) = left_by ix s s'"
  by (simp add: left_by_def game_of_def)

lemma put_queue_frame:
  "roles (workerMgr (put_queue ix q s)) = roles (workerMgr s)"
  "toErase (workerMgr (put_queue ix q s)) = toErase (workerMgr s)"
  "jx \<noteq> ix \<Longrightarrow> workers (workerMgr (put_queue ix q s)) jx = workers (workerMgr s) jx"
  "exiting (put_queue ix q s) = exiting s" "exitCode (put_queue ix q s) = exitCode s"
  "game_of (put_queue ix q s) = game_of s"
  "workers (workerMgr s) ix \<noteq> None \<Longrightarrow> own_queue ix (put_queue ix q s) = q"
  "workers (workerMgr s) ix \<noteq> None \<Longrightarrow> workers (workerMgr (put_queue ix q s)) ix \<noteq> None"
  by (auto simp: put_queue_def own_queue_def own_step_def game_of_def split: option.splits)

lemma take_jobs_eq:
  "take_jobs (server_ctx wr ord fds now ix) (w, n, s) =
     Inr (w\<lparr>pendingOutgoing := pendingOutgoing w @ jobsPending (own_queue ix s)\<rparr>, n,
          put_queue ix (own_queue ix s\<lparr>jobsPending := []\<rparr>) s)"
  by (simp add: take_jobs_def drain_all server_ctx_def)

lemma flush_end:
  assumes "good_state sc s" and "exiting s" and "takes_all i" and "reading w"
  shows "\<exists>w' n'. bindO (Some (take_jobs (server_ctx wr ord fds now ix) (w, n, s)))
        (handleQueue (server_ctx wr ord fds now ix) i) =
        Some (Inr (w', n', put_queue ix (own_queue ix s\<lparr>jobsPending := []\<rparr>) s)) \<and>
     same_end w w' \<and> pendingOutgoing w' = [] \<and>
     txBytes n' = txBytes n @ concat (map (genMsg (scoreOrder i)) (pendingOutgoing w @ jobsPending (own_queue ix s)))"
proof -
  let ?w = "w\<lparr>pendingOutgoing := pendingOutgoing w @ jobsPending (own_queue ix s)\<rparr>"
  let ?s = "put_queue ix (own_queue ix s\<lparr>jobsPending := []\<rparr>) s"
  have "good_state sc ?s" "exiting ?s" using good_queue [OF assms(1)] assms(2) by (simp_all add: put_queue_frame)
  from queue_loop_end [OF this assms(3), of wr ord fds now ix ?w n] assms(4) show ?thesis
    by (auto simp: take_jobs_eq handleQueue_def same_end_def reading_def)
qed

text \<open>\<open>s\<close> is the state after the worker has dealt with its socket.\<close>

lemma killed_after_action:
  assumes good: "good_state sc s" and ex: "exiting s" and i: "undisturbed i" and t: "waiting (w, n)"
    and act: "socketAction (server_ctx no_write_error ord fds now (wid w)) i (w\<lparr>nextTimeout := - 1\<rparr>, n, s0) =
      Some (Inr (w\<lparr>nextTimeout := - 1\<rparr>, n, s))"
    and role: "roles (workerMgr s) (wid w) = Some r" "r = SERVING_UNKNOWN \<or> r = SERVING_ACTIVE \<or> r = SERVING_PROXY"
    and kill: "killed (workerMgr s) (wid w)"
  shows "\<exists>w' n' s'. turn (server_ctx no_write_error ord fds now (wid w)) i (w, n, s0) = Some (Inr (w', n', s')) \<and>
    terminate w' \<and> wid w' = wid w \<and> errs w' = errs w \<and> good_state sc s' \<and> left_by (wid w) s s' \<and>
    txBytes n' = txBytes n @ concat (map (genMsg (scoreOrder i)) (pendingOutgoing w @ inbox (workerMgr s) (wid w)))"
proof -
  let ?ix = "wid w" let ?cx = "server_ctx no_write_error ord fds now ?ix"
  let ?w = "w\<lparr>nextTimeout := - 1\<rparr>" and ?s1 = "put_queue ?ix (own_queue ?ix s\<lparr>jobsPending := []\<rparr>) s"
  let ?s2 = "put_queue ?ix (own_queue ?ix ?s1\<lparr>jobsPending := []\<rparr>) ?s1"
  have wk: "workers (workerMgr s) ?ix \<noteq> None" "killFlag (own_queue ?ix s)"
    "jobsPending (own_queue ?ix s) = inbox (workerMgr s) ?ix"
    using kill by (auto simp: killed_def own_queue_def inbox_def)
  have rd: "reading ?w" using t by (simp add: waiting_def reading_def)
  have all: "takes_all i" using i by (simp add: undisturbed_def)
  obtain w1 n1 where f: "bindO (Some (take_jobs ?cx (?w, n, s))) (handleQueue ?cx i) = Some (Inr (w1, n1, ?s1))"
    "same_end ?w w1" "pendingOutgoing w1 = []"
    "txBytes n1 = txBytes n @ concat (map (genMsg (scoreOrder i)) (pendingOutgoing w @ inbox (workerMgr s) ?ix))"
    using flush_end [OF good ex all rd] wk(3) by fastforce
  have g2: "good_state sc ?s2" using good by (intro good_queue)
  have q1: "own_queue ?ix ?s1 = own_queue ?ix s\<lparr>jobsPending := []\<rparr>" using wk(1) by (simp add: put_queue_frame)
  have w1: "w1\<lparr>pendingOutgoing := []\<rparr> = w1" "\<not> closedFd w1" "\<not> terminate w1" "wid w1 = ?ix" "errs w1 = errs w"
    "pendingIncoming w1 = []"
    using f(2,3) rd t by (cases w1, auto simp: same_end_def reading_def waiting_def)
  have k: "kill_part ?cx i (w1, n1, ?s1) = Some (Inr (closeConn None w1, n1, ?s2))"
  proof -
    have "hasKillOrder (ownQueue ?cx ?s1)" using wk(2) q1 by (simp add: server_ctx_def hasKillOrder_def)
    moreover have "take_jobs ?cx (w1, n1, ?s1) = Inr (w1, n1, ?s2)"
      using take_jobs_eq [of no_write_error ord fds now ?ix w1 n1 ?s1] q1 f(3) w1(1) by simp
    moreover have "handleQueue ?cx i (w1, n1, ?s2) = Some (Inr (w1, n1, ?s2))"
      using f(3) by (simp add: handleQueue_def queue_loop.simps [of _ i "(w1, n1, ?s2)"])
    ultimately show ?thesis using i by (simp add: kill_part_def undisturbed_def)
  qed
  have inv: "srv_inv sc ?s2" "exiting ?s2" "roles (workerMgr ?s2) ?ix = Some r"
    using g2 runs_inv ex role(1) by (auto simp: good_state_def put_queue_frame)
  have es: "\<forall>e \<in> set (errs w). errType e \<noteq> IO_ERR_INTERNAL" using t by (simp add: waiting_def)
  obtain s3 where s3: "grandExitCallback no_write_error (errs w) ?ix False ?s2 = Inr (True, s3)"
    "workerMgr s3 = erase_entry ?ix (set_role ?ix SHUTDOWN (workerMgr ?s2))" "exiting s3"
    "exitCode s3 = exitCode ?s2" "game_of s3 = game_of ?s2"
    using exit_ending [OF inv role(2) es] by blast
  have gs: "good_state sc s3"
    using good_exit [OF g2, of ?ix "errs w" False] inv(3) s3(1) by (simp add: yields_def present_def role_is_def)
  have "left_by ?ix s s3" using s3(2-5) by (simp add: left_by_def put_queue_frame)
  have cc: "errs (closeConn None w1) = errs w" "wid (closeConn None w1) = ?ix"
    using w1 by (simp_all add: closeConn_def Let_def)
  have qp: "quit_part ?cx i (closeConn None w1, n1, ?s2) =
      Inr ((closeConn None w1)\<lparr>terminate := True\<rparr>, n1, s3)"
  proof -
    have "exitCb ?cx = grandExitCallback no_write_error" by (simp add: server_ctx_def)
    moreover have "hasWork (closeConn None w1) = False" using w1(6) by (simp add: hasWork_closed)
    ultimately have "call_exit ?cx (closeConn None w1, n1, ?s2) =
        Inr (True, (closeConn None w1)\<lparr>terminate := True\<rparr>, n1, s3)"
      unfolding call_exit_def prod.case cc using s3(1) by (simp only: bindE_simps prod.case if_True)
    then show ?thesis by (simp add: quit_part_def)
  qed
  have hp: "handlePipe i ?w = ?w" and nt: "\<not> terminate ?w" using i t by (simp_all add: handlePipe_def undisturbed_def waiting_def)
  have "ready_part ?cx i (?w, n, s0) = Some (Inr ((closeConn None w1)\<lparr>terminate := True\<rparr>, n1, s3))"
    unfolding ready_part_def prod.case Let_def hp act bindO_simps fst_conv
      bindO_assoc [symmetric] f(1)
    using nt w1(3) k qp by (simp only: if_False fst_conv bindO_simps)
  moreover have "n\<lparr>rxBytes := rxBytes n @ arrived i\<rparr> = n" using i by (simp add: undisturbed_def)
  ultimately have "turn ?cx i (w, n, s0) = Some (Inr ((closeConn None w1)\<lparr>terminate := True\<rparr>, n1, s3))"
    using i by (simp add: turn_def undisturbed_def)
  with gs cc f(4) \<open>left_by ?ix s s3\<close> show ?thesis
    by (intro exI [of _ "(closeConn None w1)\<lparr>terminate := True\<rparr>"] exI [of _ n1] exI [of _ s3]) simp
qed

text \<open>The thread of the worker then ends.\<close>

lemma killed_thread:
  assumes "good_state sc s" and "exiting s" and "quiet i" and t: "waiting (w, n)"
    and "roles (workerMgr s) (wid w) = Some r" "r = SERVING_UNKNOWN \<or> r = SERVING_ACTIVE \<or> r = SERVING_PROXY"
    and "killed (workerMgr s) (wid w)"
  shows "\<exists>w' n' s'. run_loop (server_ctx no_write_error ord fds now (wid w)) [i] (w, n, s) = Some (Inr (w', n', s')) \<and>
    terminate w' \<and> good_state sc s' \<and> left_by (wid w) s s' \<and>
    txBytes n' = txBytes n @ concat (map (genMsg (scoreOrder i)) (pendingOutgoing w @ inbox (workerMgr s) (wid w)))"
proof -
  let ?cx = "server_ctx no_write_error ord fds now (wid w)"
  obtain w1 n1 s1 where s1: "turn ?cx i (w, n, s) = Some (Inr (w1, n1, s1))" "terminate w1" "wid w1 = wid w"
    "errs w1 = errs w" "good_state sc s1" "left_by (wid w) s s1"
    "txBytes n1 = txBytes n @ concat (map (genMsg (scoreOrder i)) (pendingOutgoing w @ inbox (workerMgr s) (wid w)))"
    using killed_after_action [OF assms(1,2) _ t idle_action assms(5-7)] assms(3) t by (simp add: quiet_def) blast
  have es: "\<forall>e \<in> set (errs w). errType e \<noteq> IO_ERR_INTERNAL" using t by (simp add: waiting_def)
  have down: "roles (workerMgr s1) (wid w) = Some SHUTDOWN" using s1(6) by (simp add: left_by_def)
  have inv: "srv_inv sc s1" using s1(5) runs_inv by (simp add: good_state_def)
  let ?s = "s1\<lparr>sysLog := sysLog s1 @ errs w\<rparr>"
  have exit: "grandExitCallback no_write_error (errs w) (wid w) hw s1 = Inr (True, ?s)" for hw
    by (rule exit_gone [OF inv down es])
  have "good_state sc ?s"
    using good_exit [OF s1(5), of "wid w" "errs w" False] down exit by (simp add: yields_def present_def role_is_def)
  moreover have "call_exit ?cx (w1, n1, s1) = Inr (True, w1\<lparr>terminate := True\<rparr>, n1, ?s)"
    using exit s1(3,4) by (simp add: call_exit_def server_ctx_def)
  then have "run_loop ?cx [i] (w, n, s) = Some (Inr (w1\<lparr>terminate := True\<rparr>, n1, ?s))"
    using s1(1,2) t by (simp add: waiting_def)
  ultimately show ?thesis using s1(6,7)
    by (intro exI [of _ "w1\<lparr>terminate := True\<rparr>"] exI [of _ n1] exI [of _ ?s]) simp
qed

section \<open>All workers\<close>

text \<open>The threads of some workers run one after the other, each with one return of \<^verbatim>\<open>poll\<close>.\<close>

fun run_threads ::
  "side list \<Rightarrow> int \<times> int \<Rightarrow> int \<Rightarrow> turn_in \<Rightarrow> (io_worker \<times> wire) list \<Rightarrow> server \<Rightarrow>
   ((io_worker \<times> wire) list \<times> server) res option" where
  "run_threads ord fds now i [] s = Some (Inr ([], s))"
| "run_threads ord fds now i ((w, n) # ts) s =
     bindO (run_loop (server_ctx no_write_error ord fds now (wid w)) [i] (w, n, s)) (\<lambda>(w', n', s').
     bindO (run_threads ord fds now i ts s') (\<lambda>(ts', s''). Some (Inr ((w', n') # ts', s''))))"

definition told_to_die :: "server \<Rightarrow> io_worker \<times> wire \<Rightarrow> bool" where
  "told_to_die s t \<longleftrightarrow> waiting t \<and> killed (workerMgr s) (wid (fst t)) \<and>
     role_is (\<lambda>r. r = SERVING_UNKNOWN \<or> r = SERVING_ACTIVE \<or> r = SERVING_PROXY) (wid (fst t)) s"

text \<open>The thread has ended, and its socket has got what was queued.\<close>

definition sent_all :: "turn_in \<Rightarrow> server \<Rightarrow> io_worker \<times> wire \<Rightarrow> io_worker \<times> wire \<Rightarrow> bool" where
  "sent_all i s t t' \<longleftrightarrow> terminate (fst t') \<and>
     txBytes (snd t') = txBytes (snd t) @
       concat (map (genMsg (scoreOrder i)) (pendingOutgoing (fst t) @ inbox (workerMgr s) (wid (fst t))))"

lemma left_by_others:
  assumes "left_by ix s s'" and "jx \<noteq> ix"
  shows "inbox (workerMgr s') jx = inbox (workerMgr s) jx" "killed (workerMgr s') jx = killed (workerMgr s) jx"
    "role_is P jx s' = role_is P jx s"
  using assms by (simp_all add: left_by_def inbox_def killed_def role_is_def)

lemma threads_leave:
  assumes "good_state sc s" and "exiting s" and "quiet i" and "distinct (map (\<lambda>t. wid (fst t)) ts)"
    and "\<forall>t \<in> set ts. told_to_die s t"
  shows "\<exists>ts' s'. run_threads ord fds now i ts s = Some (Inr (ts', s')) \<and> list_all2 (sent_all i s) ts ts' \<and>
    good_state sc s' \<and> exiting s' \<and> exitCode s' = exitCode s \<and> game_of s' = game_of s \<and>
    set (toErase (workerMgr s')) = (\<lambda>t. wid (fst t)) ` set ts \<union> set (toErase (workerMgr s)) \<and>
    (\<forall>ix. roles (workerMgr s') ix =
       (if ix \<in> (\<lambda>t. wid (fst t)) ` set ts then Some SHUTDOWN else roles (workerMgr s) ix))"
  using assms
proof (induction ts arbitrary: s)
  case (Cons t ts)
  obtain w n where t: "t = (w, n)" by (cases t)
  have die: "waiting (w, n)" "killed (workerMgr s) (wid w)"
    "role_is (\<lambda>r. r = SERVING_UNKNOWN \<or> r = SERVING_ACTIVE \<or> r = SERVING_PROXY) (wid w) s"
    using Cons.prems(5) t by (simp_all add: told_to_die_def)
  obtain r where r: "roles (workerMgr s) (wid w) = Some r" "r = SERVING_UNKNOWN \<or> r = SERVING_ACTIVE \<or> r = SERVING_PROXY"
    using die(3) by (auto elim: role_isE)
  obtain w1 n1 s1 where s1:
    "run_loop (server_ctx no_write_error ord fds now (wid w)) [i] (w, n, s) = Some (Inr (w1, n1, s1))"
    "terminate w1" "good_state sc s1" "left_by (wid w) s s1"
    "txBytes n1 = txBytes n @ concat (map (genMsg (scoreOrder i)) (pendingOutgoing w @ inbox (workerMgr s) (wid w)))"
    using killed_thread [OF Cons.prems(1-3) die(1) r die(2)] by blast
  have other: "wid (fst u) \<noteq> wid w" if "u \<in> set ts" for u using Cons.prems(4) that t by force
  have "\<forall>u \<in> set ts. told_to_die s1 u"
    using Cons.prems(5) left_by_others [OF s1(4) other] by (simp add: told_to_die_def)
  with Cons.IH [OF s1(3) _ Cons.prems(3)] Cons.prems(4) s1(4) obtain ts' s' where s':
    "run_threads ord fds now i ts s1 = Some (Inr (ts', s'))" "list_all2 (sent_all i s1) ts ts'"
    "good_state sc s'" "exiting s'" "exitCode s' = exitCode s1" "game_of s' = game_of s1"
    "set (toErase (workerMgr s')) = (\<lambda>t. wid (fst t)) ` set ts \<union> set (toErase (workerMgr s1))"
    "\<forall>ix. roles (workerMgr s') ix =
       (if ix \<in> (\<lambda>t. wid (fst t)) ` set ts then Some SHUTDOWN else roles (workerMgr s1) ix)"
    by (auto simp: left_by_def)
  have "list_all2 (sent_all i s) ts ts'"
    using s'(2) by (rule list.rel_mono_strong) (simp add: sent_all_def left_by_others [OF s1(4) other])
  moreover have "sent_all i s t (w1, n1)" using s1(2,5) t by (simp add: sent_all_def)
  moreover have "run_threads ord fds now i (t # ts) s = Some (Inr ((w1, n1) # ts', s'))"
    using s1(1) s'(1) t by (simp del: run_loop.simps)
  ultimately show ?case using s'(3-8) s1(4) t
    by (intro exI [of _ "(w1, n1) # ts'"] exI [of _ s']) (simp add: left_by_def)
qed simp

text \<open>Every worker that is served is among them: the cleaner's turn is the last.\<close>

lemma server_ends:
  assumes "good_state sc s" and "exiting s" and "quiet i" and "distinct (map (\<lambda>t. wid (fst t)) ts)"
    and "\<forall>t \<in> set ts. told_to_die s t" and "\<And>ix. alive ix s \<Longrightarrow> ix \<in> (\<lambda>t. wid (fst t)) ` set ts" and "ts \<noteq> []"
  shows "\<exists>ts' s' u. run_threads ord fds now i ts s = Some (Inr (ts', s')) \<and> list_all2 (sent_all i s) ts ts' \<and>
    run_end s' = Some (Inr (Some (exitCode s), u))"
proof -
  obtain ts' s' where s': "run_threads ord fds now i ts s = Some (Inr (ts', s'))" "list_all2 (sent_all i s) ts ts'"
    "good_state sc s'" "exiting s'" "exitCode s' = exitCode s"
    "set (toErase (workerMgr s')) = (\<lambda>t. wid (fst t)) ` set ts \<union> set (toErase (workerMgr s))"
    "\<forall>ix. roles (workerMgr s') ix =
       (if ix \<in> (\<lambda>t. wid (fst t)) ` set ts then Some SHUTDOWN else roles (workerMgr s) ix)"
    using threads_leave [OF assms(1-5)] by blast
  have core: "core_inv sc s'" using s'(3) runs_core by (simp add: good_state_def)
  have "r = SHUTDOWN" if "roles (workerMgr s') ix = Some r" for ix r
    using that s'(7) assms(6) [of ix] by (auto simp: alive_def role_is_def split: if_splits)
  moreover have "toErase (workerMgr s') \<noteq> []" using s'(6) assms(7) by auto
  moreover have "finishFlag (workerMgr s')" using core s'(4) by (simp add: core_inv_def flag_inv_def)
  ultimately obtain m' where "waitForClearing (workerMgr s') = Some (Inr (True, m'))"
    using all_down_clears [OF core_pool [OF core]] by blast
  with s' show ?thesis by (simp add: run_end_def)
qed

section \<open>The last card\<close>

text \<open>The card that ends the game orders every worker that is served to die; the roles stay.\<close>

lemma last_card:
  assumes inv: "srv_inv sc s" and four: "playersConnected s = 4" and sp: "speaks_for s ix t"
    and c: "wf_card c" and legal: "gLegal t n c (game_of s)" and over: "game_over (spec_move c (game_of s))"
    and go: "\<not> exiting s" and s': "playerTricked no_write_error n c ix s = Inr (True, s')"
  shows "\<forall>jx. alive jx s \<longrightarrow> killed (workerMgr s') jx"
proof -
  let ?s = "s\<lparr>gameStateMutex := True\<rparr>"
  have core: "core_inv sc ?s" and n4: "\<not> playersConnected ?s < 4"
    using inv four by (simp_all add: srv_inv_def)
  have t: "real_side t" using speaks_real [OF core, of ix] sp by (simp add: speaks_for_def)
  obtain s1 where s1: "trick_move no_write_error n c t ?s =
       Inr (True, (if roundNumber s1 = length (gameScenario s1) then finalized else id)
                   (post_sides (spec_msgs c (game_of s)) s1))"
    "same_conn ?s s1" "game_of s1 = spec_move c (game_of s)"
    using trick_move_eq [OF core n4 t c, of n] legal by (simp only: if_True game_of_mutex) blast
  let ?m = "raise_flag (workerMgr (post_sides (spec_msgs c (game_of s)) s1))"
  have "roundNumber s1 = length (gameScenario s1)"
    using over unfolding s1(3) [symmetric] by (simp add: game_over_def)
  then have eq: "s' = (finalized (post_sides (spec_msgs c (game_of s)) s1))\<lparr>gameStateMutex := False\<rparr>"
    using playerTricked_speaks [OF inv _ sp, of n c] four s1(1) s' by simp
  have conn: "workerMgr s1 = workerMgr s" "exiting s1 = exiting s"
    using s1(2) by (simp_all add: same_conn_def)
  have pool: "pool_inv (workerMgr s)" using core_pool [OF core] by simp
  have m: "workerMgr s' = kill_all ?m" using eq go conn by (simp add: finalized_def)
  have "killed (workerMgr s') jx" if a: "alive jx s" for jx
  proof -
    obtain r where "roles (workerMgr s) jx = Some r" "r \<noteq> SHUTDOWN"
      using a by (auto simp: alive_def elim: role_isE)
    then have "known (workerMgr s) jx" "jx \<notin> set (toErase (workerMgr s))"
      using pool_inv_known [OF pool] pool by (auto simp: pool_inv_def)
    then show ?thesis unfolding m using pool_inv_free [OF pool] conn
      by (intro killed_kill_all) (simp_all add: post_sides_def post_def)
  qed
  then show ?thesis by simp
qed

lemma alive_serving: "serving s \<Longrightarrow> alive ix s \<Longrightarrow>
    role_is (\<lambda>r. r = SERVING_UNKNOWN \<or> r = SERVING_ACTIVE \<or> r = SERVING_PROXY) ix s"
  by (auto simp: serving_def alive_def role_is_def split: option.splits) (meson worker_status.exhaust)

text \<open>The threads of all workers that are served, each waiting for its connection.\<close>

definition threads_of :: "server \<Rightarrow> (io_worker \<times> wire) list \<Rightarrow> bool" where
  "threads_of s ts \<longleftrightarrow> (\<forall>t \<in> set ts. waiting t) \<and> distinct (map (\<lambda>t. wid (fst t)) ts) \<and>
     (\<lambda>t. wid (fst t)) ` set ts = {jx. alive jx s}"

lemma killed_server_ends:
  assumes "good_state sc s" and "exiting s" and "quiet i" and "threads_of s ts" and "ts \<noteq> []"
    and "\<And>jx. alive jx s \<Longrightarrow> killed (workerMgr s) jx" and "serving s"
  shows "\<exists>ts' s' u. run_threads ord fds now i ts s = Some (Inr (ts', s')) \<and> list_all2 (sent_all i s) ts ts' \<and>
    run_end s' = Some (Inr (Some (exitCode s), u))"
proof -
  have t: "\<forall>t \<in> set ts. waiting t" "distinct (map (\<lambda>t. wid (fst t)) ts)"
    "(\<lambda>t. wid (fst t)) ` set ts = {jx. alive jx s}"
    using assms(4) by (simp_all add: threads_of_def)
  have "told_to_die s x" if x: "x \<in> set ts" for x
  proof -
    have "alive (wid (fst x)) s" using x t(3) by blast
    with assms(6) alive_serving [OF assms(7)] t(1) x show ?thesis by (simp add: told_to_die_def)
  qed
  with server_ends [OF assms(1-3) t(2), of ord fds now] t(3) assms(5) show ?thesis by blast
qed


text \<open>Threads for all workers that are served.\<close>

definition sample_threads :: "server \<Rightarrow> (io_worker \<times> wire) list" where
  "sample_threads s = map (\<lambda>ix. (mk_handler 3 ix 4 (0, '''') (0, '''') 5 0, fresh_wire))
     (filter (\<lambda>ix. roles (workerMgr s) ix \<noteq> Some SHUTDOWN) (all_ids (workerMgr s)))"

lemma sample_threads:
  assumes "mgr_free (workerMgr s)"
  shows "threads_of s (sample_threads s)"
  unfolding threads_of_def
proof (intro conjI)
  let ?ids = "filter (\<lambda>ix. roles (workerMgr s) ix \<noteq> Some SHUTDOWN) (all_ids (workerMgr s))"
  have w: "wid (mk_handler 3 ix 4 (0, '''') (0, '''') 5 0) = ix" for ix by (simp add: mk_handler_def IOWorker_def)
  show "\<forall>x \<in> set (sample_threads s). waiting x"
    by (simp add: sample_threads_def waiting_def reading_def mk_handler_def IOWorker_def fresh_wire_def)
  have ids: "map (\<lambda>x. wid (fst x)) (sample_threads s) = ?ids" by (simp add: sample_threads_def w o_def)
  have "distinct (all_ids (workerMgr s))" by (simp add: all_ids_def distinct_map)
  then show "distinct (map (\<lambda>x. wid (fst x)) (sample_threads s))" unfolding ids by simp
  have wf: "dom (roles (workerMgr s)) = {0..<nextIx (workerMgr s)}" "0 \<le> nextIx (workerMgr s)"
    using assms by (simp_all add: mgr_free_def mgr_wf_def)
  have "set (all_ids (workerMgr s)) = {0..<nextIx (workerMgr s)}"
    using wf(2) by (simp add: all_ids_def image_int_atLeastLessThan)
  then have "set ?ids = {jx. alive jx s}" unfolding wf(1) [symmetric]
    by (auto simp: alive_def role_is_def split: option.splits)
  with ids show "(\<lambda>x. wid (fst x)) ` set (sample_threads s) = {jx. alive jx s}" by (metis set_map)
qed

definition quiet_turn :: turn_in where
  "quiet_turn = \<lparr>pollRes = Poll_ready, arrived = '''', pipeEnd = Read_error EAGAIN, sockEnd = Read_error EAGAIN,
     acceptRes = Accept_error EAGAIN, closeRes = None, kernel = (\<lambda>k. full_send), sendErrno = EAGAIN, clock = 0,
     scoreOrder = sides\<rparr>"

lemma quiet_quiet: "quiet quiet_turn"
  by (simp add: quiet_def undisturbed_def quiet_turn_def takes_all_def full_send_all)


end
