(* ===== verification/Actions.thy ===== *)
theory Actions
  imports Kierki_Prelude
begin

text \<open>
  Steps of the client, which works on one mutable state and catches exceptions: an action yields its
  result or an exception, and the state it leaves in either case. Sequencing, the \<^verbatim>\<open>catch\<close> clauses
  and the loops of the code are built from the combinators here.
\<close>

section \<open>Actions\<close>

type_synonym ('s, 'a) action = "'s \<Rightarrow> 'a res \<times> 's"

definition returnA :: "'a \<Rightarrow> ('s, 'a) action" where
  "returnA x = (\<lambda>s. (Inr x, s))"

definition throwA :: "exn \<Rightarrow> ('s, 'a) action" where
  "throwA e = (\<lambda>s. (Inl e, s))"

definition liftA :: "'a res \<Rightarrow> ('s, 'a) action" where
  "liftA r = (\<lambda>s. (r, s))"

definition readA :: "('s \<Rightarrow> 'a) \<Rightarrow> ('s, 'a) action" where
  "readA f = (\<lambda>s. (Inr (f s), s))"

definition modifyA :: "('s \<Rightarrow> 's) \<Rightarrow> ('s, unit) action" where
  "modifyA f = (\<lambda>s. (Inr (), f s))"

definition bindA :: "('s, 'a) action \<Rightarrow> ('a \<Rightarrow> ('s, 'b) action) \<Rightarrow> ('s, 'b) action" where
  "bindA m f = (\<lambda>s. case m s of (r, s') \<Rightarrow> (case r of Inl e \<Rightarrow> (Inl e, s') | Inr x \<Rightarrow> f x s'))"

definition thenA :: "('s, unit) action \<Rightarrow> ('s, 'b) action \<Rightarrow> ('s, 'b) action" where
  "thenA m n = bindA m (\<lambda>u. n)"

text \<open>The exceptions of C++ a \<^verbatim>\<open>catch\<close> clause can see; the other failures are aborts.\<close>

definition runtime_error :: "exn \<Rightarrow> bool" where
  "runtime_error e = (case e of Runtime_error m \<Rightarrow> True | _ \<Rightarrow> False)"

definition catchable :: "exn \<Rightarrow> bool" where
  "catchable e \<longleftrightarrow> e = Out_of_range \<or> e = Bad_function_call \<or> runtime_error e"

definition catchA :: "(exn \<Rightarrow> bool) \<Rightarrow> ('s, 'a) action \<Rightarrow> (exn \<Rightarrow> ('s, 'a) action) \<Rightarrow> ('s, 'a) action" where
  "catchA p m h =
     (\<lambda>s. case m s of (r, s') \<Rightarrow>
        (case r of Inl e \<Rightarrow> if p e then h e s' else (Inl e, s') | Inr x \<Rightarrow> (Inr x, s')))"

fun foldA :: "('x \<Rightarrow> ('s, unit) action) \<Rightarrow> 'x list \<Rightarrow> ('s, unit) action" where
  "foldA f [] = returnA ()"
| "foldA f (x # xs) = thenA (f x) (foldA f xs)"

section \<open>Laws\<close>

lemma action_simps [simp]:
  "returnA x s = (Inr x, s)" "throwA e s = (Inl e, s)" "liftA r s = (r, s)"
  "readA f s = (Inr (f s), s)" "modifyA g s = (Inr (), g s)"
  by (simp_all add: returnA_def throwA_def liftA_def readA_def modifyA_def)

lemma bindA_Inr [simp]: "m s = (Inr x, s') \<Longrightarrow> bindA m f s = f x s'"
  by (simp add: bindA_def)

lemma bindA_False [simp]: "m s = (Inr False, s') \<Longrightarrow> bindA m f s = f False s'"
  by (rule bindA_Inr)

lemma bindA_Inl [simp]: "m s = (Inl e, s') \<Longrightarrow> bindA m f s = (Inl e, s')"
  by (simp add: bindA_def)

lemma thenA_Inr [simp]: "m s = (Inr x, s') \<Longrightarrow> thenA m n s = n s'"
  by (simp add: thenA_def)

lemma thenA_Inl [simp]: "m s = (Inl e, s') \<Longrightarrow> thenA m n s = (Inl e, s')"
  by (simp add: thenA_def)

lemma bindA_eq_Inr:
  "bindA m f s = (Inr y, t) \<longleftrightarrow> (\<exists>x u. m s = (Inr x, u) \<and> f x u = (Inr y, t))"
  by (auto simp: bindA_def split: prod.splits sum.splits)

lemma bindA_assoc: "bindA (bindA m f) g = bindA m (\<lambda>x. bindA (f x) g)"
  by (rule ext) (simp add: bindA_def split: prod.splits sum.splits)

lemma thenA_assoc: "thenA (thenA m n) k = thenA m (thenA n k)"
  by (simp add: thenA_def bindA_assoc)

lemma bindA_return [simp]: "bindA (returnA x) f = f x" "bindA m returnA = m"
  by (rule ext, simp add: bindA_def split: prod.splits sum.splits)+

lemma bindA_if: "bindA (if b then m else n) f = (if b then bindA m f else bindA n f)"
  by simp

lemma bindA_lift [simp]: "bindA (liftA (Inr x)) f = f x"
  by (rule ext) simp

lemma thenA_return [simp]: "thenA (returnA u) m = m" "thenA m (returnA ()) = m"
  by (simp add: thenA_def) (rule ext, simp add: thenA_def bindA_def split: prod.splits sum.splits)

lemma foldA_append: "foldA f (xs @ ys) = thenA (foldA f xs) (foldA f ys)"
  by (induction xs) (simp_all add: thenA_assoc)

lemma foldA_single [simp]: "foldA f [x] = f x"
  by simp

section \<open>What an action leaves alone\<close>

text \<open>\<open>keeps f m\<close>: the part \<open>f\<close> of the state is the same after \<open>m\<close>, also if it throws.\<close>

definition keeps :: "('s \<Rightarrow> 'b) \<Rightarrow> ('s, 'a) action \<Rightarrow> bool" where
  "keeps f m \<longleftrightarrow> (\<forall>s. f (snd (m s)) = f s)"

named_theorems keeping \<open>rules by which actions keep a part of the state\<close>

lemma keepsD: "keeps f m \<Longrightarrow> m s = (r, s') \<Longrightarrow> f s' = f s"
  unfolding keeps_def by (metis snd_conv)

lemma keeps_simple [keeping]:
  "keeps f (returnA x)" "keeps f (throwA e)" "keeps f (liftA r)" "keeps f (readA g)"
  by (simp_all add: keeps_def)

lemma keeps_modify [keeping]: "(\<And>s. f (g s) = f s) \<Longrightarrow> keeps f (modifyA g)"
  by (simp add: keeps_def)

lemma keeps_bind [keeping]:
  assumes "keeps f m" and "\<And>x. keeps f (n x)"
  shows "keeps f (bindA m n)"
  unfolding keeps_def
proof
  fix s
  obtain r s1 where m: "m s = (r, s1)" by (cases "m s")
  have "f s1 = f s" using assms(1) m by (rule keepsD)
  moreover have "\<And>x. f (snd (n x s1)) = f s1" using assms(2) unfolding keeps_def by blast
  ultimately show "f (snd (bindA m n s)) = f s" using m by (cases r) simp_all
qed

lemma keeps_then [keeping]: "keeps f m \<Longrightarrow> keeps f n \<Longrightarrow> keeps f (thenA m n)"
  unfolding thenA_def by (rule keeps_bind)

lemma keeps_if [keeping]: "keeps f m \<Longrightarrow> keeps f n \<Longrightarrow> keeps f (if b then m else n)"
  by simp

lemma keeps_catch [keeping]:
  assumes "keeps f m" and "\<And>e. keeps f (h e)"
  shows "keeps f (catchA p m h)"
  unfolding keeps_def
proof
  fix s
  obtain r s1 where m: "m s = (r, s1)" by (cases "m s")
  have "f s1 = f s" using assms(1) m by (rule keepsD)
  moreover have "\<And>e. f (snd (h e s1)) = f s1" using assms(2) unfolding keeps_def by blast
  ultimately show "f (snd (catchA p m h s)) = f s" using m by (cases r) (simp_all add: catchA_def)
qed

lemma keeps_fold [keeping]: "(\<And>x. keeps f (g x)) \<Longrightarrow> keeps f (foldA g xs)"
  by (induction xs) (auto intro: keeping)

lemma keeps_weaken: "keeps f m \<Longrightarrow> (\<And>s s'. f s = f s' \<Longrightarrow> h s = h s') \<Longrightarrow> keeps h m"
  unfolding keeps_def by blast

end
