(* ===== verification/Log.thy ===== *)
theory Log
  imports Utils
begin

text \<open>
  \<^verbatim>\<open>common/message.cpp\<close> and \<^verbatim>\<open>common/logger.cpp\<close>: a message with its time stamp, the line it is
  printed as, and the loggers of messages and of failed system calls.
\<close>

section \<open>Messages\<close>

text \<open>
  \<open>registered\<close> is the reading of the system clock in nanoseconds since the epoch. How
  \<^verbatim>\<open>put_time\<close> shows a number of seconds in the local time zone is a parameter.
\<close>

record message =
  registered :: int
  sender :: net_address
  receiver :: net_address
  payload :: string

definition Message :: "int \<Rightarrow> net_address \<Rightarrow> net_address \<Rightarrow> string \<Rightarrow> message" where
  "Message now from to pl = \<lparr>registered = now, sender = from, receiver = to, payload = pl\<rparr>"

text \<open>Division of C++, which rounds towards zero, and its remainder.\<close>

definition cdiv :: "int \<Rightarrow> int \<Rightarrow> int" where
  "cdiv a b = sgn a * sgn b * (\<bar>a\<bar> div \<bar>b\<bar>)"

definition crem :: "int \<Rightarrow> int \<Rightarrow> int" where
  "crem a b = a - cdiv a b * b"

text \<open>\<^verbatim>\<open>setfill('0')\<close> with \<^verbatim>\<open>setw(3)\<close>.\<close>

definition setw3 :: "string \<Rightarrow> string" where
  "setw3 s = replicate (3 - length s) CHR ''0'' @ s"

definition message_toString :: "(int \<Rightarrow> string) \<Rightarrow> message \<Rightarrow> string" where
  "message_toString localTime m =
     (let milliseconds = crem (cdiv (registered m) 1000000) 1000;
          tmp = cdiv (registered m) 1000000000
      in ''['' @ formatAddr (sender m) @ '','' @ formatAddr (receiver m) @ '','' @ localTime tmp
         @ ''.'' @ setw3 (to_string milliseconds) @ ''] '' @ payload m @ [CHR 0x0A])"

section \<open>Loggers\<close>

text \<open>
  A logger appends to its stream, here the text written to it so far, holding its own mutex for the
  whole call. Failed calls are reported on \<^verbatim>\<open>cerr\<close>; \<open>enoNum\<close> are the numbers of the platform.
\<close>

definition logger_log :: "(int \<Rightarrow> string) \<Rightarrow> bool \<Rightarrow> message \<Rightarrow> string \<Rightarrow> string" where
  "logger_log localTime dummy m output =
     (if dummy then output else output @ message_toString localTime m)"

definition logSysErr :: "(errno \<Rightarrow> int) \<Rightarrow> err_info \<Rightarrow> string \<Rightarrow> string" where
  "logSysErr enoNum info err =
     (if errType info = IO_ERR_SILENT then err
      else err @ ''System call '' @ call info @ '' resulted in error!. Errno: ''
             @ to_string (enoNum (errnoVal info)) @ [CHR 0x0A])"

text \<open>After the epoch the fraction has three digits and the seconds are those that have passed.\<close>

lemma stamp_fields:
  assumes "0 \<le> t"
  shows "cdiv t 1000000000 = t div 1000000000" "crem (cdiv t 1000000) 1000 = t div 1000000 mod 1000"
  using assms by (simp_all add: cdiv_def crem_def zsgn_def minus_mult_div_eq_mod mult.commute) 

lemma nat_digits_length: "n < 1000 \<Longrightarrow> length (nat_digits n) \<le> 3"
  by (simp add: nat_digits.simps)

lemma stamp_millis:
  assumes "0 \<le> t"
  shows "length (setw3 (to_string (crem (cdiv t 1000000) 1000))) = 3"
proof -
  have "length (nat_digits (nat (t div 1000000 mod 1000))) \<le> 3"
    by (rule nat_digits_length) (simp add: nat_less_iff)
  moreover have "\<not> t div 1000000 mod 1000 < 0" by simp
  ultimately show ?thesis by (simp only: setw3_def to_string_def stamp_fields [OF assms] if_False) simp
qed

end
