(* ===== verification/Player.thy ===== *)
theory Player
  imports Actions Log
begin

text \<open>
  \<^verbatim>\<open>client/player.cpp\<close>: the base class of the two players, and the process a player runs in. The
  virtual methods are a record of actions, which the client calls through; a subclass extends the
  record \<open>player\<close> by its members and provides such a record.
\<close>

section \<open>The process\<close>

text \<open>
  The text written to the two output streams, how the process shows local time, and the object of
  the player. The client extends this state by its own members: the callbacks a player is given
  change those.
\<close>

record 'p process =
  cout :: string
  cerr :: string
  localTime :: "int \<Rightarrow> string"
  plr :: 'p

definition nl :: string where
  "nl = [CHR 0x0A]"

definition say :: "string \<Rightarrow> (('p, 'a) process_scheme, unit) action" where
  "say t = modifyA (\<lambda>w. w\<lparr>cout := cout w @ t\<rparr>)"

definition complain :: "string \<Rightarrow> (('p, 'a) process_scheme, unit) action" where
  "complain t = modifyA (\<lambda>w. w\<lparr>cerr := cerr w @ t\<rparr>)"

definition on_player :: "('p \<Rightarrow> 'p) \<Rightarrow> (('p, 'a) process_scheme, unit) action" where
  "on_player f = modifyA (\<lambda>w. w\<lparr>plr := f (plr w)\<rparr>)"

lemma process_actions [simp]:
  "say t w = (Inr (), w\<lparr>cout := cout w @ t\<rparr>)"
  "complain t w = (Inr (), w\<lparr>cerr := cerr w @ t\<rparr>)"
  "on_player f w = (Inr (), w\<lparr>plr := f (plr w)\<rparr>)"
  by (simp_all add: say_def complain_def on_player_def)

section \<open>The base class\<close>

record player =
  inGameSide :: side
  lastCards :: "card list"

text \<open>\<^verbatim>\<open>putCardCb\<close> and \<^verbatim>\<open>cardNeededCb\<close>, set by \<^verbatim>\<open>setup\<close>, are arguments of the methods.\<close>

type_synonym 'w put_cb = "card \<Rightarrow> ('w, unit) action"
type_synonym 'w check_cb = "('w, bool) action"

record 'w player_ops =
  trickMsg :: "int \<Rightarrow> table \<Rightarrow> ('w, unit) action"
  takenMsg :: "side \<Rightarrow> table \<Rightarrow> int \<Rightarrow> bool \<Rightarrow> ('w, unit) action"
  scoreMsg :: "score_map \<Rightarrow> bool \<Rightarrow> ('w, unit) action"
  dealMsg :: "int \<Rightarrow> hand \<Rightarrow> side \<Rightarrow> ('w, unit) action"
  wrongMsg :: "int \<Rightarrow> ('w, unit) action"
  busyMsg :: "side list \<Rightarrow> ('w, unit) action"
  anyMsg :: "message \<Rightarrow> ('w, unit) action"
  anyCmd :: "string \<Rightarrow> ('w, unit) action"

section \<open>Cards played and not yet taken\<close>

text \<open>
  Both players keep a queue of copies of the cards they have sent. \<open>pop_last\<close> is what both do with
  the oldest one: hand it to \<open>f\<close> and drop it, or warn if there is none.
\<close>

definition warning :: string where
  "warning = ''warn: should remove card'' @ nl"

definition push_last :: "card \<Rightarrow> (('a player_scheme, 'b) process_scheme, unit) action" where
  "push_last c =
     bindA (liftA (Card (getValue c) (getColor c))) (\<lambda>d.
     on_player (\<lambda>p. p\<lparr>lastCards := lastCards p @ [d]\<rparr>))"

definition pop_last ::
    "(card \<Rightarrow> 'a player_scheme \<Rightarrow> 'a player_scheme) \<Rightarrow> (('a player_scheme, 'b) process_scheme, unit) action" where
  "pop_last f =
     bindA (readA (\<lambda>w. lastCards (plr w))) (\<lambda>last.
     case last of
       [] \<Rightarrow> complain warning
     | d # ds \<Rightarrow> on_player (\<lambda>p. (f d p)\<lparr>lastCards := ds\<rparr>))"

lemma Card_copy: "wf_card c \<Longrightarrow> Card (getValue c) (getColor c) = Inr c"
  by (auto simp: wf_card_iff getValue_def getColor_def Card_mk_card)

lemma push_last_apply [simp]:
  "wf_card c \<Longrightarrow> push_last c w = (Inr (), w\<lparr>plr := (plr w)\<lparr>lastCards := lastCards (plr w) @ [c]\<rparr>\<rparr>)"
  by (simp add: push_last_def Card_copy)

lemma pop_last_Nil [simp]:
  "lastCards (plr w) = [] \<Longrightarrow> pop_last f w = (Inr (), w\<lparr>cerr := cerr w @ warning\<rparr>)"
  by (simp add: pop_last_def)

lemma pop_last_Cons [simp]:
  "lastCards (plr w) = d # ds \<Longrightarrow> pop_last f w = (Inr (), w\<lparr>plr := (f d (plr w))\<lparr>lastCards := ds\<rparr>\<rparr>)"
  by (simp add: pop_last_def)

end
