(* ===== verification/Client.thy ===== *)
theory Client
  imports Player Net_Address Msg_Fields
begin

text \<open>
  \<^verbatim>\<open>client/client.cpp\<close>: the client of a player. The state is the process of the player extended by
  the members of the class, the local variables of \<^verbatim>\<open>run\<close> and the socket; the player is reached
  through the record \<open>player_ops\<close> of its virtual methods.
\<close>

section \<open>State\<close>

datatype game_stage = PRE | AFTER_FIRST_DEAL | AFTER_DEAL | AFTER_TRICK | AFTER_SCORE | AFTER_TOTAL

text \<open>
  The last group is the environment: the readings of the clock, how the kernel takes the \<open>k\<close>-th
  message sent, and the bytes it has taken of each.
\<close>

record 'p client = "'p process" +
  tcpSock :: int
  cOwnAddr :: net_address
  cServerAddr :: net_address
  waitingForCard :: bool
  selectedCard :: card
  cSide :: side
  cTrickNo :: int
  cProto :: family
  exitFlag :: int
  openSock :: bool
  stage :: game_stage
  nextCmd :: string
  nextMsg :: string
  cTerminate :: bool
  sysClock :: "nat \<Rightarrow> int"
  clockReads :: nat
  sendKernel :: "nat \<Rightarrow> send_fun"
  sentMsgs :: "string list"

record outside =
  oLocalTime :: "int \<Rightarrow> string"
  oClock :: "nat \<Rightarrow> int"
  oKernel :: "nat \<Rightarrow> send_fun"

text \<open>The constructor; \<^verbatim>\<open>selectedCard\<close> is the three of hearts to begin with.\<close>

definition Client :: "outside \<Rightarrow> 'p \<Rightarrow> net_address \<Rightarrow> side \<Rightarrow> family \<Rightarrow> string \<Rightarrow> string \<Rightarrow> 'p client res" where
  "Client out player connectTo side proto coutText cerrText =
     bindE (Card ''3'' COLOR_H) (\<lambda>c. Inr
     \<lparr>cout = coutText, cerr = cerrText, localTime = oLocalTime out, plr = player,
      tcpSock = -1, cOwnAddr = (0, ''''), cServerAddr = connectTo, waitingForCard = False,
      selectedCard = c, cSide = side, cTrickNo = 1, cProto = proto, exitFlag = 0, openSock = False,
      stage = PRE, nextCmd = '''', nextMsg = '''', cTerminate = False,
      sysClock = oClock out, clockReads = 0, sendKernel = oKernel out, sentMsgs = []\<rparr>)"

type_synonym 'p c_action = "('p client, unit) action"
type_synonym 'p c_ops = "'p client player_ops"

section \<open>Sending\<close>

text \<open>The constructor of \<^verbatim>\<open>Message\<close> reads the clock.\<close>

definition new_message :: "net_address \<Rightarrow> net_address \<Rightarrow> string \<Rightarrow> ('p client, message) action" where
  "new_message from to pl =
     bindA (readA (\<lambda>w. sysClock w (clockReads w))) (\<lambda>now.
     thenA (modifyA (\<lambda>w. w\<lparr>clockReads := clockReads w + 1\<rparr>)) (returnA (Message now from to pl)))"

text \<open>\<^verbatim>\<open>sendMessage\<close>, with the method \<^verbatim>\<open>anyMsg\<close> of the player.\<close>

definition sendMessage :: "(message \<Rightarrow> 'p c_action) \<Rightarrow> send_job \<Rightarrow> 'p c_action" where
  "sendMessage anyMsgM job =
     (let msg = genMsg [] job in
      bindA (readA (\<lambda>w. sendNoBlockN (sendKernel w (length (sentMsgs w))) msg)) (\<lambda>(r, taken).
      thenA (modifyA (\<lambda>w. w\<lparr>sentMsgs := sentMsgs w @ [taken]\<rparr>)) (
      if r < int (length msg) then throwA (Runtime_error ''send'')
      else
        bindA (readA (\<lambda>w. (cOwnAddr w, cServerAddr w))) (\<lambda>(own, server).
        bindA (new_message own server (strip_crlf msg)) anyMsgM))))"

definition chooseCard :: "(message \<Rightarrow> 'p c_action) \<Rightarrow> card \<Rightarrow> 'p c_action" where
  "chooseCard anyMsgM c =
     bindA (liftA (Card (getValue c) (getColor c))) (\<lambda>sel.
     thenA (modifyA (\<lambda>w. w\<lparr>selectedCard := sel\<rparr>)) (
     bindA (readA (\<lambda>w. (waitingForCard w, cTrickNo w))) (\<lambda>(waiting, n).
     if waiting then
       thenA (sendMessage anyMsgM (SendJobTrick [sel] (size_t_of n)))
         (modifyA (\<lambda>w. w\<lparr>waitingForCard := False\<rparr>))
     else returnA ())))"

definition isWaitingForCard :: "('p client, bool) action" where
  "isWaitingForCard = readA waitingForCard"

section \<open>Messages of the server\<close>

text \<open>\<^verbatim>\<open>msgArray[i].second.at(0)\<close> as a side, and \<^verbatim>\<open>atoi(msgArray[i].second.c_str())\<close>.\<close>

definition field_side :: "parse_resp \<Rightarrow> nat \<Rightarrow> side res" where
  "field_side ps i = bindE (field ps i) (\<lambda>f. bindE (str_at f 0) (\<lambda>c. Inr (side_of_char c)))"

definition field_int :: "parse_resp \<Rightarrow> nat \<Rightarrow> int res" where
  "field_int ps i = bindE (field ps i) atoi"

text \<open>The branches of \<^verbatim>\<open>run\<close>, one for each kind of message.\<close>

definition on_deal :: "'p c_ops \<Rightarrow> parse_resp \<Rightarrow> 'p c_action" where
  "on_deal ops ps =
     thenA (modifyA (\<lambda>w. w\<lparr>stage := (if stage w = PRE then AFTER_FIRST_DEAL else AFTER_DEAL)\<rparr>)) (
     bindA (liftA (bindE (field ps 1) (\<lambda>f. str_at f 0))) (\<lambda>c.
     bindA (liftA (mapE (field_card ps) [3..<16])) (\<lambda>hand.
     bindA (liftA (field_side ps 2)) (\<lambda>starting.
     dealMsg ops (int_of_round (round_of_int (int (of_char c) - 48))) hand starting))))"

definition on_trick :: "'p c_ops \<Rightarrow> parse_resp \<Rightarrow> 'p c_action" where
  "on_trick ops ps =
     thenA (modifyA (\<lambda>w. w\<lparr>stage := AFTER_TRICK, waitingForCard := True\<rparr>)) (
     bindA (liftA (field_int ps 1)) (\<lambda>n.
     thenA (modifyA (\<lambda>w. w\<lparr>cTrickNo := n\<rparr>)) (
     bindA (liftA (mapE (field_card ps) [2..<length ps])) (\<lambda>t.
     trickMsg ops n t))))"

definition on_taken :: "'p c_ops \<Rightarrow> parse_resp \<Rightarrow> 'p c_action" where
  "on_taken ops ps =
     bindA (liftA (field_int ps 1)) (\<lambda>n.
     thenA (modifyA (\<lambda>w. w\<lparr>cTrickNo := n\<rparr>)) (
     bindA (liftA (field_side ps (szsub (length ps) 1))) (\<lambda>s.
     bindA (liftA (mapE (field_card ps) [2..<6])) (\<lambda>t.
     bindA (readA (\<lambda>w. stage w = AFTER_FIRST_DEAL)) (\<lambda>first.
     takenMsg ops s t n first)))))"

definition score_entry :: "parse_resp \<Rightarrow> nat \<Rightarrow> score_map \<Rightarrow> score_map res" where
  "score_entry ps i scores =
     bindE (field_side ps (2 * i - 1)) (\<lambda>s.
     bindE (field_int ps (2 * i)) (\<lambda>score.
     Inr (scores(s \<mapsto> score))))"

definition on_score :: "'p c_ops \<Rightarrow> bool \<Rightarrow> parse_resp \<Rightarrow> 'p c_action" where
  "on_score ops isTotal ps =
     thenA (modifyA (\<lambda>w. w\<lparr>stage := (if isTotal then AFTER_TOTAL else AFTER_SCORE)\<rparr>)) (
     bindA (liftA (foldE (score_entry ps) [1..<5] Map.empty)) (\<lambda>scores.
     scoreMsg ops scores isTotal))"

definition on_wrong :: "'p c_ops \<Rightarrow> parse_resp \<Rightarrow> 'p c_action" where
  "on_wrong ops ps =
     bindA (liftA (field_int ps 1)) (\<lambda>n.
     thenA (modifyA (\<lambda>w. w\<lparr>cTrickNo := n, waitingForCard := True\<rparr>))
       (wrongMsg ops n))"

definition on_busy :: "'p c_ops \<Rightarrow> parse_resp \<Rightarrow> 'p c_action" where
  "on_busy ops ps =
     bindA (liftA (mapE (field_side ps) [1..<length ps])) (\<lambda>taken.
     thenA (busyMsg ops taken)
       (modifyA (\<lambda>w. w\<lparr>exitFlag := 1, cTerminate := True\<rparr>)))"

text \<open>
  One message. The result tells whether the loop over the bytes is left (the \<^verbatim>\<open>break\<close> of BUSY).
  \<^verbatim>\<open>msgArray[0]\<close> of an empty array, which is what the parser returns for a text that is no
  message, is undefined.
\<close>

definition handle_line :: "'p c_ops \<Rightarrow> string \<Rightarrow> ('p client, bool) action" where
  "handle_line ops msg =
     bindA (readA (\<lambda>w. (cServerAddr w, cOwnAddr w))) (\<lambda>(server, own).
     bindA (new_message server own msg) (\<lambda>msgObj.
     thenA (anyMsg ops msgObj) (
     bindA (liftA (parseNetMsg msg False)) (\<lambda>ps.
     bindA (liftA (field ps 0)) (\<lambda>type.
     if type = ''DEAL'' then thenA (on_deal ops ps) (returnA False)
     else if type = ''TRICK_S'' then thenA (on_trick ops ps) (returnA False)
     else if type = ''TAKEN'' then thenA (on_taken ops ps) (returnA False)
     else if type = ''SCORE'' \<or> type = ''TOTAL'' then thenA (on_score ops (type = ''TOTAL'') ps) (returnA False)
     else if type = ''WRONG'' then thenA (on_wrong ops ps) (returnA False)
     else if type = ''BUSY'' then thenA (on_busy ops ps) (returnA True)
     else returnA False)))))"

text \<open>
  The loop over \<^verbatim>\<open>recv\<close>: a message ends with a newline, and its last two characters are cut off
  whatever they are.
\<close>

definition take_line :: "('p client, string) action" where
  "take_line =
     bindA (readA nextMsg) (\<lambda>m.
     bindA (liftA (substr m 0 (szsub (length m) 2))) (\<lambda>msg.
     thenA (modifyA (\<lambda>w. w\<lparr>nextMsg := ''''\<rparr>)) (returnA msg)))"

fun recv_bytes :: "'p c_ops \<Rightarrow> string \<Rightarrow> ('p client, bool) action" where
  "recv_bytes ops [] = returnA False"
| "recv_bytes ops (c # cs) =
     thenA (modifyA (\<lambda>w. w\<lparr>nextMsg := nextMsg w @ [c]\<rparr>)) (
     if c = CHR 0x0A then
       bindA take_line (\<lambda>msg.
       bindA (handle_line ops msg) (\<lambda>left. if left then returnA True else recv_bytes ops cs))
     else recv_bytes ops cs)"

section \<open>Commands\<close>

fun read_stdin :: "'p c_ops \<Rightarrow> string \<Rightarrow> 'p c_action" where
  "read_stdin ops [] = returnA ()"
| "read_stdin ops (c # cs) =
     (if c = CHR 0x0A then
        bindA (readA nextCmd) (\<lambda>cmd.
        thenA (anyCmd ops cmd) (
        thenA (modifyA (\<lambda>w. w\<lparr>nextCmd := ''''\<rparr>)) (read_stdin ops cs)))
      else thenA (modifyA (\<lambda>w. w\<lparr>nextCmd := nextCmd w @ [c]\<rparr>)) (read_stdin ops cs))"

section \<open>The loop\<close>

text \<open>
  A turn of the loop: what \<^verbatim>\<open>poll\<close> reports for the standard input and the socket, the bytes the
  reads of each yield and how they end.
\<close>

record client_turn =
  pollFails :: bool
  inErr :: bool
  inReady :: bool
  tcpErr :: bool
  tcpReady :: bool
  inBytes :: string
  inEnd :: read_end
  tcpBytes :: string
  tcpEnd :: read_end

definition again :: "errno \<Rightarrow> bool" where
  "again e \<longleftrightarrow> e = EAGAIN \<or> e = EWOULDBLOCK"

definition stdin_turn :: "'p c_ops \<Rightarrow> client_turn \<Rightarrow> 'p c_action" where
  "stdin_turn ops i =
     thenA (read_stdin ops (inBytes i))
       (case inEnd i of
          Read_eof \<Rightarrow> returnA ()
        | Read_error e \<Rightarrow> if \<not> again e then throwA (Runtime_error ''read on stdin'') else returnA ())"

definition tcp_turn :: "'p c_ops \<Rightarrow> client_turn \<Rightarrow> 'p c_action" where
  "tcp_turn ops i =
     bindA (recv_bytes ops (tcpBytes i)) (\<lambda>left.
     if left then returnA ()
     else case tcpEnd i of
       Read_error e \<Rightarrow> if \<not> again e then throwA (Runtime_error ''read on tcp sock'') else returnA ()
     | Read_eof \<Rightarrow>
         modifyA (\<lambda>w. w\<lparr>exitFlag := (if stage w \<noteq> AFTER_TOTAL then 1 else 0), cTerminate := True\<rparr>))"

definition client_step :: "'p c_ops \<Rightarrow> client_turn \<Rightarrow> 'p c_action" where
  "client_step ops i =
     (if pollFails i then throwA (Runtime_error ''poll'')
      else if inErr i then throwA (Runtime_error ''poll on stdin'')
      else if inReady i then stdin_turn ops i
      else if tcpErr i then throwA (Runtime_error ''poll on tcp sock'')
      else if tcpReady i then tcp_turn ops i
      else returnA ())"

text \<open>With the list of turns used up the client waits in \<^verbatim>\<open>poll\<close>.\<close>

fun client_loop :: "'p c_ops \<Rightarrow> client_turn list \<Rightarrow> 'p c_action" where
  "client_loop ops [] = returnA ()"
| "client_loop ops (i # is) =
     bindA (readA cTerminate) (\<lambda>t. if t then returnA () else thenA (client_step ops i) (client_loop ops is))"

section \<open>Starting and stopping\<close>

text \<open>What the system calls at the start yield.\<close>

record client_env =
  addrInfo :: "string \<Rightarrow> family \<Rightarrow> int + addrinfo"
  sockFd :: int
  bindOk :: bool
  sockName :: "family \<Rightarrow> net_address option"
  connectOk :: bool

definition makeConnection :: "client_env \<Rightarrow> family \<Rightarrow> int res" where
  "makeConnection env proto =
     (if sockFd env < 0 then Inl (Runtime_error ''socket'')
      else if proto = AF_INET6 then
        if \<not> bindOk env then Inl (Runtime_error ''bind'') else Inr (sockFd env)
      else if \<not> bindOk env then Inl (Runtime_error ''bind'') else Inr (sockFd env))"

definition client_start :: "client_env \<Rightarrow> 'p c_ops \<Rightarrow> 'p c_action" where
  "client_start env ops =
     bindA (readA (\<lambda>w. (cServerAddr w, cProto w))) (\<lambda>(server, proto).
     bindA (liftA (getIntAddr (addrInfo env) (snd server) proto (htons (fst server)))) (\<lambda>addr.
     thenA (modifyA (\<lambda>w. w\<lparr>cProto := family_of addr\<rparr>)) (
     bindA (liftA (makeConnection env (family_of addr))) (\<lambda>fd.
     thenA (modifyA (\<lambda>w. w\<lparr>tcpSock := fd, openSock := True\<rparr>)) (
     bindA (liftA (getAddrStruct (sockName env) (family_of addr))) (\<lambda>own.
     thenA (modifyA (\<lambda>w. w\<lparr>cOwnAddr := own\<rparr>)) (
     if \<not> connectOk env then throwA (Runtime_error ''connect'')
     else bindA (readA cSide) (\<lambda>s. sendMessage (anyMsg ops) (SendJobIntro s)))))))))"

text \<open>\<open>run\<close> returns \<^verbatim>\<open>exitFlag\<close>, or nothing while the client still waits.\<close>

definition client_run :: "client_env \<Rightarrow> 'p c_ops \<Rightarrow> client_turn list \<Rightarrow> ('p client, int option) action" where
  "client_run env ops is =
     thenA (client_start env ops) (
     thenA (client_loop ops is) (
     bindA (readA cTerminate) (\<lambda>t.
     if t then thenA (modifyA (\<lambda>w. w\<lparr>openSock := False\<rparr>)) (readA (\<lambda>w. Some (exitFlag w)))
     else returnA None)))"

definition cleanup :: "bool \<Rightarrow> 'p c_action" where
  "cleanup closeOk =
     bindA (readA openSock) (\<lambda>isOpen.
     if isOpen then (if \<not> closeOk then throwA (Runtime_error ''close'') else returnA ()) else returnA ())"

end
