(* ===== verification/Client_Correct.thy ===== *)
theory Client_Correct
  imports Client Actions
begin

text \<open>
  What the client does with what it reads: each well-formed message of the server comes down to the
  call of one method of the player with the data of that message (\<open>job_step\<close>), a stream of messages
  to these steps in order, however it is cut into reads, and any other line to undefined behaviour.
\<close>

section \<open>The step of a message\<close>

definition log_line :: "'p c_ops \<Rightarrow> string \<Rightarrow> 'p c_action" where
  "log_line ops m =
     bindA (readA (\<lambda>w. (cServerAddr w, cOwnAddr w))) (\<lambda>(server, own).
     bindA (new_message server own m) (anyMsg ops))"

fun job_step :: "'p c_ops \<Rightarrow> send_job \<Rightarrow> 'p c_action" where
  "job_step ops (SendDealJob r s cards) =
     thenA (modifyA (\<lambda>w. w\<lparr>stage := (if stage w = PRE then AFTER_FIRST_DEAL else AFTER_DEAL)\<rparr>))
       (dealMsg ops (int_of_round r) cards s)"
| "job_step ops (SendJobTrick tab n) =
     thenA (modifyA (\<lambda>w. w\<lparr>stage := AFTER_TRICK, waitingForCard := True, cTrickNo := int n\<rparr>))
       (trickMsg ops (int n) tab)"
| "job_step ops (SendJobTaken tab s n) =
     thenA (modifyA (\<lambda>w. w\<lparr>cTrickNo := n\<rparr>))
       (bindA (readA (\<lambda>w. stage w = AFTER_FIRST_DEAL)) (takenMsg ops s tab n))"
| "job_step ops (SendJobScore scores) =
     thenA (modifyA (\<lambda>w. w\<lparr>stage := AFTER_SCORE\<rparr>)) (scoreMsg ops (scores |` set sides) False)"
| "job_step ops (SendJobTotal scores) =
     thenA (modifyA (\<lambda>w. w\<lparr>stage := AFTER_TOTAL\<rparr>)) (scoreMsg ops (scores |` set sides) True)"
| "job_step ops (SendJobWrong n) =
     thenA (modifyA (\<lambda>w. w\<lparr>cTrickNo := int n, waitingForCard := True\<rparr>)) (wrongMsg ops (int n))"
| "job_step ops (SendJobBusy taken) =
     thenA (busyMsg ops taken) (modifyA (\<lambda>w. w\<lparr>exitFlag := 1, cTerminate := True\<rparr>))"
| "job_step ops (SendJobIntro s) = returnA ()"

fun is_busy :: "send_job \<Rightarrow> bool" where
  "is_busy (SendJobBusy taken) = True"
| "is_busy _ = False"

text \<open>The numbers of a score fit an \<^verbatim>\<open>int\<close>.\<close>

definition scores_small :: "score_map \<Rightarrow> bool" where
  "scores_small scores \<longleftrightarrow> (\<forall>t \<in> set sides. get 0 t scores < 2 ^ 31)"

fun job_small :: "send_job \<Rightarrow> bool" where
  "job_small (SendJobScore scores) = scores_small scores"
| "job_small (SendJobTotal scores) = scores_small scores"
| "job_small _ = True"

definition server_job :: "side list \<Rightarrow> send_job \<Rightarrow> bool" where
  "server_job ord j \<longleftrightarrow> job_ok ord j \<and> job_small j \<and> \<not> from_client j"

section \<open>Reading the fields\<close>

lemma field_append: "field (xs @ y # ys) (length xs) = Inr (snd y)"
  by (simp add: field_def)

lemma mapE_upt:
  assumes "\<And>i. i < length xs \<Longrightarrow> f (k + i) = Inr (xs ! i)"
  shows "mapE f [k..<k + length xs] = Inr xs"
proof -
  have "mapE f [k..<k + length xs] = Inr (map (\<lambda>i. xs ! (i - k)) [k..<k + length xs])"
    by (rule mapE_Inr_map) (use assms in \<open>auto simp: le_iff_add\<close>)
  also have "map (\<lambda>i. xs ! (i - k)) [k..<k + length xs] = xs"
    by (rule nth_equalityI) simp_all
  finally show ?thesis .
qed

lemma fields_cards:
  assumes "\<forall>c \<in> set cs. wf_card c"
  shows "mapE (field_card (pre @ card_fields (map toString cs) @ post)) [length pre..<length pre + length cs] = Inr cs"
  using assms by (intro mapE_upt) (simp add: field_card_def field_def card_fields_def nth_append fromString_toString)

lemma fields_sides:
  assumes "\<forall>t \<in> set ts. real_side t"
  shows "mapE (field_side (pre @ side_fields (map char_of_side ts))) [length pre..<length pre + length ts] = Inr ts"
  using assms
  by (intro mapE_upt) (simp add: field_side_def field_def side_fields_def nth_append str_at_def side_of_char_of_side)

lemma field_side_append:
  "real_side t \<Longrightarrow> field_side (pre @ [(''side'', [char_of_side t])]) (length pre) = Inr t"
  by (simp add: field_side_def field_append str_at_def side_of_char_of_side)

section \<open>One message\<close>

lemma parse_job:
  "server_job ord j \<Longrightarrow> parseNetMsg (msg_body ord j) False = Inr (parts_fields (job_parts ord j))"
  using read_job [of ord j] by (simp add: server_job_def strip_genMsg)

lemma game_cards_wf: "\<forall>c \<in> set cs. game_card c \<Longrightarrow> \<forall>c \<in> set cs. wf_card c"
  using game_card_wf by blast

lemma deal_fields_step:
  assumes "server_job ord (SendDealJob r s cards)"
  shows "on_deal ops (parts_fields (job_parts ord (SendDealJob r s cards))) = job_step ops (SendDealJob r s cards)"
proof -
  have ok: "real_round r" "real_side s" "length cards = 13" "\<forall>c \<in> set cards. wf_card c"
    using assms game_cards_wf by (auto simp: server_job_def TRICKS_PER_ROUND_def)
  let ?ps = "parts_fields (job_parts ord (SendDealJob r s cards))"
  have cards: "mapE (field_card ?ps) [3..<16] = Inr cards"
    using fields_cards [OF ok(4), of "[(''type'', ''DEAL''), (''round_mode'', [digit_char (nat (int_of_round r))]), (''side'', [char_of_side s])]" "[]"] ok(3)
    by (simp add: eval_nat_numeral)
  have mode: "int_of_round (round_of_int (int (of_char (digit_char (nat (int_of_round r)))) - 48)) = int_of_round r"
    using ok(1) by (cases r) (simp_all add: round_of_int_def)
  show ?thesis
    unfolding on_deal_def cards using ok(2) mode
    by (simp add: field_side_def str_at_def side_of_char_of_side liftA_def bindA_def returnA_def)
qed

lemma trick_fields_step:
  assumes "server_job ord (SendJobTrick tab n)"
  shows "on_trick ops (parts_fields (job_parts ord (SendJobTrick tab n))) = job_step ops (SendJobTrick tab n)"
proof -
  have ok: "\<forall>c \<in> set tab. wf_card c" "atoi (to_string (int n)) = Inr (int n)"
    using assms game_cards_wf by (auto simp: server_job_def TRICKS_PER_ROUND_def atoi_to_string)
  let ?ps = "parts_fields (job_parts ord (SendJobTrick tab n))"
  have "length ?ps = 2 + length tab" by (simp add: card_fields_def)
  then have cards: "mapE (field_card ?ps) [2..<length ?ps] = Inr tab"
    using fields_cards [OF ok(1), of "[(''type'', ''TRICK_S''), (''rn'', to_string (int n))]" "[]"]
    by (simp add: eval_nat_numeral)
  show ?thesis
    unfolding on_trick_def cards using ok(2)
    by (simp add: field_int_def liftA_def bindA_def thenA_def modifyA_def)
qed

lemma taken_fields_step:
  assumes "server_job ord (SendJobTaken tab s n)"
  shows "on_taken ops (parts_fields (job_parts ord (SendJobTaken tab s n))) = job_step ops (SendJobTaken tab s n)"
proof -
  have ok: "\<forall>c \<in> set tab. wf_card c" "atoi (to_string n) = Inr n" "real_side s" "length tab = 4"
    using assms game_cards_wf by (auto simp: server_job_def TRICKS_PER_ROUND_def atoi_to_string)
  let ?ps = "parts_fields (job_parts ord (SendJobTaken tab s n))"
  have cards: "mapE (field_card ?ps) [2..<6] = Inr tab"
    using fields_cards [OF ok(1), of "[(''type'', ''TAKEN''), (''rn'', to_string n)]" "[(''side'', [char_of_side s])]"] ok(4)
    by (simp add: eval_nat_numeral)
  have side: "field_side ?ps (szsub (length ?ps) 1) = Inr s"
    using field_side_append [OF ok(3), of "(''type'', ''TAKEN'') # (''rn'', to_string n) # card_fields (map toString tab)"]
    by simp
  show ?thesis
    unfolding on_taken_def cards side using ok(2)
    by (simp add: field_int_def liftA_def bindA_def thenA_def modifyA_def)
qed

lemma wrong_fields_step:
  assumes "server_job ord (SendJobWrong n)"
  shows "on_wrong ops (parts_fields (job_parts ord (SendJobWrong n))) = job_step ops (SendJobWrong n)"
proof -
  have "atoi (to_string (int n)) = Inr (int n)"
    using assms by (auto simp: server_job_def TRICKS_PER_ROUND_def atoi_to_string)
  then show ?thesis by (simp add: on_wrong_def field_int_def liftA_def bindA_def thenA_def modifyA_def)
qed

lemma busy_fields_step:
  assumes "server_job ord (SendJobBusy taken)"
  shows "on_busy ops (parts_fields (job_parts ord (SendJobBusy taken))) = job_step ops (SendJobBusy taken)"
proof -
  have ok: "\<forall>t \<in> set taken. real_side t" using assms by (simp add: server_job_def)
  have "mapE (field_side (parts_fields (job_parts ord (SendJobBusy taken))))
      [1..<length (parts_fields (job_parts ord (SendJobBusy taken)))] = Inr taken"
    using fields_sides [OF ok, of "[(''type'', ''BUSY'')]"] by (simp add: side_fields_def)
  then show ?thesis by (simp add: on_busy_def liftA_def bindA_def)
qed

lemma score_values:
  assumes "scores_ok ord scores" and "scores_small scores" and "t \<in> set ord"
  obtains v where "scores t = Some v" "atoi (to_string (get 0 t scores)) = Inr v" "real_side t"
proof -
  have t: "t \<in> set sides" using assms(3) scores_ok_ord [OF assms(1)] by simp
  then obtain v where "scores t = Some v" "0 \<le> v" using assms(1) unfolding scores_ok_def by blast
  moreover have "get 0 t scores < 2 ^ 31" using assms(2) t unfolding scores_small_def by blast
  ultimately show thesis using that [of v] t by (simp add: atoi_to_string real_side_def)
qed

lemma score_entries:
  assumes "scores_ok ord scores" and "scores_small scores"
  shows "foldE (score_entry ((''type'', x) # score_fields (score_parts ord scores))) [1..<5] Map.empty =
    Inr (scores |` set sides)"
proof -
  have ord: "set ord = set sides" "length ord = 4" using scores_ok_ord [OF assms(1)] by simp_all
  then obtain a b c d where abcd: "ord = [a, b, c, d]" by (auto simp: length_Suc_conv eval_nat_numeral)
  have val: "\<exists>v. scores t = Some v \<and> atoi (to_string (get 0 t scores)) = Inr v \<and> real_side t" if "t \<in> set ord" for t
    using score_values [OF assms that] by blast
  obtain va vb vc vd where v:
    "scores a = Some va" "atoi (to_string va) = Inr va" "real_side a"
    "scores b = Some vb" "atoi (to_string vb) = Inr vb" "real_side b"
    "scores c = Some vc" "atoi (to_string vc) = Inr vc" "real_side c"
    "scores d = Some vd" "atoi (to_string vd) = Inr vd" "real_side d"
    using val [of a] val [of b] val [of c] val [of d] abcd by auto
  have "foldE (score_entry ((''type'', x) # score_fields (score_parts ord scores))) [1, 2, 3, 4] Map.empty =
      Inr (Map.empty(a \<mapsto> va, b \<mapsto> vb, c \<mapsto> vc, d \<mapsto> vd))"
    using v
    by (simp add: abcd score_parts_def score_fields_def score_entry_def field_side_def field_int_def str_at_def
        side_of_char_of_side field_def)
  also have "Map.empty(a \<mapsto> va, b \<mapsto> vb, c \<mapsto> vc, d \<mapsto> vd) = scores |` set sides"
    unfolding ord(1) [symmetric] abcd using v by (auto simp: fun_eq_iff restrict_map_def)
  moreover have "[1..<5] = [1, 2, 3, 4 :: nat]" by (simp add: upt_rec)
  ultimately show ?thesis by (simp only:)
qed

lemma score_fields_step:
  assumes "server_job ord (SendJobScore scores)"
  shows "on_score ops False (parts_fields (job_parts ord (SendJobScore scores))) = job_step ops (SendJobScore scores)"
proof -
  have "scores_ok ord scores" "scores_small scores" using assms by (simp_all add: server_job_def)
  from score_entries [OF this, of "''SCORE''"] show ?thesis
    unfolding on_score_def parts_fields.simps job_parts.simps job_step.simps by (simp add: liftA_def bindA_def)
qed

lemma total_fields_step:
  assumes "server_job ord (SendJobTotal scores)"
  shows "on_score ops True (parts_fields (job_parts ord (SendJobTotal scores))) = job_step ops (SendJobTotal scores)"
proof -
  have "scores_ok ord scores" "scores_small scores" using assms by (simp_all add: server_job_def)
  from score_entries [OF this, of "''TOTAL''"] show ?thesis
    unfolding on_score_def parts_fields.simps job_parts.simps job_step.simps by (simp add: liftA_def bindA_def)
qed

lemmas field_steps = deal_fields_step trick_fields_step taken_fields_step wrong_fields_step busy_fields_step score_fields_step total_fields_step

text \<open>What a line does once it has been taken apart.\<close>

lemma handle_line_parsed:
  assumes "parseNetMsg m False = Inr ps"
  shows "handle_line ops m =
    thenA (log_line ops m) (bindA (liftA (field ps 0)) (\<lambda>type.
     if type = ''DEAL'' then thenA (on_deal ops ps) (returnA False)
     else if type = ''TRICK_S'' then thenA (on_trick ops ps) (returnA False)
     else if type = ''TAKEN'' then thenA (on_taken ops ps) (returnA False)
     else if type = ''SCORE'' \<or> type = ''TOTAL'' then thenA (on_score ops (type = ''TOTAL'') ps) (returnA False)
     else if type = ''WRONG'' then thenA (on_wrong ops ps) (returnA False)
     else if type = ''BUSY'' then thenA (on_busy ops ps) (returnA True)
     else returnA False))"
  unfolding handle_line_def log_line_def thenA_def split_def bindA_assoc assms bindA_lift
  by (rule refl)

text \<open>The name the parser gives to each message.\<close>

fun type_name :: "send_job \<Rightarrow> string" where
  "type_name (SendJobTrick tab n) = ''TRICK_S''"
| "type_name j = msgPrefix j"

lemma field_type: "field (parts_fields (job_parts ord j)) 0 = Inr (type_name j)"
  by (cases j) simp_all

lemma client_reads:
  assumes "server_job ord j"
  shows "handle_line ops (msg_body ord j) =
    thenA (log_line ops (msg_body ord j)) (thenA (job_step ops j) (returnA (is_busy j)))"
proof (cases j)
  case (SendJobIntro s)
  then show ?thesis using assms by (simp add: server_job_def)
qed (use assms in \<open>simp_all add: handle_line_parsed [OF parse_job] field_type field_steps [of ord] del: msg_body.simps job_step.simps parts_fields.simps job_parts.simps\<close>)

section \<open>Streams of messages\<close>

lemma recv_bytes_append:
  "recv_bytes ops (xs @ ys) =
   bindA (recv_bytes ops xs) (\<lambda>left. if left then returnA True else recv_bytes ops ys)"
proof (induction xs)
  case (Cons x xs)
  show ?case
    by (simp only: append_Cons recv_bytes.simps Cons.IH thenA_def bindA_assoc bindA_if bindA_return if_True)
qed simp

text \<open>The bytes of a line are collected, and its newline hands it on.\<close>

lemma recv_bytes_collects:
  "one_line q \<Longrightarrow> recv_bytes ops (q @ rest) w = recv_bytes ops rest (w\<lparr>nextMsg := nextMsg w @ q\<rparr>)"
  by (induction q arbitrary: w) (auto simp: one_line_simps)

lemma recv_bytes_line:
  assumes "one_line q" and "nextMsg w = p"
  shows "recv_bytes ops (q @ crlf @ rest) w =
    bindA (handle_line ops (p @ q)) (\<lambda>left. if left then returnA True else recv_bytes ops rest) (w\<lparr>nextMsg := ''''\<rparr>)"
proof -
  have "recv_bytes ops ((q @ [CHR 0x0D]) @ CHR 0x0A # rest) w =
      recv_bytes ops (CHR 0x0A # rest) (w\<lparr>nextMsg := nextMsg w @ q @ [CHR 0x0D]\<rparr>)"
    by (subst recv_bytes_collects) (use assms(1) in \<open>simp_all add: one_line_simps\<close>)
  then show ?thesis
    by (simp add: crlf_def take_line_def substr_def assms(2))
qed

section \<open>Players that leave the client alone\<close>

text \<open>
  The client relies on its player: a method may send the card that is awaited and write, but the
  variables of \<^verbatim>\<open>run\<close> and the addresses are the client's own.
\<close>

definition locals :: "'p client \<Rightarrow> _" where
  "locals w = (nextMsg w, nextCmd w, stage w, cTerminate w, exitFlag w, openSock w, tcpSock w, cSide w,
     cProto w, cOwnAddr w, cServerAddr w, cTrickNo w, sendKernel w)"

abbreviation frame :: "('p client, 'a) action \<Rightarrow> bool" where
  "frame \<equiv> keeps locals"

lemma locals_eq:
  "locals w' = locals w \<longleftrightarrow> nextMsg w' = nextMsg w \<and> nextCmd w' = nextCmd w \<and> stage w' = stage w \<and>
     cTerminate w' = cTerminate w \<and> exitFlag w' = exitFlag w \<and> openSock w' = openSock w \<and>
     tcpSock w' = tcpSock w \<and> cSide w' = cSide w \<and> cProto w' = cProto w \<and> cOwnAddr w' = cOwnAddr w \<and>
     cServerAddr w' = cServerAddr w \<and> cTrickNo w' = cTrickNo w \<and> sendKernel w' = sendKernel w"
  by (simp add: locals_def)

lemma frame_parts: "frame m \<Longrightarrow> keeps nextMsg m" "frame m \<Longrightarrow> keeps cTerminate m"
  by (auto elim!: keeps_weaken simp: locals_eq)

lemma frame_process [keeping]: "frame (say t)" "frame (complain t)" "frame (on_player g)"
  unfolding say_def complain_def on_player_def by (auto intro!: keeping simp: locals_eq)

lemma frame_message [keeping]: "frame (new_message a b m)"
  unfolding new_message_def by (auto intro!: keeping simp: locals_eq)

lemma frame_pop [keeping]: "frame (pop_last f)"
  unfolding pop_last_def by (auto intro!: keeping split: list.split)

lemma frame_push [keeping]: "frame (push_last c)"
  unfolding push_last_def by (intro keeping)

lemma frame_send [keeping]: "(\<And>m. frame (any m)) \<Longrightarrow> frame (sendMessage any j)"
  unfolding sendMessage_def Let_def by (auto intro!: keeping split: prod.split simp: locals_eq)

lemma frame_choose [keeping]: "(\<And>m. frame (any m)) \<Longrightarrow> frame (chooseCard any c)"
  unfolding chooseCard_def by (auto intro!: keeping split: prod.split simp: locals_eq)

text \<open>The contract of the interface \<open>player_ops\<close>.\<close>

locale client_player =
  fixes ops :: "'p c_ops"
  assumes trick_frame: "frame (trickMsg ops n t)"
    and taken_frame: "frame (takenMsg ops s t k b)"
    and score_frame: "frame (scoreMsg ops sc b)"
    and deal_frame: "frame (dealMsg ops k h s)"
    and wrong_frame: "frame (wrongMsg ops k)"
    and busy_frame: "frame (busyMsg ops ss)"
    and any_frame: "frame (anyMsg ops m)"
    and cmd_frame: "frame (anyCmd ops c)"
begin

lemmas ops_frame = trick_frame taken_frame score_frame deal_frame wrong_frame busy_frame any_frame cmd_frame

lemmas ops_keep [keeping] = ops_frame [THEN frame_parts(1)] ops_frame [THEN frame_parts(2)]

lemma log_frame: "frame (log_line ops m)"
  unfolding log_line_def by (auto intro!: keeping any_frame split: prod.split)

lemmas log_keep [keeping] = log_frame [THEN frame_parts(1)] log_frame [THEN frame_parts(2)]

lemma job_keeps_buffer: "keeps nextMsg (job_step ops j)"
  by (cases j) (auto intro!: keeping)

lemma job_keeps_running: "\<not> is_busy j \<Longrightarrow> keeps cTerminate (job_step ops j)"
  by (cases j) (auto intro!: keeping)

end

section \<open>Streams in pieces\<close>

text \<open>The loop over the bytes is left exactly when the loop of \<^verbatim>\<open>run\<close> is told to end.\<close>

definition leaves :: "('p client, bool) action \<Rightarrow> bool" where
  "leaves m \<longleftrightarrow> (\<forall>w b w'. m w = (Inr b, w') \<longrightarrow> cTerminate w' = (b \<or> cTerminate w))"

lemma leaves_return: "leaves (returnA False)"
  by (simp add: leaves_def)

lemma leaves_bind:
  assumes "keeps cTerminate m" and "\<And>x. leaves (f x)"
  shows "leaves (bindA m f)"
  using assms(2) keepsD [OF assms(1)] unfolding leaves_def bindA_eq_Inr by metis

lemma leaves_then: "keeps cTerminate m \<Longrightarrow> leaves n \<Longrightarrow> leaves (thenA m n)"
  unfolding thenA_def by (rule leaves_bind)

lemma leaves_seq:
  assumes "leaves m" and "leaves n"
  shows "leaves (bindA m (\<lambda>left. if left then returnA True else n))"
  unfolding leaves_def bindA_eq_Inr
proof (intro allI impI, elim exE conjE)
  fix w b w' x u
  assume m: "m w = (Inr x, u)" and n: "(if x then returnA True else n) u = (Inr b, w')"
  show "cTerminate w' = (b \<or> cTerminate w)"
    using m n assms unfolding leaves_def by (cases x) auto
qed

lemma leaves_busy: "leaves (thenA (on_busy ops ps) (returnA True))"
  by (auto simp: leaves_def on_busy_def thenA_def bindA_eq_Inr)

lemmas leaving = leaves_return leaves_bind leaves_then leaves_seq leaves_busy

definition tcp_chunk :: "string \<Rightarrow> client_turn" where
  "tcp_chunk bs =
     \<lparr>pollFails = False, inErr = False, inReady = False, tcpErr = False, tcpReady = True,
      inBytes = '''', inEnd = Read_error EAGAIN, tcpBytes = bs, tcpEnd = Read_error EAGAIN\<rparr>"

lemma chunk_step: "client_step ops (tcp_chunk bs) = bindA (recv_bytes ops bs) (\<lambda>left. returnA ())"
  by (simp add: client_step_def tcp_chunk_def tcp_turn_def again_def cong: if_cong)

definition message_step :: "'p c_ops \<Rightarrow> side list \<Rightarrow> send_job \<Rightarrow> 'p c_action" where
  "message_step ops ord j = thenA (log_line ops (msg_body ord j)) (job_step ops j)"

context client_player
begin

lemma branches_keep:
  "keeps cTerminate (on_deal ops ps)" "keeps cTerminate (on_trick ops ps)"
  "keeps cTerminate (on_taken ops ps)" "keeps cTerminate (on_score ops b ps)"
  "keeps cTerminate (on_wrong ops ps)"
  unfolding on_deal_def on_trick_def on_taken_def on_score_def on_wrong_def
  by (auto intro!: keeping)

lemma leaves_line: "leaves (handle_line ops m)"
proof -
  obtain ps where ps: "parseNetMsg m False = Inr ps" using parse_total [of False m] by blast
  show ?thesis
    unfolding handle_line_parsed [OF ps]
    by (intro leaving keeping log_keep branches_keep)
      (auto intro!: leaving branches_keep)
qed

lemma leaves_bytes: "leaves (recv_bytes ops bs)"
proof (induction bs)
  case (Cons b bs)
  have "keeps cTerminate take_line" unfolding take_line_def by (auto intro!: keeping)
  then have "leaves (bindA take_line (\<lambda>msg. bindA (handle_line ops msg)
      (\<lambda>left. if left then returnA True else recv_bytes ops bs)))"
    by (intro leaves_bind leaves_seq leaves_line Cons)
  with Cons show ?case unfolding recv_bytes.simps by (intro leaves_then keeping) simp_all
qed (simp add: leaves_def)

lemma client_chunks:
  "\<not> cTerminate w \<Longrightarrow>
   client_loop ops (map tcp_chunk css) w = bindA (recv_bytes ops (concat css)) (\<lambda>left. returnA ()) w"
proof (induction css arbitrary: w)
  case (Cons cs css)
  obtain r w1 where r: "recv_bytes ops cs w = (r, w1)" by (cases "recv_bytes ops cs w")
  show ?case
  proof (cases r)
    case (Inl e)
    with r Cons.prems show ?thesis by (simp add: chunk_step recv_bytes_append thenA_def bindA_assoc)
  next
    case (Inr left)
    then have "cTerminate w1 = left" using leaves_bytes [of cs] r Cons.prems by (auto simp: leaves_def)
    with r Inr Cons show ?thesis
      by (cases left; cases css) (simp_all add: chunk_step recv_bytes_append thenA_def bindA_assoc bindA_if)
  qed
qed simp

lemma recv_stream:
  assumes "\<forall>j \<in> set js. server_job ord j \<and> \<not> is_busy j" and "nextMsg w = ''''"
  shows "recv_bytes ops (concat (map (genMsg ord) js)) w =
    bindA (foldA (message_step ops ord) js) (\<lambda>u. returnA False) w"
  using assms
proof (induction js arbitrary: w)
  case (Cons j js)
  let ?step = "message_step ops ord j"
  have j: "server_job ord j" "\<not> is_busy j" using Cons.prems(1) by simp_all
  have line: "one_line (msg_body ord j)" using j(1) by (auto simp: server_job_def intro: one_line_job)
  have read: "handle_line ops (msg_body ord j) = bindA ?step (\<lambda>u. returnA False)"
    unfolding client_reads [OF j(1)] message_step_def thenA_def using j(2) by (simp add: bindA_assoc)
  have w: "w\<lparr>nextMsg := []\<rparr> = w" using Cons.prems(2) by (cases w) simp
  have "recv_bytes ops (concat (map (genMsg ord) (j # js))) w =
      bindA (bindA ?step (\<lambda>u. returnA False))
        (\<lambda>left. if left then returnA True else recv_bytes ops (concat (map (genMsg ord) js))) w"
    using recv_bytes_line [OF line Cons.prems(2), of ops] read Cons.prems(2) w by (simp add: genMsg_body)
  also have "\<dots> = bindA ?step (\<lambda>u. recv_bytes ops (concat (map (genMsg ord) js))) w"
    by (simp add: bindA_assoc)
  also have "\<dots> = bindA (foldA (message_step ops ord) (j # js)) (\<lambda>u. returnA False) w"
  proof (cases "?step w")
    case (Pair r w1)
    have "keeps nextMsg ?step" unfolding message_step_def by (intro keeping log_keep job_keeps_buffer)
    from keepsD [OF this Pair] have "nextMsg w1 = ''''" using Cons.prems(2) by simp
    with Cons.IH [of w1] Cons.prems(1) Pair show ?thesis
      by (cases r) (simp_all add: thenA_def bindA_assoc del: action_simps)
  qed
  finally show ?case .
qed simp

lemma stream_in_chunks:
  assumes "\<forall>j \<in> set js. server_job ord j \<and> \<not> is_busy j" and "nextMsg w = ''''" and "\<not> cTerminate w"
    and "concat css = concat (map (genMsg ord) js)"
  shows "client_loop ops (map tcp_chunk css) w = foldA (message_step ops ord) js w"
  unfolding client_chunks [OF assms(3)] assms(4)
proof -
  have "bindA (recv_bytes ops (concat (map (genMsg ord) js))) (\<lambda>left. returnA ()) w =
      bindA (bindA (foldA (message_step ops ord) js) (\<lambda>u. returnA False)) (\<lambda>left. returnA ()) w"
    using recv_stream [OF assms(1,2)] by (simp add: bindA_def)
  then show "bindA (recv_bytes ops (concat (map (genMsg ord) js))) (\<lambda>left. returnA ()) w =
      foldA (message_step ops ord) js w"
    by (simp add: bindA_assoc) (simp add: bindA_def split: prod.splits sum.splits)
qed

end

end
