(* ===== verification/Strategy.thy ===== *)
theory Strategy
  imports Game_Rules
begin

text \<open>
  \<^verbatim>\<open>client/strategy.cpp\<close>: how the automatic player picks a card. The class holds a hand only, so
  its state is the hand. The lemmas show that the card picked is one the rules allow.
\<close>

section \<open>The code\<close>

type_synonym strategy = hand

text \<open>The constructor and \<^verbatim>\<open>reset\<close> ignore the kind of round; \<^verbatim>\<open>accHand\<close> gives the hand out.\<close>

definition Strategy :: "hand \<Rightarrow> int \<Rightarrow> strategy" where
  "Strategy hand mode = hand"

definition strategy_reset :: "hand \<Rightarrow> int \<Rightarrow> strategy \<Rightarrow> strategy" where
  "strategy_reset newHand mode st = newHand"

text \<open>
  The loop over the hand: \<open>i\<close> is the position of the iterator, \<open>cand\<close> and \<open>erase\<close> the candidate
  and the position it was taken from.
\<close>

fun cand_loop :: "color \<Rightarrow> nat \<Rightarrow> hand \<Rightarrow> card \<Rightarrow> nat \<Rightarrow> card \<times> nat" where
  "cand_loop colorReq i [] cand toErase = (cand, toErase)"
| "cand_loop colorReq i (c # cs) cand toErase =
     (if getColor cand \<noteq> colorReq \<and> getColor c = colorReq
      then cand_loop colorReq (Suc i) cs c i
      else cand_loop colorReq (Suc i) cs cand toErase)"

definition erase_at :: "nat \<Rightarrow> hand \<Rightarrow> hand" where
  "erase_at i h = take i h @ drop (Suc i) h"

text \<open>\<^verbatim>\<open>front\<close>, \<^verbatim>\<open>back\<close>, \<^verbatim>\<open>pop_back\<close> and \<^verbatim>\<open>erase\<close> of an empty hand are undefined.\<close>

definition strategy_nextMove :: "table \<Rightarrow> strategy \<Rightarrow> (card \<times> strategy) res" where
  "strategy_nextMove t hand =
     (if hand = [] then Inl Undefined
      else case t of
        [] \<Rightarrow> Inr (last hand, butlast hand)
      | front # rest \<Rightarrow>
          (case cand_loop (getColor front) 0 hand (hd hand) 0 of
             (cand, toErase) \<Rightarrow> Inr (cand, erase_at toErase hand)))"

section \<open>The choice\<close>

text \<open>The loop ends on the candidate it began with, or on the first card of the led suit.\<close>

lemma cand_loop_result:
  assumes "j < length (xs @ ys)" and "cand = (xs @ ys) ! j"
    and "getColor cand = k \<or> (\<forall>c \<in> set xs. getColor c \<noteq> k)"
    and "cand_loop k (length xs) ys cand j = (c, e)"
  shows "e < length (xs @ ys) \<and> c = (xs @ ys) ! e \<and>
    (getColor c = k \<or> (\<forall>d \<in> set (xs @ ys). getColor d \<noteq> k))"
  using assms
proof (induction ys arbitrary: xs cand j)
  case (Cons y ys)
  show ?case
  proof (cases "getColor cand \<noteq> k \<and> getColor y = k")
    case True
    with Cons.prems Cons.IH [of "length xs" "xs @ [y]" y] show ?thesis by (auto simp: nth_append)
  next
    case False
    with Cons.prems have loop: "cand_loop k (length (xs @ [y])) ys cand j = (c, e)" by auto
    have "getColor cand = k \<or> (\<forall>d \<in> set (xs @ [y]). getColor d \<noteq> k)"
      using Cons.prems(3) False by auto
    with Cons.IH [of j "xs @ [y]" cand, OF _ _ this loop] Cons.prems(1,2) show ?thesis by auto
  qed
qed auto

lemma mset_erase_at: "i < length h \<Longrightarrow> mset h = add_mset (h ! i) (mset (erase_at i h))"
  using id_take_nth_drop [of i h] by (metis erase_at_def mset_append mset.simps(2) union_mset_add_mset_right)

lemma strategy_nextMove_legal:
  assumes "hand \<noteq> []"
  shows "\<exists>c h. strategy_nextMove t hand = Inr (c, h) \<and> legal_move hand c t \<and> mset hand = add_mset c (mset h)"
proof (cases t)
  case Nil
  have "mset hand = add_mset (last hand) (mset (butlast hand))"
    using assms by (metis append_butlast_last_id mset_append union_mset_add_mset_right mset.simps add.right_neutral)
  with Nil assms show ?thesis by (auto simp: strategy_nextMove_def legal_move_def)
next
  case (Cons front rest)
  obtain c e where loop: "cand_loop (getColor front) 0 hand (hd hand) 0 = (c, e)" by fastforce
  from cand_loop_result [of 0 "[]" hand "hd hand" "getColor front" c e] loop assms
  have "e < length hand" "c = hand ! e" "getColor c = getColor front \<or> (\<forall>d \<in> set hand. getColor d \<noteq> getColor front)"
    by (auto simp: hd_conv_nth)
  with Cons loop assms mset_erase_at [of e hand] show ?thesis
    by (auto simp: strategy_nextMove_def legal_move_def getColor_def)
qed

end
