(* ===== verification/Player_Auto.thy ===== *)
theory Player_Auto
  imports Player Strategy
begin

text \<open>
  \<^verbatim>\<open>client/player_auto.cpp\<close>: the player that answers every request with the card of its
  \<open>strategy\<close> and logs all messages.
\<close>

section \<open>State\<close>

record player_auto = player +
  nextTrick :: int
  strategy :: strategy
  logDummy :: bool

definition PlayerAuto :: "side \<Rightarrow> player_auto" where
  "PlayerAuto side =
     \<lparr>inGameSide = side, lastCards = [], nextTrick = 0,
      strategy = Strategy [] (int_of_round TRICK_PENALTY), logDummy = False\<rparr>"

section \<open>Methods\<close>

type_synonym 'a auto_process = "(player_auto, 'a) process_scheme"

definition auto_scoreMsg :: "score_map \<Rightarrow> bool \<Rightarrow> ('a auto_process, unit) action" where
  "auto_scoreMsg scores isTotal = returnA ()"

definition auto_trickMsg ::
    "'a auto_process put_cb \<Rightarrow> int \<Rightarrow> table \<Rightarrow> ('a auto_process, unit) action" where
  "auto_trickMsg putCb trickNo table =
     bindA (readA (\<lambda>w. nextTrick (plr w))) (\<lambda>n.
     if trickNo < n then returnA ()
     else
       thenA (on_player (\<lambda>p. p\<lparr>nextTrick := trickNo + 1\<rparr>)) (
       bindA (readA (\<lambda>w. strategy (plr w))) (\<lambda>st.
       bindA (liftA (strategy_nextMove table st)) (\<lambda>(c, st').
       thenA (on_player (\<lambda>p. p\<lparr>strategy := st'\<rparr>)) (
       thenA (push_last c) (putCb c))))))"

definition auto_dealMsg :: "int \<Rightarrow> hand \<Rightarrow> side \<Rightarrow> ('a auto_process, unit) action" where
  "auto_dealMsg trickMode hand starting =
     on_player (\<lambda>p. p\<lparr>nextTrick := 1, strategy := strategy_reset hand trickMode (strategy p)\<rparr>)"

definition auto_wrongMsg :: "int \<Rightarrow> ('a auto_process, unit) action" where
  "auto_wrongMsg trickNo =
     thenA (on_player (\<lambda>p. p\<lparr>nextTrick := trickNo\<rparr>))
       (pop_last (\<lambda>d p. p\<lparr>strategy := strategy p @ [d]\<rparr>))"

definition auto_anyCmd :: "string \<Rightarrow> ('a auto_process, unit) action" where
  "auto_anyCmd msg = returnA ()"

definition auto_anyMsg :: "message \<Rightarrow> ('a auto_process, unit) action" where
  "auto_anyMsg m = modifyA (\<lambda>w. w\<lparr>cout := logger_log (localTime w) (logDummy (plr w)) m (cout w)\<rparr>)"

definition auto_takenMsg :: "side \<Rightarrow> table \<Rightarrow> int \<Rightarrow> bool \<Rightarrow> ('a auto_process, unit) action" where
  "auto_takenMsg side cards trickNo applied =
     thenA (on_player (\<lambda>p. p\<lparr>nextTrick := trickNo + 1\<rparr>))
       (if applied then on_player (\<lambda>p. p\<lparr>strategy := rmIntersection (strategy p) cards\<rparr>)
        else pop_last (\<lambda>d p. p))"

definition auto_busyMsg :: "side list \<Rightarrow> ('a auto_process, unit) action" where
  "auto_busyMsg taken = returnA ()"

definition auto_ops :: "'a auto_process put_cb \<Rightarrow> 'a auto_process player_ops" where
  "auto_ops putCb =
     \<lparr>trickMsg = auto_trickMsg putCb, takenMsg = auto_takenMsg, scoreMsg = auto_scoreMsg,
      dealMsg = auto_dealMsg, wrongMsg = auto_wrongMsg, busyMsg = auto_busyMsg,
      anyMsg = auto_anyMsg, anyCmd = auto_anyCmd\<rparr>"

section \<open>What the methods do\<close>

text \<open>The state in which the callback is called: the card has left the hand and waits in the queue.\<close>

definition auto_played_state :: "int \<Rightarrow> card \<Rightarrow> hand \<Rightarrow> player_auto \<Rightarrow> player_auto" where
  "auto_played_state n c h p = p\<lparr>nextTrick := n + 1, strategy := h, lastCards := lastCards p @ [c]\<rparr>"

lemma auto_trickMsg_again [simp]:
  "trickNo < nextTrick (plr w) \<Longrightarrow> auto_trickMsg putCb trickNo t w = (Inr (), w)"
  by (simp add: auto_trickMsg_def)

lemma auto_trickMsg_plays:
  assumes "\<not> trickNo < nextTrick (plr w)" and "strategy (plr w) \<noteq> []"
    and "\<forall>c \<in> set (strategy (plr w)). wf_card c"
  shows "\<exists>c h. legal_move (strategy (plr w)) c t \<and> mset (strategy (plr w)) = add_mset c (mset h) \<and>
    auto_trickMsg putCb trickNo t w = putCb c (w\<lparr>plr := auto_played_state trickNo c h (plr w)\<rparr>)"
proof -
  obtain c h where c: "strategy_nextMove t (strategy (plr w)) = Inr (c, h)"
    "legal_move (strategy (plr w)) c t" "mset (strategy (plr w)) = add_mset c (mset h)"
    using strategy_nextMove_legal [OF assms(2)] by blast
  have "wf_card c" using c(2) assms(3) by (auto simp: legal_move_def)
  with c(1) assms(1) have "auto_trickMsg putCb trickNo t w = putCb c (w\<lparr>plr := auto_played_state trickNo c h (plr w)\<rparr>)"
    by (simp add: auto_trickMsg_def auto_played_state_def)
  with c show ?thesis by blast
qed

end
