(* ===== verification/Player_Console.thy ===== *)
theory Player_Console
  imports Player Game_Rules
begin

text \<open>
  \<^verbatim>\<open>client/player_console.cpp\<close>: the player who is asked for his cards on the console, with all he
  is shown. The lemmas say what a command does on each of its branches.
\<close>

section \<open>State\<close>

record player_console = player +
  localHand :: hand
  takenTricks :: "(side \<times> table) list"

definition PlayerConsole :: "side \<Rightarrow> player_console" where
  "PlayerConsole side = \<lparr>inGameSide = side, lastCards = [], localHand = [], takenTricks = []\<rparr>"

section \<open>Messages of the server\<close>

type_synonym 'a console_process = "(player_console, 'a) process_scheme"

text \<open>\<^verbatim>\<open>printList(localHand)\<close>.\<close>

definition say_hand :: "('a console_process, unit) action" where
  "say_hand = bindA (readA (\<lambda>w. localHand (plr w))) (\<lambda>h. say (printList print_card h))"

definition console_trickMsg :: "int \<Rightarrow> table \<Rightarrow> ('a console_process, unit) action" where
  "console_trickMsg trickNo table =
     thenA (say (''Trick: '' @ to_string trickNo @ '' '')) (
     thenA (say (printList print_card table)) (
     thenA (say (nl @ ''Available: '')) (
     thenA say_hand (say nl))))"

definition console_takenMsg :: "side \<Rightarrow> table \<Rightarrow> int \<Rightarrow> bool \<Rightarrow> ('a console_process, unit) action" where
  "console_takenMsg side cards trickNo applied =
     thenA (say (''A trick '' @ to_string trickNo @ '' is taken by '' @ print_side side @ '', cards '')) (
     thenA (say (printList print_card cards)) (
     thenA (on_player (\<lambda>p. if side = inGameSide p then p\<lparr>takenTricks := takenTricks p @ [(side, cards)]\<rparr> else p)) (
     thenA (if applied then on_player (\<lambda>p. p\<lparr>localHand := rmIntersection (localHand p) cards\<rparr>)
            else pop_last (\<lambda>d p. p))
       (say (''.'' @ nl)))))"

text \<open>\<^verbatim>\<open>scores.at(s)\<close> throws for a side that is missing, after its name has been written.\<close>

definition say_score :: "score_map \<Rightarrow> side \<Rightarrow> ('a console_process, unit) action" where
  "say_score scores s =
     thenA (say (print_side s @ '' | '')) (
     bindA (liftA (map_at scores s)) (\<lambda>v.
     say (to_string v @ nl)))"

definition console_scoreMsg :: "score_map \<Rightarrow> bool \<Rightarrow> ('a console_process, unit) action" where
  "console_scoreMsg scores isTotal =
     thenA (say (if \<not> isTotal then ''The scores are:'' @ nl else ''The total scores are:'' @ nl)) (
     thenA (foldA (say_score scores) sides)
       (on_player (\<lambda>p. p\<lparr>takenTricks := []\<rparr>)))"

definition console_dealMsg :: "int \<Rightarrow> hand \<Rightarrow> side \<Rightarrow> ('a console_process, unit) action" where
  "console_dealMsg trickMode hand starting =
     thenA (say (''New deal '' @ to_string trickMode @ '' staring place '' @ print_side starting
                 @ '', your cards: '')) (
     thenA (say (printList print_card hand)) (
     thenA (say (''.'' @ nl))
       (on_player (\<lambda>p. p\<lparr>localHand := hand\<rparr>))))"

definition console_wrongMsg :: "int \<Rightarrow> ('a console_process, unit) action" where
  "console_wrongMsg trickNo =
     thenA (say (''Wrong message received in trick '' @ to_string trickNo @ ''.'' @ nl))
       (pop_last (\<lambda>d p. p\<lparr>localHand := localHand p @ [d]\<rparr>))"

definition console_anyMsg :: "message \<Rightarrow> ('a console_process, unit) action" where
  "console_anyMsg m = returnA ()"

definition console_busyMsg :: "side list \<Rightarrow> ('a console_process, unit) action" where
  "console_busyMsg taken =
     thenA (say ''Place busy, list of busy places received: '') (
     thenA (say (printList print_side taken))
       (say (''.'' @ nl)))"

section \<open>Commands\<close>

text \<open>The loop that sets \<^verbatim>\<open>found\<close>.\<close>

definition in_hand :: "hand \<Rightarrow> card \<Rightarrow> bool" where
  "in_hand h c = fold (\<lambda>x found. if getColor x = getColor c \<and> getValue x = getValue c then True else found) h False"

text \<open>The body of the \<^verbatim>\<open>try\<close> block.\<close>

definition select_card ::
    "'a console_process put_cb \<Rightarrow> 'a console_process check_cb \<Rightarrow> string \<Rightarrow> ('a console_process, unit) action" where
  "select_card putCb checkCardCb msg =
     bindA (liftA (bindE (substr_from msg 1) fromString)) (\<lambda>c.
     bindA checkCardCb (\<lambda>needed.
     if \<not> needed
     then say (''No card request from server. Card select action is discarded'' @ nl)
     else bindA (readA (\<lambda>w. localHand (plr w))) (\<lambda>h.
       if \<not> in_hand h c
       then thenA (say (''Card '' @ toString c @ '' is not in your hand.'' @ nl @ ''Available cards: '')) (
            thenA say_hand (say (''.'' @ nl)))
       else thenA (on_player (\<lambda>p. p\<lparr>localHand := rmCardIfPresent (localHand p) c\<rparr>)) (
            thenA (push_last c) (putCb c)))))"

definition say_trick :: "side \<times> table \<Rightarrow> ('a console_process, unit) action" where
  "say_trick trick = thenA (say (printList print_card (snd trick))) (say nl)"

definition console_anyCmd ::
    "'a console_process put_cb \<Rightarrow> 'a console_process check_cb \<Rightarrow> string \<Rightarrow> ('a console_process, unit) action" where
  "console_anyCmd putCb checkCardCb msg =
     bindA (liftA (str_at msg 0)) (\<lambda>c0.
     if c0 = CHR ''!'' then
       catchA catchable (select_card putCb checkCardCb msg) (\<lambda>e.
         bindA (liftA (substr_from msg 1)) (\<lambda>t. say (t @ '' is not a valid card!'' @ nl)))
     else if msg = ''cards'' then thenA say_hand (say nl)
     else if msg = ''tricks'' then
       bindA (readA (\<lambda>w. takenTricks (plr w))) (\<lambda>tricks. foldA say_trick tricks)
     else say (''Unknown command: '' @ msg @ nl))"

definition console_ops ::
    "'a console_process put_cb \<Rightarrow> 'a console_process check_cb \<Rightarrow> 'a console_process player_ops" where
  "console_ops putCb checkCardCb =
     \<lparr>trickMsg = console_trickMsg, takenMsg = console_takenMsg, scoreMsg = console_scoreMsg,
      dealMsg = console_dealMsg, wrongMsg = console_wrongMsg, busyMsg = console_busyMsg,
      anyMsg = console_anyMsg, anyCmd = console_anyCmd putCb checkCardCb\<rparr>"

section \<open>What a command does\<close>

lemma in_hand_has: "in_hand h c \<longleftrightarrow> has_card h c"
proof -
  have "fold (\<lambda>x found. if getColor x = getColor c \<and> getValue x = getValue c then True else found) h b \<longleftrightarrow>
      b \<or> has_card h c" for b
    by (induction h arbitrary: b) auto
  then show ?thesis by (simp add: in_hand_def)
qed

text \<open>A card typed on the console, on the branch where the client waits and the card is held.\<close>

lemma select_card_plays:
  assumes "wf_card c" and "checkCardCb w = (Inr True, w)" and "has_card (localHand (plr w)) c"
  shows "select_card putCb checkCardCb (CHR ''!'' # toString c) w =
    putCb c (w\<lparr>plr := (plr w)\<lparr>localHand := rmCardIfPresent (localHand (plr w)) c,
                              lastCards := lastCards (plr w) @ [c]\<rparr>\<rparr>)"
  using assms by (simp add: select_card_def substr_from_def substr_def fromString_toString in_hand_has)

lemma select_card_discarded:
  assumes "wf_card c" and "checkCardCb w = (Inr False, w)"
  shows "select_card putCb checkCardCb (CHR ''!'' # toString c) w =
    say (''No card request from server. Card select action is discarded'' @ nl) w"
  using assms by (simp add: select_card_def substr_from_def substr_def fromString_toString)

lemma console_bang:
  "console_anyCmd putCb checkCardCb (CHR ''!'' # t) =
   catchA catchable (select_card putCb checkCardCb (CHR ''!'' # t)) (\<lambda>e. say (t @ '' is not a valid card!'' @ nl))"
  by (rule ext) (simp add: console_anyCmd_def str_at_def substr_from_def substr_def bindA_def liftA_def del: process_actions)

lemma console_not_a_card:
  assumes "fromString t = Inl Out_of_range"
  shows "console_anyCmd putCb checkCardCb (CHR ''!'' # t) w = say (t @ '' is not a valid card!'' @ nl) w"
  using assms
  by (simp add: console_bang select_card_def catchA_def catchable_def substr_from_def substr_def bindA_def liftA_def)

text \<open>An empty line: \<^verbatim>\<open>msg.at(0)\<close> is outside the \<^verbatim>\<open>try\<close> block.\<close>

lemma console_empty: "console_anyCmd putCb checkCardCb '''' w = (Inl Out_of_range, w)"
  by (simp add: console_anyCmd_def str_at_def bindA_def liftA_def)

end
