(* ===== verification/Client_Players.thy ===== *)
theory Client_Players
  imports Client_Correct Player_Auto Player_Console
begin

text \<open>
  The client with each of its two players, tied together as \<^verbatim>\<open>main\<close> ties them by \<^verbatim>\<open>setup\<close>: the
  callbacks are \<^verbatim>\<open>chooseCard\<close> and \<^verbatim>\<open>isWaitingForCard\<close> of the client. Both players keep the
  contract of \<open>client_player\<close>; the properties say what the client does with what it reads.
\<close>

section \<open>The two programs\<close>

definition auto_client :: "player_auto c_ops" where
  "auto_client = auto_ops (chooseCard auto_anyMsg)"

definition console_client :: "player_console c_ops" where
  "console_client = console_ops (chooseCard console_anyMsg) isWaitingForCard"

lemma auto_client_simps [simp]:
  "trickMsg auto_client = auto_trickMsg (chooseCard auto_anyMsg)" "takenMsg auto_client = auto_takenMsg"
  "scoreMsg auto_client = auto_scoreMsg" "dealMsg auto_client = auto_dealMsg"
  "wrongMsg auto_client = auto_wrongMsg" "busyMsg auto_client = auto_busyMsg"
  "anyMsg auto_client = auto_anyMsg" "anyCmd auto_client = auto_anyCmd"
  by (simp_all add: auto_client_def auto_ops_def)

lemma console_client_simps [simp]:
  "trickMsg console_client = console_trickMsg" "takenMsg console_client = console_takenMsg"
  "scoreMsg console_client = console_scoreMsg" "dealMsg console_client = console_dealMsg"
  "wrongMsg console_client = console_wrongMsg" "busyMsg console_client = console_busyMsg"
  "anyMsg console_client = console_anyMsg"
  "anyCmd console_client = console_anyCmd (chooseCard console_anyMsg) isWaitingForCard"
  by (simp_all add: console_client_def console_ops_def)

section \<open>Both players keep the contract\<close>

lemma auto_any_frame [keeping]: "frame (auto_anyMsg m)"
  unfolding auto_anyMsg_def by (auto intro!: keeping simp: locals_eq)

lemma auto_trick_frame: "frame (auto_trickMsg (chooseCard auto_anyMsg) n t)"
  unfolding auto_trickMsg_def by (auto intro!: keeping split: prod.split)

lemma console_any_frame [keeping]: "frame (console_anyMsg m)"
  unfolding console_anyMsg_def by (intro keeping)

lemma say_hand_frame [keeping]: "frame say_hand"
  unfolding say_hand_def by (intro keeping)

lemma waiting_frame [keeping]: "frame isWaitingForCard"
  unfolding isWaitingForCard_def by (intro keeping)

lemma console_cmd_frame: "frame (console_anyCmd (chooseCard console_anyMsg) isWaitingForCard c)"
  unfolding console_anyCmd_def select_card_def say_trick_def by (intro keeping)

interpretation auto_player: client_player auto_client
  by unfold_locales
    (simp_all only: auto_client_simps auto_trick_frame auto_any_frame,
     auto intro!: keeping simp: auto_takenMsg_def auto_scoreMsg_def auto_dealMsg_def auto_wrongMsg_def
       auto_busyMsg_def auto_anyCmd_def simp del: action_simps)

interpretation console_player: client_player console_client
  by unfold_locales
    (simp_all only: console_client_simps console_cmd_frame console_any_frame,
     auto intro!: keeping simp: console_trickMsg_def console_takenMsg_def console_scoreMsg_def say_score_def
       console_dealMsg_def console_wrongMsg_def console_busyMsg_def simp del: action_simps)

section \<open>Reading\<close>

text \<open>C31: However the network cuts a stream of messages of the server into reads, the client handles it as
  the messages one after the other: each is logged and then handed to the player by the one method that is
  for it, with the data the server put into the message. This holds with either player.\<close>

theorem client_reads_stream:
  assumes "\<forall>j \<in> set js. server_job ord j \<and> \<not> is_busy j"
    and "concat css = concat (map (genMsg ord) js)"
  shows "(nextMsg w = '''' \<and> \<not> cTerminate w \<longrightarrow>
      client_loop auto_client (map tcp_chunk css) w = foldA (message_step auto_client ord) js w) \<and>
    (nextMsg v = '''' \<and> \<not> cTerminate v \<longrightarrow>
      client_loop console_client (map tcp_chunk css) v = foldA (message_step console_client ord) js v)"
  using auto_player.stream_in_chunks [OF assms(1) _ _ assms(2)]
    console_player.stream_in_chunks [OF assms(1) _ _ assms(2)] by blast

text \<open>A client that has just been made, in an environment that takes every byte.\<close>

definition calm :: outside where
  "calm = \<lparr>oLocalTime = (\<lambda>t. ''1970-01-01 00:00:00''), oClock = (\<lambda>k. 0), oKernel = (\<lambda>k. full_send)\<rparr>"

definition new_client :: "'p \<Rightarrow> side \<Rightarrow> 'p client" where
  "new_client p s =
     (case Client calm p (1234, ''localhost'') s AF_UNSPEC '''' '''' of Inl e \<Rightarrow> undefined | Inr w \<Rightarrow> w)"

lemma new_client_simps [simp]:
  "nextMsg (new_client p s) = ''''" "nextCmd (new_client p s) = ''''" "\<not> cTerminate (new_client p s)"
  "stage (new_client p s) = PRE" "plr (new_client p s) = p" "sentMsgs (new_client p s) = []"
  "cTrickNo (new_client p s) = 1" "\<not> waitingForCard (new_client p s)" "cout (new_client p s) = ''''"
  "sendKernel (new_client p s) = (\<lambda>k. full_send)" "cSide (new_client p s) = s"
  "cProto (new_client p s) = AF_UNSPEC" "\<not> openSock (new_client p s)"
  by (simp_all add: new_client_def Client_def Card_mk_card faces_def calm_def)

theorem client_reads_stream_witness:
  "client_loop console_client (map tcp_chunk [''WRO'', ''NG3'' @ [CHR 0x0D], [CHR 0x0A]]) (new_client (PlayerConsole N) N) =
   foldA (message_step console_client []) [SendJobWrong 3] (new_client (PlayerConsole N) N)"
  using client_reads_stream [of "[SendJobWrong 3]" "[]" "[''WRO'', ''NG3'' @ [CHR 0x0D], [CHR 0x0A]]"]
  by (simp add: server_job_def TRICKS_PER_ROUND_def crlf_def to_string_def nat_digits.simps)

text \<open>C34: A line that is no message of the server makes the client read the first field of an empty
  vector, which is undefined: one malformed line from the peer is enough.\<close>

theorem client_bad_line:
  assumes "\<nexists>p. parts_ok p \<and> \<not> parts_server p \<and> m = parts_text p"
  shows "fst (handle_line auto_client m w) = Inl Undefined \<and> fst (handle_line console_client m v) = Inl Undefined"
proof -
  have "parseNetMsg m False = Inr []" using parse_total [of False m] assms by auto
  note line = handle_line_parsed [OF this]
  show ?thesis
    unfolding line by (simp add: log_line_def new_message_def auto_anyMsg_def console_anyMsg_def thenA_def bindA_def)
qed

theorem client_bad_line_witness:
  "fst (handle_line auto_client '''' (new_client (PlayerAuto N) N)) = Inl Undefined"
proof -
  have "parts_text p \<noteq> ''''" for p by (cases p) simp_all
  then have "\<nexists>p. parts_ok p \<and> \<not> parts_server p \<and> '''' = parts_text p" by metis
  from client_bad_line [OF this] show ?thesis by (rule conjunct1)
qed

section \<open>The standard input\<close>

text \<open>C35: While the standard input is ready the socket is not looked at. At the end of a file or of
  \<^verbatim>\<open>/dev/null\<close> it is ready for ever, with nothing to read: then no message of the server is read, whatever
  arrives.\<close>

theorem stdin_starves_socket:
  assumes "\<forall>i \<in> set is. \<not> pollFails i \<and> \<not> inErr i \<and> inReady i \<and> inBytes i = '''' \<and> inEnd i = Read_eof"
  shows "client_loop auto_client is w = (Inr (), w)"
  using assms
proof (induction "is")
  case (Cons i "is")
  have i: "\<not> pollFails i" "\<not> inErr i" "inReady i" "inBytes i = []" "inEnd i = Read_eof"
    using Cons.prems by simp_all
  have "client_step auto_client i = returnA ()"
    by (simp only: client_step_def stdin_turn_def i if_True if_False read_stdin.simps thenA_return read_end.case)
  moreover have "client_loop auto_client is w = (Inr (), w)"
    by (rule Cons.IH) (meson Cons.prems list.set_intros(2))
  ultimately show ?case by (cases "cTerminate w") simp_all
qed simp

definition at_eof :: client_turn where
  "at_eof =
     \<lparr>pollFails = False, inErr = False, inReady = True, tcpErr = False, tcpReady = True,
      inBytes = '''', inEnd = Read_eof, tcpBytes = ''TRICK1'' @ crlf, tcpEnd = Read_eof\<rparr>"

theorem stdin_starves_socket_witness:
  "client_loop auto_client [at_eof, at_eof] (new_client (PlayerAuto N) N) = (Inr (), new_client (PlayerAuto N) N)"
  by (rule stdin_starves_socket) (unfold at_eof_def, simp)

section \<open>Cards typed on the console\<close>

text \<open>A kernel that takes all it is given.\<close>

definition eager :: "'p client \<Rightarrow> bool" where
  "eager w \<longleftrightarrow> (\<forall>k m. sendNoBlockN (sendKernel w k) m = (int (length m), m))"

lemma send_eager:
  assumes "eager w"
  shows "sendMessage any j w =
    bindA (new_message (cOwnAddr w) (cServerAddr w) (msg_body [] j)) any (w\<lparr>sentMsgs := sentMsgs w @ [genMsg [] j]\<rparr>)"
  using assms by (simp add: sendMessage_def eager_def strip_genMsg Let_def)

lemma send_refused:
  assumes "sendNoBlockN (sendKernel w (length (sentMsgs w))) (genMsg [] j) = (r, taken)" and "r < int (length (genMsg [] j))"
  shows "sendMessage any j w = (Inl (Runtime_error ''send''), w\<lparr>sentMsgs := sentMsgs w @ [taken]\<rparr>)"
  using assms by (simp add: sendMessage_def Let_def)

lemma eager_new [simp]: "eager (new_client p s)"
  by (simp add: eager_def full_send_all)

text \<open>A line typed by the user.\<close>

definition typed :: "string \<Rightarrow> client_turn" where
  "typed t =
     \<lparr>pollFails = False, inErr = False, inReady = True, tcpErr = False, tcpReady = False,
      inBytes = t @ [CHR 0x0A], inEnd = Read_error EAGAIN, tcpBytes = '''', tcpEnd = Read_error EAGAIN\<rparr>"

lemma read_stdin_line:
  "one_line t \<Longrightarrow> read_stdin ops (t @ [CHR 0x0A]) w =
    thenA (anyCmd ops (nextCmd w @ t)) (modifyA (\<lambda>w. w\<lparr>nextCmd := ''''\<rparr>)) (w\<lparr>nextCmd := nextCmd w @ t\<rparr>)"
  by (induction t arbitrary: w) (auto simp: one_line_simps thenA_def)

lemma typed_line:
  assumes "one_line t" and "\<not> cTerminate w" and "nextCmd w = ''''"
  shows "client_loop ops [typed t] w =
    thenA (anyCmd ops t) (modifyA (\<lambda>w. w\<lparr>nextCmd := ''''\<rparr>)) (w\<lparr>nextCmd := t\<rparr>)"
proof -
  have "client_step ops (typed t) = thenA (read_stdin ops (t @ [CHR 0x0A])) (returnA ())"
    by (simp add: client_step_def stdin_turn_def typed_def again_def)
  with read_stdin_line [OF assms(1), of ops w] assms(2,3) show ?thesis by (simp add: thenA_def bindA_assoc)
qed

lemma choose_eager:
  assumes "wf_card c" and "eager w" and "waitingForCard w" and "cTrickNo w = int n" and "n \<le> TRICKS_PER_ROUND"
  shows "chooseCard any c w =
    thenA (bindA (new_message (cOwnAddr w) (cServerAddr w) (msg_body [] (SendJobTrick [c] n))) any)
      (modifyA (\<lambda>w. w\<lparr>waitingForCard := False\<rparr>))
      (w\<lparr>selectedCard := c, sentMsgs := sentMsgs w @ [genMsg [] (SendJobTrick [c] n)]\<rparr>)"
proof -
  have "eager (w\<lparr>selectedCard := c\<rparr>)" using assms(2) by (simp add: eager_def)
  from send_eager [OF this, of any "SendJobTrick [c] n"] assms show ?thesis
    by (simp add: chooseCard_def Card_copy size_t_small thenA_def bindA_def del: genMsg.simps msg_body.simps)
qed

text \<open>C33: A card typed while the client waits for one and that is in the hand is sent as the card of the trick
  asked for, leaves the hand, and is kept as the card last played; the request is then answered.\<close>

theorem console_plays:
  assumes "game_card c" and "has_card (localHand (plr w)) c" and "waitingForCard w" and "eager w"
    and "cTrickNo w = int n" and "n \<le> TRICKS_PER_ROUND" and "\<not> cTerminate w" and "nextCmd w = ''''"
  shows "\<exists>w'. client_loop console_client [typed (CHR ''!'' # toString c)] w = (Inr (), w') \<and>
    sentMsgs w' = sentMsgs w @ [genMsg [] (SendJobTrick [c] n)] \<and>
    plr w' = (plr w)\<lparr>localHand := rmCardIfPresent (localHand (plr w)) c, lastCards := lastCards (plr w) @ [c]\<rparr> \<and>
    \<not> waitingForCard w' \<and> cout w' = cout w \<and> nextCmd w' = ''''"
proof -
  let ?t = "CHR ''!'' # toString c"
  let ?w = "w\<lparr>nextCmd := ?t,
    plr := (plr w)\<lparr>localHand := rmCardIfPresent (localHand (plr w)) c, lastCards := lastCards (plr w) @ [c]\<rparr>\<rparr>"
  have c: "wf_card c" "one_line ?t" using assms(1) one_line_card [of c] by (simp_all add: game_card_wf one_line_Cons)
  have sel: "select_card (chooseCard console_anyMsg) isWaitingForCard ?t (w\<lparr>nextCmd := ?t\<rparr>) =
      chooseCard console_anyMsg c ?w"
    by (subst select_card_plays) (use c assms(2,3) in \<open>simp_all add: isWaitingForCard_def\<close>)
  have "chooseCard console_anyMsg c ?w =
      thenA (bindA (new_message (cOwnAddr ?w) (cServerAddr ?w) (msg_body [] (SendJobTrick [c] n))) console_anyMsg)
        (modifyA (\<lambda>w. w\<lparr>waitingForCard := False\<rparr>))
        (?w\<lparr>selectedCard := c, sentMsgs := sentMsgs ?w @ [genMsg [] (SendJobTrick [c] n)]\<rparr>)"
    by (rule choose_eager) (use assms c in \<open>simp_all add: eager_def\<close>)
  with sel typed_line [OF c(2) assms(7,8), of console_client] show ?thesis
    by (simp add: console_bang catchA_def new_message_def console_anyMsg_def thenA_def bindA_def
        del: genMsg.simps msg_body.simps)
qed

text \<open>A card typed while no card is awaited, or that is not in the hand, is not sent: nothing changes but
  what the user is shown.\<close>

theorem console_refuses:
  assumes "game_card c" and "\<not> waitingForCard w \<or> \<not> has_card (localHand (plr w)) c"
    and "\<not> cTerminate w" and "nextCmd w = ''''"
  shows "\<exists>shown. client_loop console_client [typed (CHR ''!'' # toString c)] w = (Inr (), w\<lparr>cout := cout w @ shown\<rparr>)"
proof -
  let ?t = "CHR ''!'' # toString c"
  let ?w = "w\<lparr>nextCmd := ?t\<rparr>"
  have c: "wf_card c" "one_line ?t" using assms(1) one_line_card [of c] by (simp_all add: game_card_wf one_line_Cons)
  have reset: "?w\<lparr>cout := x, nextCmd := ''''\<rparr> = w\<lparr>cout := x\<rparr>" for x using assms(4) by (cases w) simp
  have "\<exists>shown. select_card (chooseCard console_anyMsg) isWaitingForCard ?t ?w = (Inr (), ?w\<lparr>cout := cout w @ shown\<rparr>)"
  proof (cases "waitingForCard w")
    case False
    then have "isWaitingForCard ?w = (Inr False, ?w)" by (simp add: isWaitingForCard_def)
    from select_card_discarded [of c isWaitingForCard ?w "chooseCard console_anyMsg", OF c(1) this] show ?thesis
      by (simp only: process_actions) auto
  next
    case True
    with assms(2) c have "select_card (chooseCard console_anyMsg) isWaitingForCard ?t ?w = (Inr (), ?w\<lparr>cout := cout w @
        ((''Card '' @ toString c @ '' is not in your hand.'' @ nl @ ''Available cards: '') @
         printList print_card (localHand (plr w)) @ ''.'' @ nl)\<rparr>)"
      by (simp add: select_card_def isWaitingForCard_def substr_from_def substr_def fromString_toString in_hand_has
          say_hand_def bindA_def thenA_def)
    then show ?thesis by blast
  qed
  then obtain shown where "select_card (chooseCard console_anyMsg) isWaitingForCard ?t ?w = (Inr (), ?w\<lparr>cout := cout w @ shown\<rparr>)" ..
  with typed_line [OF c(2) assms(3,4), of console_client] reset show ?thesis
    by (simp add: console_bang catchA_def thenA_def) blast
qed

text \<open>A player asked for a card of the third trick, holding one card.\<close>

definition asked_client :: "player_console client" where
  "asked_client = (new_client ((PlayerConsole N)\<lparr>localHand := [mk_card ''10'' COLOR_C]\<rparr>) N)
     \<lparr>waitingForCard := True, cTrickNo := int 3\<rparr>"

lemma asked_client_simps [simp]:
  "localHand (plr asked_client) = [mk_card ''10'' COLOR_C]" "waitingForCard asked_client" "eager asked_client"
  "cTrickNo asked_client = int 3" "\<not> cTerminate asked_client" "nextCmd asked_client = ''''"
  "sentMsgs asked_client = []" "cout asked_client = ''''" "lastCards (plr asked_client) = []"
  using eager_new by (simp_all add: asked_client_def eager_def PlayerConsole_def)

theorem console_plays_witness:
  "\<exists>w'. client_loop console_client [typed (CHR ''!'' # toString (mk_card ''10'' COLOR_C))] asked_client = (Inr (), w') \<and>
    sentMsgs w' = [genMsg [] (SendJobTrick [mk_card ''10'' COLOR_C] 3)]"
  using console_plays [of "mk_card ''10'' COLOR_C" asked_client 3]
  by (auto simp: faces_def suits_def TRICKS_PER_ROUND_def simp del: genMsg.simps)

theorem console_refuses_witness:
  "\<exists>shown. client_loop console_client [typed (CHR ''!'' # toString (mk_card ''9'' COLOR_C))] asked_client =
    (Inr (), asked_client\<lparr>cout := shown\<rparr>)"
  using console_refuses [of "mk_card ''9'' COLOR_C" asked_client] by (simp add: faces_def suits_def getValue_def)

text \<open>An empty line on the console throws \<open>out_of_range\<close> out of \<^verbatim>\<open>run\<close>: the first character is read
  outside the \<open>try\<close> block. The state is the one before the line.\<close>

theorem console_empty_line:
  assumes "\<not> cTerminate w" and "nextCmd w = ''''"
  shows "client_loop console_client [typed ''''] w = (Inl Out_of_range, w)"
proof -
  have "w\<lparr>nextCmd := ''''\<rparr> = w" using assms(2) by (cases w) simp
  with typed_line [OF one_line_Nil assms, of console_client] show ?thesis by (simp add: console_empty)
qed

theorem console_empty_line_witness:
  "client_loop console_client [typed ''''] asked_client = (Inl Out_of_range, asked_client)"
  by (rule console_empty_line) simp_all

text \<open>C36: If the kernel does not take the whole message of a card, \<open>sendMessage\<close> throws, but the player's
  command catches that as well: the user is told that the card is not valid, the client goes on, and the
  card is gone from the hand although it was not played.\<close>

theorem console_send_lost:
  assumes "game_card c" and "has_card (localHand (plr w)) c" and "waitingForCard w"
    and "cTrickNo w = int n" and "n \<le> TRICKS_PER_ROUND" and "\<not> cTerminate w" and "nextCmd w = ''''"
    and "sendNoBlockN (sendKernel w (length (sentMsgs w))) (genMsg [] (SendJobTrick [c] n)) = (r, taken)"
    and "r < int (length (genMsg [] (SendJobTrick [c] n)))"
  shows "\<exists>w'. client_loop console_client [typed (CHR ''!'' # toString c)] w = (Inr (), w') \<and>
    cout w' = cout w @ toString c @ '' is not a valid card!'' @ nl \<and> sentMsgs w' = sentMsgs w @ [taken] \<and>
    localHand (plr w') = rmCardIfPresent (localHand (plr w)) c \<and> waitingForCard w'"
proof -
  let ?t = "CHR ''!'' # toString c"
  let ?w = "w\<lparr>nextCmd := ?t,
    plr := (plr w)\<lparr>localHand := rmCardIfPresent (localHand (plr w)) c, lastCards := lastCards (plr w) @ [c]\<rparr>\<rparr>"
  have c: "wf_card c" "one_line ?t" using assms(1) one_line_card [of c] by (simp_all add: game_card_wf one_line_Cons)
  have sel: "select_card (chooseCard console_anyMsg) isWaitingForCard ?t (w\<lparr>nextCmd := ?t\<rparr>) =
      chooseCard console_anyMsg c ?w"
    by (subst select_card_plays) (use c assms(2,3) in \<open>simp_all add: isWaitingForCard_def\<close>)
  have "sendMessage console_anyMsg (SendJobTrick [c] n) (?w\<lparr>selectedCard := c\<rparr>) =
      (Inl (Runtime_error ''send''), ?w\<lparr>selectedCard := c, sentMsgs := sentMsgs w @ [taken]\<rparr>)"
    by (subst send_refused) (use assms(8,9) in \<open>simp_all del: genMsg.simps\<close>)
  then have "chooseCard console_anyMsg c ?w =
      (Inl (Runtime_error ''send''), ?w\<lparr>selectedCard := c, sentMsgs := sentMsgs w @ [taken]\<rparr>)"
    using assms(3,4,5) c by (simp add: chooseCard_def Card_copy size_t_small thenA_def bindA_def)
  with sel typed_line [OF c(2) assms(6,7), of console_client] assms(3) show ?thesis
    by (simp add: console_bang catchA_def catchable_def runtime_error_def)
qed

text \<open>A client whose connection takes nothing.\<close>

definition jammed :: send_fun where
  "jammed k n = (- 1, Some (E_other 104))"

theorem console_send_lost_witness:
  "\<exists>w'. client_loop console_client [typed (CHR ''!'' # toString (mk_card ''10'' COLOR_C))]
      (asked_client\<lparr>sendKernel := (\<lambda>k. jammed)\<rparr>) = (Inr (), w') \<and> localHand (plr w') = [] \<and> waitingForCard w'"
proof -
  let ?w = "asked_client\<lparr>sendKernel := (\<lambda>k. jammed)\<rparr>"
  have "sendNoBlockN (sendKernel ?w (length (sentMsgs ?w))) m = (- 1, '''')" if "m \<noteq> ''''" for m
    using that by (simp add: sendNoBlockN_def send_loop.simps [of jammed m 0] jammed_def would_block_def)
  then have "sendNoBlockN (sendKernel ?w (length (sentMsgs ?w))) (genMsg [] (SendJobTrick [mk_card ''10'' COLOR_C] 3)) = (- 1, '''')"
    by simp
  from console_send_lost [OF _ _ _ _ _ _ _ this] show ?thesis
    by (auto simp: faces_def suits_def TRICKS_PER_ROUND_def getValue_def getColor_def)
qed

text \<open>After a WRONG the console player takes back the oldest of the cards he has played and that no
  trick has confirmed. If an earlier card is still open, that is not the card the server refused.\<close>

theorem console_wrong_oldest:
  assumes "lastCards (plr w) = d # ds"
  shows "\<exists>w'. job_step console_client (SendJobWrong n) w = (Inr (), w') \<and>
    localHand (plr w') = localHand (plr w) @ [d] \<and> lastCards (plr w') = ds \<and> waitingForCard w' \<and> cTrickNo w' = int n"
  using assms by (simp add: console_wrongMsg_def)

theorem console_wrong_oldest_witness:
  "\<exists>w'. job_step console_client (SendJobWrong 3)
      (asked_client\<lparr>plr := (plr asked_client)\<lparr>lastCards := [mk_card ''2'' COLOR_C, mk_card ''3'' COLOR_C]\<rparr>\<rparr>) = (Inr (), w') \<and>
    localHand (plr w') = [mk_card ''10'' COLOR_C, mk_card ''2'' COLOR_C] \<and> lastCards (plr w') = [mk_card ''3'' COLOR_C]"
  using console_wrong_oldest [of "asked_client\<lparr>plr := (plr asked_client)
      \<lparr>lastCards := [mk_card ''2'' COLOR_C, mk_card ''3'' COLOR_C]\<rparr>\<rparr>" "mk_card ''2'' COLOR_C" "[mk_card ''3'' COLOR_C]" 3]
  by auto

end
