(* ===== verification/Game_Deal.thy ===== *)
theory Game_Deal
  imports Server_Exec
begin

text \<open>
  Whose card is whose: in a round every card is in the hand it was dealt to, on the table where its
  side has played it, or in a trick. Further invariants of the specified game, which a player who
  knows his own deal only relies on.
\<close>

section \<open>Seats\<close>

lemma nxt_inj: "real_side a \<Longrightarrow> real_side b \<Longrightarrow> nxt a = nxt b \<Longrightarrow> a = b"
  by (cases a; cases b) simp_all

lemma seat_inj: "real_side a \<Longrightarrow> real_side b \<Longrightarrow> seat n a = seat n b \<Longrightarrow> a = b"
  by (induction n) (auto simp: seat_Suc dest: nxt_inj [rotated 2])

section \<open>Hands and tables\<close>

definition shrunk :: "game \<Rightarrow> bool" where
  "shrunk g \<longleftrightarrow> (\<forall>t. real_side t \<longrightarrow> set (gHands g t) \<subseteq> set (deal_of g t))"

definition table_owned :: "game \<Rightarrow> bool" where
  "table_owned g \<longleftrightarrow> (\<forall>leader. real_side leader \<and> gTurn g = seat (length (gTable g)) leader \<longrightarrow>
     (\<forall>i < length (gTable g). gTable g ! i \<in> set (deal_of g (seat i leader))))"

definition deal_kept :: "game \<Rightarrow> bool" where
  "deal_kept g \<longleftrightarrow> shrunk g \<and> table_owned g"

lemma deal_kept_put:
  assumes "deal_kept g" and "real_side (gTurn g)" and "c \<in> set (gHands g (gTurn g))"
  shows "deal_kept (put_card c g)"
proof -
  have sub: "set (remove1 c (gHands g (gTurn g))) \<subseteq> set (gHands g (gTurn g))" by (rule set_remove1_subset)
  have c: "c \<in> set (deal_of g (gTurn g))" using assms by (auto simp: deal_kept_def shrunk_def)
  have "shrunk (put_card c g)" using assms(1) sub by (auto simp: deal_kept_def shrunk_def)
  moreover have "table_owned (put_card c g)"
    unfolding table_owned_def
  proof (intro allI impI, elim conjE)
    fix leader i
    assume l: "real_side leader" "gTurn (put_card c g) = seat (length (gTable (put_card c g))) leader"
      and i: "i < length (gTable (put_card c g))"
    then have turn: "gTurn g = seat (length (gTable g)) leader"
      using assms(2) by (auto simp: seat_Suc intro: nxt_inj)
    then show "gTable (put_card c g) ! i \<in> set (deal_of (put_card c g) (seat i leader))"
      using assms(1) l(1) c i by (auto simp: deal_kept_def table_owned_def nth_append less_Suc_eq)
  qed
  ultimately show ?thesis by (simp add: deal_kept_def)
qed

lemma deal_kept_next: "deal_kept g \<Longrightarrow> deal_kept (next_trick g)"
  by (simp add: deal_kept_def shrunk_def table_owned_def)

lemma deal_kept_deal: "deal_kept (deal_round g)"
  by (cases "gScenario g ! gRound g") (simp add: deal_kept_def shrunk_def table_owned_def deal_round_def deal_of_def)

lemma deal_kept_over: "game_over g \<Longrightarrow> deal_kept g"
  by (simp add: deal_kept_def shrunk_def table_owned_def game_over_def)

definition points_ok :: "game \<Rightarrow> bool" where
  "points_ok g \<longleftrightarrow> (\<forall>t. 0 \<le> gRoundPts g t) \<and> (\<forall>t. 0 \<le> gTotal g t)"

lemma won_points_nonneg: "0 \<le> won_points r n ws t"
  by (induction ws arbitrary: n) (auto simp: penalty_nonneg)

lemma points_ok_next: "points_ok g \<Longrightarrow> points_ok (next_trick g)"
  by (auto simp: points_ok_def next_trick_def take_trick_def Let_def penalty_nonneg)

lemma points_ok_close: "points_ok g \<Longrightarrow> points_ok (close_round g)"
  by (simp add: points_ok_def)

lemma points_ok_deal: "points_ok (deal_round g) = points_ok g"
  by (cases "gScenario g ! gRound g") (simp add: points_ok_def deal_round_def)

lemma points_ok_put: "points_ok (put_card c g) = points_ok g"
  by (simp add: points_ok_def)

lemma plays_round:
  assumes "plays sc g" and "fair sc" and "sc \<noteq> []" and "gLegal t n c g"
  shows "in_round g" and "t = gTurn g" and "real_side t" and "c \<in> set (gHands g t)"
proof -
  have inv: "game_inv g" using plays_inv [OF assms(1-3)] by simp
  show t: "t = gTurn g" "c \<in> set (gHands g t)" using assms(4) by (auto simp: gLegal_def legal_move_def)
  then show real: "real_side t" using game_inv_turn [OF inv] by simp
  show "in_round g" using inv assms(4) real game_over_no_move by (auto simp: game_inv_def)
qed

text \<open>The invariants hold in every state of a game.\<close>

lemma plays_dealt: "plays sc g \<Longrightarrow> fair sc \<Longrightarrow> sc \<noteq> [] \<Longrightarrow> deal_kept g \<and> points_ok g"
proof (induction rule: plays.induct)
  case start
  show ?case unfolding start_game_def
    by (rule conjI, rule deal_kept_deal, simp only: points_ok_deal, simp add: points_ok_def)
next
  case (move g t n c)
  then have kept: "deal_kept g" "points_ok g" by simp_all
  note round = plays_round [OF move.hyps(1) move.prems move.hyps(2)]
  have put: "deal_kept (put_card c g)" using deal_kept_put [OF kept(1)] round by simp
  have over: "game_inv (spec_move c g)"
    using plays_inv [OF plays.move [OF move.hyps(1,2)] move.prems] by simp
  from round(1) move.hyps(2) show ?case
  proof (cases rule: spec_move_cases)
    case card
    with put kept(2) show ?thesis by (simp add: points_ok_put)
  next
    case trick
    with put kept(2) show ?thesis by (simp add: deal_kept_next points_ok_next points_ok_put)
  next
    case last
    then have "game_over (spec_move c g)" using over by (auto simp: game_inv_def in_round_def round_started_def)
    then have "deal_kept (spec_move c g)" by (rule deal_kept_over)
    with last kept(2) show ?thesis by (simp add: points_ok_close points_ok_next points_ok_put)
  next
    case round
    with kept(2) show ?thesis
      by (simp add: deal_kept_deal points_ok_deal points_ok_close points_ok_next points_ok_put)
  qed
qed

section \<open>Where a side's cards are\<close>

lemma all_cards_disjoint:
  assumes "distinct (all_cards h)" and "real_side s" and "real_side t" and "x \<in> set (h s)" and "x \<in> set (h t)"
  shows "s = t"
proof -
  have "set (h N) \<inter> set (h S) = {}" "set (h N) \<inter> set (h W) = {}" "set (h N) \<inter> set (h E) = {}"
    "set (h S) \<inter> set (h W) = {}" "set (h S) \<inter> set (h E) = {}" "set (h W) \<inter> set (h E) = {}"
    using assms(1) by (auto simp: all_cards_def sides_def)
  with assms(2-5) show ?thesis by (cases s; cases t) auto
qed

lemma all_cards_distinct: "distinct (all_cards h) \<Longrightarrow> real_side s \<Longrightarrow> distinct (h s)"
  by (cases s) (auto simp: all_cards_def sides_def)

lemma set_all_cards: "set (all_cards h) = (\<Union>t \<in> {N, S, W, E}. set (h t))"
  by (simp add: all_cards_def)

lemma deal_deck:
  assumes "fair (gScenario g)" and "round_started g"
  shows "mset (all_cards (deal_of g)) = mset deck" and "distinct (all_cards (deal_of g))"
proof -
  obtain r st s where rnd: "gScenario g ! gRound g = (r, st, s)" by (cases "gScenario g ! gRound g")
  have "(r, st, s) \<in> set (gScenario g)" using assms(2) rnd by (metis nth_mem round_started_def)
  then show deck: "mset (all_cards (deal_of g)) = mset deck"
    using assms(1) rnd by (auto simp: fair_def deal_of_def [abs_def])
  then show "distinct (all_cards (deal_of g))"
    using distinct_deck mset_eq_imp_distinct_iff by blast
qed

abbreviation won_cards :: "game \<Rightarrow> card list" where
  "won_cards g \<equiv> concat (map fst (gWon g))"

lemma hand_cards:
  assumes "fair (gScenario g)" and "round_started g" and "cards_ok g" and "deal_kept g" and "real_side s"
  shows "set (gHands g s) = set (deal_of g s) - set (gTable g) - set (won_cards g)" (is "?H = ?D")
    and "distinct (gHands g s)" and "distinct (deal_of g s)"
    and "set (gTable g) \<inter> set (won_cards g) = {}" and "\<forall>x \<in> set (gTable g). game_card x"
    and "\<forall>x \<in> set (deal_of g s). game_card x"
proof -
  note deck = deal_deck [OF assms(1,2)]
  have all: "mset (all_cards (gHands g) @ gTable g @ won_cards g) = mset (all_cards (deal_of g))"
    using assms(3) by (simp add: cards_ok_def ac_simps)
  then have dist: "distinct (all_cards (gHands g) @ gTable g @ won_cards g)"
    using deck(2) mset_eq_imp_distinct_iff by blast
  have same: "set (all_cards (gHands g)) \<union> set (gTable g) \<union> set (won_cards g) = set (all_cards (deal_of g))"
    using mset_eq_setD [OF all] by auto
  have deck_set: "set (all_cards (deal_of g)) = set deck" using mset_eq_setD [OF deck(1)] .
  have sub: "set (gHands g t) \<subseteq> set (deal_of g t)" if "real_side t" for t
    using assms(4) that by (simp add: deal_kept_def shrunk_def)
  show "distinct (gHands g s)" using all_cards_distinct [of "gHands g" s] dist assms(5) by simp
  show "distinct (deal_of g s)" using all_cards_distinct [of "deal_of g" s] deck(2) assms(5) by simp
  show "set (gTable g) \<inter> set (won_cards g) = {}" using dist by simp
  show "\<forall>x \<in> set (gTable g). game_card x" using same deck_set by (auto simp: set_deck)
  have in_all: "set (h s) \<subseteq> set (all_cards h)" for h using assms(5) by (cases s) (auto simp: set_all_cards)
  show "\<forall>x \<in> set (deal_of g s). game_card x" using in_all [of "deal_of g"] deck_set by (auto simp: set_deck)
  have "?H \<subseteq> ?D" using sub [OF assms(5)] in_all [of "gHands g"] dist by auto
  moreover have "?D \<subseteq> ?H"
  proof
    fix x
    assume x: "x \<in> ?D"
    then have "x \<in> set (all_cards (gHands g))" using same in_all [of "deal_of g"] by blast
    then have "\<exists>t. real_side t \<and> x \<in> set (gHands g t)" by (auto simp: set_all_cards intro: real_side_simps)
    then obtain t where t: "real_side t" "x \<in> set (gHands g t)" by blast
    then have "t = s" using sub [OF t(1)] x all_cards_disjoint [OF deck(2) t(1) assms(5)] by blast
    with t show "x \<in> ?H" by simp
  qed
  ultimately show "?H = ?D" by (rule equalityI)
qed

text \<open>The side to move owns no card on the table.\<close>

lemma others_on_table:
  assumes "fair (gScenario g)" and "in_round g" and "deal_kept g" and "gTurn g = s"
  shows "set (gTable g) \<inter> set (deal_of g s) = {}"
proof (rule ccontr)
  assume "set (gTable g) \<inter> set (deal_of g s) \<noteq> {}"
  then obtain i where i: "i < length (gTable g)" "gTable g ! i \<in> set (deal_of g s)" by (metis disjoint_iff in_set_conv_nth)
  obtain leader where l: "real_side leader" "gTurn g = seat (length (gTable g)) leader" "length (gTable g) < 4"
    using assms(2) by (auto simp: in_round_def seats_ok_def)
  then have "gTable g ! i \<in> set (deal_of g (seat i leader))"
    using assms(3) i(1) unfolding deal_kept_def table_owned_def by blast
  moreover have "distinct (all_cards (deal_of g))"
    using deal_deck [OF assms(1)] assms(2) by (simp add: in_round_def)
  ultimately have "seat i leader = s"
    using all_cards_disjoint i(2) l(1,2) assms(4) by (metis real_side_seat)
  then show False
    using inj_onD [OF seat_inj_on [OF l(1)], of i "length (gTable g)"] l(2,3) i(1) assms(4) by simp
qed

text \<open>Whether a side has yet to play in the trick on the table, as its hand shows.\<close>

definition yet_to_play :: "game \<Rightarrow> side \<Rightarrow> bool" where
  "yet_to_play g s \<longleftrightarrow> length (gHands g s) = TRICKS_PER_ROUND - length (gWon g)"

lemma turn_yet: "in_round g \<Longrightarrow> yet_to_play g (gTurn g)"
  by (auto simp: in_round_def seats_ok_def yet_to_play_def)

lemma last_to_play:
  assumes "in_round g" and "length (gTable g) = 3" and "real_side s" and "yet_to_play g s"
  shows "s = gTurn g"
proof -
  obtain leader where l: "real_side leader" "gTurn g = seat 3 leader" "length (gWon g) < TRICKS_PER_ROUND"
    and hands: "\<forall>i < 4. length (gHands g (seat i leader)) = TRICKS_PER_ROUND - length (gWon g) - (if i < 3 then 1 else 0)"
    using assms(1,2) by (auto simp: in_round_def seats_ok_def)
  obtain i where i: "i < 4" "seat i leader = s" using seat_surj [OF l(1) assms(3)] by blast
  with hands assms(4) l(3) have "\<not> i < 3" by (auto simp: yet_to_play_def)
  then show ?thesis using i l(2) by (simp add: numeral_eq_Suc less_Suc_eq)
qed

end
