(* ===== verification/Game_Messages.thy ===== *)
theory Game_Messages
  imports Game_Deal Server_Correct Client_Correct
begin

text \<open>
  The messages of the specified game as one side receives them, and that each is one the client's
  parser reads back: tables and hands of cards of the deck, trick numbers of the round, and scores
  that fit an \<^verbatim>\<open>int\<close> for games of up to a million rounds.
\<close>

section \<open>What one side is sent\<close>

definition trick_for :: "side \<Rightarrow> game \<Rightarrow> send_job list" where
  "trick_for s g = (if gTurn g = s then [SendJobTrick (gTable g) (gTrickNo g)] else [])"

definition taken_job :: "game \<Rightarrow> send_job" where
  "taken_job g = SendJobTaken (gTable g) (winner (gTurn g) (gTable g)) (int (gTrickNo g))"

definition score_jobs :: "game \<Rightarrow> send_job list" where
  "score_jobs g = [SendJobScore (score_of (gRoundPts g)), SendJobTotal (score_of (gTotal (close_round g)))]"

definition deal_job :: "side \<Rightarrow> game \<Rightarrow> send_job" where
  "deal_job s g = SendDealJob (gMode g) (gTurn g) (deal_of g s)"

text \<open>A player who takes the side in the middle of a round.\<close>

definition catch_up_jobs :: "side \<Rightarrow> game \<Rightarrow> send_job list" where
  "catch_up_jobs s g = deal_job s g # taken_jobs (gWon g) @ trick_for s g"

lemma for_side_append [simp]: "for_side s (xs @ ys) = for_side s xs @ for_side s ys"
  by (simp add: for_side_def)

lemma for_side_all [simp]: "real_side s \<Longrightarrow> for_side s (to_all f) = f s"
  by (cases s) (simp_all add: for_side_def to_all_def sides_def comp_def)

lemma for_side_trick [simp]: "for_side s (trick_msg g) = trick_for s g"
  by (simp add: for_side_def trick_msg_def trick_for_def)

lemma deal_round_hands: "gHands (deal_round g) s = deal_of (deal_round g) s"
  by (cases "gScenario g ! gRound g") (simp add: deal_round_def deal_of_def)

lemma for_side_deal: "real_side s \<Longrightarrow> for_side s (deal_msgs (deal_round g)) = [deal_job s (deal_round g)]"
  by (simp add: deal_msgs_def deal_job_def deal_round_hands)

lemma spec_msgs_for_side:
  assumes "in_round g" and "gLegal t n c g" and "real_side s"
  obtains (card) "length (gTable g) < 3" "spec_move c g = put_card c g" "in_round (put_card c g)"
      "for_side s (spec_msgs c g) = trick_for s (put_card c g)"
  | (trick) "trick_full (put_card c g)" "spec_move c g = next_trick (put_card c g)"
      "Suc (length (gWon g)) < TRICKS_PER_ROUND"
      "for_side s (spec_msgs c g) = taken_job (put_card c g) # trick_for s (next_trick (put_card c g))"
  | (last) "trick_full (put_card c g)" "spec_move c g = close_round (next_trick (put_card c g))"
      "Suc (length (gWon g)) = TRICKS_PER_ROUND" "gRound g + 1 = length (gScenario g)"
      "for_side s (spec_msgs c g) = taken_job (put_card c g) # score_jobs (next_trick (put_card c g))"
  | (round) "trick_full (put_card c g)" "spec_move c g = deal_round (close_round (next_trick (put_card c g)))"
      "Suc (length (gWon g)) = TRICKS_PER_ROUND" "gRound g + 1 < length (gScenario g)"
      "for_side s (spec_msgs c g) = taken_job (put_card c g) # score_jobs (next_trick (put_card c g)) @
         deal_job s (spec_move c g) # trick_for s (spec_move c g)"
  using assms(1,2)
proof (cases rule: spec_move_cases)
  case card
  with that(1) assms(3) show thesis by (simp add: spec_msgs_def)
next
  case trick
  with that(2) assms(3) show thesis by (simp add: spec_msgs_def Let_def taken_job_def)
next
  case last
  with that(3) assms(3) show thesis by (simp add: spec_msgs_def Let_def taken_job_def score_jobs_def)
next
  case round
  with that(4) assms(3) show thesis
    by (simp add: spec_msgs_def Let_def taken_job_def score_jobs_def for_side_deal)
qed

section \<open>The messages are well-formed\<close>

lemma trick_job_ok:
  assumes "fair (gScenario g)" and "in_round g" and "deal_kept g"
  shows "server_job ord (SendJobTrick (gTable g) (gTrickNo g))"
proof -
  have "\<forall>x \<in> set (gTable g). game_card x"
    using hand_cards(5) [OF assms(1) _ _ assms(3), of N] assms(2) by (simp add: in_round_def)
  with assms(2) show ?thesis
    by (auto simp: server_job_def in_round_def seats_ok_def gTrickNo_def)
qed

lemma taken_job_ok:
  assumes "fair (gScenario g)" and "trick_full g" and "deal_kept g"
  shows "server_job ord (taken_job g)"
proof -
  have "\<forall>x \<in> set (gTable g). game_card x"
    using hand_cards(5) [OF assms(1) _ _ assms(3), of N] assms(2) by (simp add: trick_full_def)
  with assms(2) show ?thesis
    by (auto simp: server_job_def taken_job_def trick_full_def gTrickNo_def real_side_winner)
qed

lemma deal_job_ok:
  assumes "fair (gScenario g)" and "round_started g" and "real_side (gTurn g)" and "real_side s"
  shows "server_job ord (deal_job s g)"
proof -
  obtain r st u where rnd: "gScenario g ! gRound g = (r, st, u)" by (cases "gScenario g ! gRound g")
  have "(r, st, u) \<in> set (gScenario g)" using assms(2) rnd by (metis nth_mem round_started_def)
  then have ok: "round_ok (r, st, u)" using assms(1) by (auto simp: fair_def scenario_ok_def)
  then have "s \<in> dom st" using assms(4) by (simp add: round_ok_def real_side_def)
  then obtain h where "st s = Some h" by blast
  with ok rnd assms(2,3) show ?thesis
    by (auto simp: server_job_def deal_job_def deal_of_def round_ok_def round_started_def get_def dest: ranI)
qed

lemma score_jobs_ok:
  assumes "mset ord = mset sides" and "\<forall>t. 0 \<le> f t" and "side_sum f < 2 ^ 31"
  shows "server_job ord (SendJobScore (score_of f)) \<and> server_job ord (SendJobTotal (score_of f))"
proof -
  have le: "f t \<le> side_sum f" if "real_side t" for t
    using that assms(2) by (cases t) (simp_all add: side_sum_def sides_def add_nonneg_nonneg)
  have "scores_ok ord (score_of f)" using assms(1,2) by (auto simp: scores_ok_def score_of_def real_side_def)
  moreover have "scores_small (score_of f)"
    using assms(3) le [of N] le [of S] le [of W] le [of E] by (simp add: scores_small_def get_score_of)
  ultimately show ?thesis by (simp add: server_job_def)
qed

lemma round_total_le: "round_total r \<le> 100"
  by (cases r) simp_all

lemma totals_le: "sum_list (map (round_total \<circ> fst) (xs :: game_scenario)) \<le> 100 * int (length xs)"
proof (induction xs)
  case (Cons x xs)
  with round_total_le [of "fst x"] show ?case by simp
qed simp

lemma round_scores_ok:
  assumes "mset ord = mset sides" and "game_inv g" and "points_ok g" and "length (gScenario g) \<le> 1000000"
    and "trick_full g'" and "g' = put_card c g" and "Suc (length (gWon g)) = TRICKS_PER_ROUND"
  shows "\<forall>j \<in> set (score_jobs (next_trick g')). server_job ord j"
proof -
  let ?h = "next_trick g'"
  have fair: "fair (gScenario g')" "Suc (length (gWon g')) = TRICKS_PER_ROUND"
    using assms(2,6,7) by (simp_all add: game_inv_def)
  have tot: "side_sum (gTotal g') = sum_list (map (round_total \<circ> fst) (take (gRound g') (gScenario g')))"
    using assms(2,6) by (simp add: game_inv_def)
  have pts: "points_ok ?h" "points_ok (close_round ?h)"
    using assms(3,6) by (simp_all add: points_ok_close points_ok_next points_ok_put)
  have "side_sum (gRoundPts ?h) \<le> 100" using last_trick [OF assms(5) fair(2,1)] round_total_le by simp
  moreover have "side_sum (gTotal (close_round ?h)) \<le> 100 * int (length (take (gRound g' + 1) (gScenario g')))"
    using total_step [OF assms(5) fair(2,1) tot] totals_le by metis
  moreover have "int (length (take (gRound g' + 1) (gScenario g'))) \<le> 1000000" using assms(4,6) by simp
  ultimately have "side_sum (gRoundPts ?h) < 2 ^ 31" "side_sum (gTotal (close_round ?h)) < 2 ^ 31" by simp_all
  then show ?thesis
    using score_jobs_ok [OF assms(1), of "gRoundPts ?h"] score_jobs_ok [OF assms(1), of "gTotal (close_round ?h)"] pts
    by (simp add: score_jobs_def points_ok_def)
qed

end
