(* ===== verification/Auto_Follow.thy ===== *)
theory Auto_Follow
  imports Client_Players Game_Messages
begin

text \<open>
  The automatic player at the table: it follows the game of the server from the messages its client
  reads, and whenever its side is to move it has sent a card the rules allow. The states of its
  client are related to those of the specified game; each message keeps the relation.
\<close>

section \<open>The client's actions on a good connection\<close>

text \<open>The state after the log of a message; it differs in the clock and the output.\<close>

definition after_log :: "net_address \<Rightarrow> net_address \<Rightarrow> string \<Rightarrow> player_auto client \<Rightarrow> player_auto client" where
  "after_log a b m w = w\<lparr>clockReads := clockReads w + 1,
     cout := logger_log (localTime w) (logDummy (plr w)) (Message (sysClock w (clockReads w)) a b m) (cout w)\<rparr>"

lemma after_log_simps [simp]:
  "nextMsg (after_log a b m w) = nextMsg w" "cTerminate (after_log a b m w) = cTerminate w"
  "sendKernel (after_log a b m w) = sendKernel w" "stage (after_log a b m w) = stage w"
  "plr (after_log a b m w) = plr w" "sentMsgs (after_log a b m w) = sentMsgs w"
  "waitingForCard (after_log a b m w) = waitingForCard w" "cTrickNo (after_log a b m w) = cTrickNo w"
  by (simp_all add: after_log_def)

lemma log_auto: "bindA (new_message a b m) auto_anyMsg w = (Inr (), after_log a b m w)"
  by (simp add: new_message_def auto_anyMsg_def after_log_def thenA_def bindA_def)

lemma message_auto:
  "message_step auto_client ord j w =
   job_step auto_client j (after_log (cServerAddr w) (cOwnAddr w) (msg_body ord j) w)"
  using log_auto [of "cServerAddr w" "cOwnAddr w" "msg_body ord j" w]
  by (simp add: message_step_def log_line_def)

definition listening :: "'p client \<Rightarrow> bool" where
  "listening w \<longleftrightarrow> nextMsg w = '''' \<and> \<not> cTerminate w \<and> eager w"

lemma listening_cong:
  "nextMsg w' = nextMsg w \<Longrightarrow> cTerminate w' = cTerminate w \<Longrightarrow> sendKernel w' = sendKernel w \<Longrightarrow>
   listening w' = listening w"
  by (simp add: listening_def eager_def)

lemma choose_auto:
  assumes "wf_card c" and "eager w" and "waitingForCard w" and "cTrickNo w = int n" and "n \<le> TRICKS_PER_ROUND"
  shows "chooseCard auto_anyMsg c w = (Inr (),
    (after_log (cOwnAddr w) (cServerAddr w) (msg_body [] (SendJobTrick [c] n))
      (w\<lparr>selectedCard := c, sentMsgs := sentMsgs w @ [genMsg [] (SendJobTrick [c] n)]\<rparr>))\<lparr>waitingForCard := False\<rparr>)"
  using choose_eager [OF assms, of auto_anyMsg]
  by (simp add: log_auto thenA_def del: genMsg.simps msg_body.simps)

section \<open>The client beside the game\<close>

text \<open>
  Three phases of a round: the player has not yet been asked for a card of this trick, he has been
  asked and has sent one, he has played. Before the first request after joining (\<open>AFTER_FIRST_DEAL\<close>)
  the hand still holds a card he may have played before.
\<close>

definition auto_waits :: "side \<Rightarrow> game \<Rightarrow> player_auto client \<Rightarrow> bool" where
  "auto_waits s g w \<longleftrightarrow> listening w \<and> lastCards (plr w) = [] \<and> nextTrick (plr w) \<le> int (gTrickNo g) \<and>
     distinct (strategy (plr w)) \<and>
     (stage w = AFTER_FIRST_DEAL \<and> set (strategy (plr w)) = set (deal_of g s) - set (won_cards g) \<or>
      (stage w = AFTER_DEAL \<or> stage w = AFTER_TRICK) \<and> yet_to_play g s \<and>
        set (strategy (plr w)) = set (gHands g s))"

definition sent_card :: "card \<Rightarrow> nat \<Rightarrow> player_auto client \<Rightarrow> bool" where
  "sent_card c n w \<longleftrightarrow> sentMsgs w \<noteq> [] \<and> last (sentMsgs w) = genMsg [] (SendJobTrick [c] n)"

definition auto_asked :: "side \<Rightarrow> game \<Rightarrow> player_auto client \<Rightarrow> bool" where
  "auto_asked s g w \<longleftrightarrow> listening w \<and> distinct (strategy (plr w)) \<and> stage w = AFTER_TRICK \<and>
     nextTrick (plr w) = int (gTrickNo g) + 1 \<and>
     (\<exists>c. lastCards (plr w) = [c] \<and> gLegal s (gTrickNo g) c g \<and>
        set (strategy (plr w)) = set (gHands g s) - {c} \<and> sent_card c (gTrickNo g) w)"

definition auto_played :: "side \<Rightarrow> game \<Rightarrow> player_auto client \<Rightarrow> bool" where
  "auto_played s g w \<longleftrightarrow> listening w \<and> distinct (strategy (plr w)) \<and> stage w = AFTER_TRICK \<and>
     (\<exists>c. lastCards (plr w) = [c]) \<and> \<not> yet_to_play g s \<and> set (strategy (plr w)) = set (gHands g s)"

definition auto_follows :: "side \<Rightarrow> game \<Rightarrow> player_auto client \<Rightarrow> bool" where
  "auto_follows s g w \<longleftrightarrow>
     (if in_round g then if gTurn g = s then auto_asked s g w else auto_waits s g w \<or> auto_played s g w
      else listening w \<and> stage w = AFTER_TOTAL)"

text \<open>A trick is complete, and the player has still to hear of it.\<close>

definition auto_settled :: "side \<Rightarrow> game \<Rightarrow> player_auto client \<Rightarrow> bool" where
  "auto_settled s g w \<longleftrightarrow> listening w \<and> distinct (strategy (plr w)) \<and>
     (stage w = AFTER_TRICK \<and> (\<exists>c. lastCards (plr w) = [c]) \<and> set (strategy (plr w)) = set (gHands g s) \<or>
      stage w = AFTER_FIRST_DEAL \<and> lastCards (plr w) = [] \<and>
        set (strategy (plr w)) = set (deal_of g s) - set (won_cards g))"

lemma listening_log [simp]: "listening (after_log a b m w) = listening w"
  by (rule listening_cong) simp_all

lemma phases_log [simp]:
  "auto_waits s g (after_log a b m w) = auto_waits s g w" "auto_asked s g (after_log a b m w) = auto_asked s g w"
  "auto_played s g (after_log a b m w) = auto_played s g w" "auto_settled s g (after_log a b m w) = auto_settled s g w"
  by (simp_all add: auto_waits_def auto_asked_def auto_played_def auto_settled_def sent_card_def)

section \<open>Hearing messages\<close>

text \<open>A list of messages takes the client from states with \<open>P\<close> to states with \<open>Q\<close>, and nothing is thrown.\<close>

definition hears :: "side list \<Rightarrow> (player_auto client \<Rightarrow> bool) \<Rightarrow> send_job list \<Rightarrow> (player_auto client \<Rightarrow> bool) \<Rightarrow> bool" where
  "hears ord P js Q \<longleftrightarrow> (\<forall>w. P w \<longrightarrow> (\<exists>w'. foldA (message_step auto_client ord) js w = (Inr (), w') \<and> Q w'))"

lemma hearsD: "hears ord P js Q \<Longrightarrow> P w \<Longrightarrow> \<exists>w'. foldA (message_step auto_client ord) js w = (Inr (), w') \<and> Q w'"
  by (simp add: hears_def)

lemma hears_Nil: "(\<And>w. P w \<Longrightarrow> Q w) \<Longrightarrow> hears ord P [] Q"
  by (simp add: hears_def)

lemma hears_append: "hears ord P xs Q \<Longrightarrow> hears ord Q ys R \<Longrightarrow> hears ord P (xs @ ys) R"
  unfolding hears_def foldA_append by (metis thenA_Inr)

lemma hears_Cons: "hears ord P [j] Q \<Longrightarrow> hears ord Q js R \<Longrightarrow> hears ord P (j # js) R"
  using hears_append [of ord P "[j]" Q js R] by simp

lemma hears_job:
  assumes "\<And>a b m w. P w \<Longrightarrow> P (after_log a b m w)"
    and "\<And>w. P w \<Longrightarrow> \<exists>w'. job_step auto_client j w = (Inr (), w') \<and> Q w'"
  shows "hears ord P [j] Q"
  unfolding hears_def by (simp only: foldA_single message_auto) (blast intro: assms)

lemma hears_mono: "hears ord P js Q \<Longrightarrow> (\<And>w. P' w \<Longrightarrow> P w) \<Longrightarrow> (\<And>w. Q w \<Longrightarrow> Q' w) \<Longrightarrow> hears ord P' js Q'"
  unfolding hears_def by blast

text \<open>The request for a card.\<close>

lemma hears_request:
  assumes g: "fair (gScenario g)" "in_round g" "deal_kept g" "gTurn g = s"
  shows "hears ord (auto_waits s g) [SendJobTrick (gTable g) (gTrickNo g)] (auto_asked s g)"
proof (rule hears_job)
  fix w
  assume w: "auto_waits s g w"
  let ?n = "gTrickNo g"
  have s: "real_side s" using in_round_turn [OF g(2)] g(4) by simp
  have started: "round_started g" "cards_ok g" using g(2) by (simp_all add: in_round_def)
  note hand = hand_cards [OF g(1) started g(3) s]
  have cards: "set (strategy (plr w)) = set (gHands g s)"
    using w hand(1) others_on_table [OF g] by (auto simp: auto_waits_def)
  have len: "length (gHands g s) = TRICKS_PER_ROUND - length (gWon g)" "length (gWon g) < TRICKS_PER_ROUND"
    using turn_yet [OF g(2)] g(2,4) by (simp_all add: yet_to_play_def in_round_def seats_ok_def)
  then have "gHands g s \<noteq> []" by auto
  then have some: "strategy (plr w) \<noteq> []" using cards by force
  have wf: "\<forall>c \<in> set (strategy (plr w)). wf_card c" using cards hand(1,6) by (auto intro: game_card_wf)
  let ?w = "w\<lparr>stage := AFTER_TRICK, waitingForCard := True, cTrickNo := int ?n\<rparr>"
  have fresh: "\<not> int ?n < nextTrick (plr ?w)" using w by (simp add: auto_waits_def)
  have "strategy (plr ?w) \<noteq> []" "\<forall>c \<in> set (strategy (plr ?w)). wf_card c" using some wf by simp_all
  from auto_trickMsg_plays [OF fresh this, of "gTable g" "chooseCard auto_anyMsg"]
  obtain c h where c: "legal_move (strategy (plr w)) c (gTable g)" "mset (strategy (plr w)) = add_mset c (mset h)"
    "auto_trickMsg (chooseCard auto_anyMsg) (int ?n) (gTable g) ?w =
      chooseCard auto_anyMsg c (?w\<lparr>plr := auto_played_state (int ?n) c h (plr w)\<rparr>)" by auto
  have "eager ?w" "?n \<le> TRICKS_PER_ROUND" using w len(2) by (simp_all add: auto_waits_def listening_def eager_def gTrickNo_def)
  moreover have "wf_card c" using c(1) wf by (simp add: legal_move_def)
  ultimately have "\<exists>w'. job_step auto_client (SendJobTrick (gTable g) ?n) w = (Inr (), w') \<and> stage w' = AFTER_TRICK \<and>
      plr w' = auto_played_state (int ?n) c h (plr w) \<and> nextMsg w' = nextMsg w \<and> cTerminate w' = cTerminate w \<and>
      sendKernel w' = sendKernel w \<and> sent_card c ?n w'"
    using c(3) by (subst job_step.simps) (simp add: choose_auto eager_def sent_card_def del: genMsg.simps msg_body.simps)
  then obtain w' where w': "job_step auto_client (SendJobTrick (gTable g) ?n) w = (Inr (), w')" "stage w' = AFTER_TRICK"
    "plr w' = auto_played_state (int ?n) c h (plr w)" "sent_card c ?n w'" "listening w' = listening w"
    using listening_cong by blast
  have dist: "distinct (strategy (plr w))" using w by (simp add: auto_waits_def)
  have "distinct (c # h)" using c(2) dist mset_eq_imp_distinct_iff [of "c # h" "strategy (plr w)"] by simp
  moreover have "set (strategy (plr w)) = insert c (set h)" using c(2) mset_eq_setD [of "strategy (plr w)" "c # h"] by simp
  ultimately have h: "distinct h" "set h = set (gHands g s) - {c}" using cards by auto
  have "gLegal s ?n c g" using c(1) cards g(4) by (simp add: gLegal_def legal_move_def)
  then have "auto_asked s g w'" using w' h w by (simp add: auto_asked_def auto_waits_def auto_played_state_def)
  with w'(1) show "\<exists>w'. job_step auto_client (SendJobTrick (gTable g) ?n) w = (Inr (), w') \<and> auto_asked s g w'" by blast
qed simp

text \<open>The request repeated: the player has answered it.\<close>

lemma hears_again: "hears ord (auto_asked s g) [SendJobTrick tab (gTrickNo g)] (auto_asked s g)"
proof (rule hears_job)
  fix w
  assume w: "auto_asked s g w"
  let ?w = "w\<lparr>stage := AFTER_TRICK, waitingForCard := True, cTrickNo := int (gTrickNo g)\<rparr>"
  have "int (gTrickNo g) < nextTrick (plr ?w)" using w by (simp add: auto_asked_def)
  then have "job_step auto_client (SendJobTrick tab (gTrickNo g)) w = (Inr (), ?w)" by simp
  moreover have "auto_asked s g ?w" using w by (simp add: auto_asked_def listening_def eager_def sent_card_def)
  ultimately show "\<exists>w'. job_step auto_client (SendJobTrick tab (gTrickNo g)) w = (Inr (), w') \<and> auto_asked s g w'"
    by blast
qed simp

text \<open>The end of a trick.\<close>

lemma next_trick_more [simp]:
  "won_cards (next_trick g) = won_cards g @ gTable g" "gTrickNo (next_trick g) = Suc (gTrickNo g)"
  "gHands (next_trick g) = gHands g" "deal_of (next_trick g) = deal_of g"
  by (simp_all add: next_trick_def take_trick_def Let_def gTrickNo_def deal_of_def fun_eq_iff)

lemma hears_taken:
  assumes g: "fair (gScenario g)" "trick_full g" "deal_kept g" and s: "real_side s"
  shows "hears ord (auto_settled s g) [taken_job g] (auto_waits s (next_trick g))"
proof (rule hears_job)
  fix w
  assume w: "auto_settled s g w"
  have full: "round_started g" "cards_ok g" "length (gHands g s) = TRICKS_PER_ROUND - length (gWon g) - 1"
    using g(2) s by (simp_all add: trick_full_def)
  note hand = hand_cards [OF g(1) full(1,2) g(3) s]
  have len: "yet_to_play (next_trick g) s" using full(3) by (simp add: yet_to_play_def next_trick_def take_trick_def Let_def)
  let ?w = "w\<lparr>cTrickNo := int (gTrickNo g)\<rparr>"
  from w consider c where "stage w = AFTER_TRICK" "lastCards (plr w) = [c]" "set (strategy (plr w)) = set (gHands g s)"
    | "stage w = AFTER_FIRST_DEAL" "lastCards (plr w) = []" "set (strategy (plr w)) = set (deal_of g s) - set (won_cards g)"
    by (auto simp: auto_settled_def)
  then show "\<exists>w'. job_step auto_client (taken_job g) w = (Inr (), w') \<and> auto_waits s (next_trick g) w'"
  proof cases
    case 1
    with w len show ?thesis
      by (simp add: taken_job_def auto_takenMsg_def auto_settled_def auto_waits_def listening_def eager_def)
  next
    case 2
    have wf: "\<forall>x \<in> set (gTable g). wf_card x" "\<forall>x \<in> set (strategy (plr w)). wf_card x"
      using hand(5,6) 2(3) by (auto intro: game_card_wf)
    from w have "distinct (strategy (plr w))" by (simp add: auto_settled_def)
    from rmIntersection_minus [OF wf this] 2 w show ?thesis
      by (auto simp: taken_job_def auto_takenMsg_def auto_settled_def auto_waits_def listening_def eager_def)
  qed
qed simp

text \<open>The end of a round.\<close>

definition at_rest :: "game_stage \<Rightarrow> player_auto client \<Rightarrow> bool" where
  "at_rest st w \<longleftrightarrow> listening w \<and> stage w = st \<and> lastCards (plr w) = []"

lemma at_rest_log [simp]: "at_rest st (after_log a b m w) = at_rest st w"
  by (simp add: at_rest_def)

lemma hears_scores:
  assumes "\<And>w. P w \<Longrightarrow> at_rest (stage w) w"
  shows "hears ord P (score_jobs g) (at_rest AFTER_TOTAL)"
proof -
  let ?Q = "\<lambda>w. at_rest (stage w) w"
  have "hears ord ?Q [SendJobScore x] ?Q" for x
    by (rule hears_job) (simp_all add: auto_scoreMsg_def at_rest_def listening_def eager_def)
  moreover have "hears ord ?Q [SendJobTotal x] (at_rest AFTER_TOTAL)" for x
    by (rule hears_job) (simp_all add: auto_scoreMsg_def at_rest_def listening_def eager_def)
  ultimately have "hears ord ?Q (score_jobs g) (at_rest AFTER_TOTAL)"
    unfolding score_jobs_def by (rule hears_Cons)
  then show ?thesis by (rule hears_mono) (auto intro: assms)
qed

text \<open>The deal, at the beginning of a round or to a player who comes in its middle.\<close>

definition dealt :: "side \<Rightarrow> game \<Rightarrow> (table \<times> side) list \<Rightarrow> game_stage \<Rightarrow> player_auto client \<Rightarrow> bool" where
  "dealt s g ws st w \<longleftrightarrow> at_rest st w \<and> nextTrick (plr w) = int (Suc (length ws)) \<and> distinct (strategy (plr w)) \<and>
     set (strategy (plr w)) = set (deal_of g s) - set (concat (map fst ws))"

lemma dealt_log [simp]: "dealt s g ws st (after_log a b m w) = dealt s g ws st w"
  by (simp add: dealt_def)

lemma hears_deal:
  assumes "distinct (deal_of g s)"
  shows "hears ord (at_rest st) [deal_job s g] (dealt s g [] (if st = PRE then AFTER_FIRST_DEAL else AFTER_DEAL))"
  by (rule hears_job)
    (use assms in \<open>auto simp: deal_job_def auto_dealMsg_def strategy_reset_def dealt_def at_rest_def listening_def eager_def\<close>)

lemma hears_taken_jobs:
  assumes "\<forall>x \<in> set (deal_of g s). wf_card x" and "\<forall>x \<in> set (concat (map fst ws)). wf_card x"
  shows "hears ord (dealt s g [] AFTER_FIRST_DEAL) (taken_jobs ws) (dealt s g ws AFTER_FIRST_DEAL)"
  using assms(2)
proof (induction ws rule: rev_induct)
  case Nil
  show ?case by (simp add: taken_jobs_def hears_Nil)
next
  case (snoc u ws)
  obtain tab t where u: "u = (tab, t)" by (cases u)
  have "hears ord (dealt s g ws AFTER_FIRST_DEAL) [SendJobTaken tab t (int (Suc (length ws)))] (dealt s g (ws @ [u]) AFTER_FIRST_DEAL)"
  proof (rule hears_job)
    fix w
    assume w: "dealt s g ws AFTER_FIRST_DEAL w"
    have wf: "\<forall>x \<in> set tab. wf_card x" "\<forall>x \<in> set (strategy (plr w)). wf_card x" "distinct (strategy (plr w))"
      using snoc.prems u w assms(1) by (auto simp: dealt_def)
    from rmIntersection_minus [OF wf] w u
    show "\<exists>w'. job_step auto_client (SendJobTaken tab t (int (Suc (length ws)))) w = (Inr (), w') \<and>
        dealt s g (ws @ [u]) AFTER_FIRST_DEAL w'"
      by (auto simp: auto_takenMsg_def dealt_def at_rest_def listening_def eager_def)
  qed simp
  with snoc u show ?case by (auto simp: taken_jobs_snoc intro: hears_append)
qed

section \<open>One move\<close>

lemma hears_trick_for:
  assumes "fair (gScenario g)" and "in_round g" and "deal_kept g"
  shows "hears ord (auto_waits s g) (trick_for s g) (auto_follows s g)"
proof (cases "gTurn g = s")
  case True
  then have "auto_follows s g w = auto_asked s g w" for w using assms(2) by (simp add: auto_follows_def)
  with hears_request [OF assms True] True show ?thesis by (simp add: trick_for_def hears_def)
next
  case False
  then show ?thesis using assms(2) by (auto simp: trick_for_def auto_follows_def intro: hears_Nil)
qed

lemma hears_join:
  assumes g: "fair (gScenario g)" "in_round g" "deal_kept g" and s: "real_side s"
  shows "hears ord (at_rest PRE) (catch_up_jobs s g) (auto_follows s g)"
proof -
  have started: "round_started g" "cards_ok g" using g(2) by (simp_all add: in_round_def)
  note hand = hand_cards [OF g(1) started g(3) s]
  have "mset (all_cards (gHands g) @ gTable g @ won_cards g) = mset (all_cards (deal_of g))"
    using started(2) by (simp add: cards_ok_def ac_simps)
  also have "\<dots> = mset deck" by (rule deal_deck(1) [OF g(1) started(1)])
  finally have "set (all_cards (gHands g) @ gTable g @ won_cards g) = set deck" by (rule mset_eq_setD)
  then have "set (won_cards g) \<subseteq> set deck" by auto
  then have wf: "\<forall>x \<in> set (won_cards g). wf_card x" "\<forall>x \<in> set (deal_of g s). wf_card x"
    using hand(6) by (auto simp: set_deck intro: game_card_wf)
  have waits: "auto_waits s g w" if "dealt s g (gWon g) AFTER_FIRST_DEAL w" for w
    using that by (simp add: dealt_def at_rest_def auto_waits_def gTrickNo_def)
  have "hears ord (at_rest PRE) [deal_job s g] (dealt s g [] AFTER_FIRST_DEAL)"
    using hears_deal [OF hand(3), of ord PRE] by simp
  moreover have "hears ord (dealt s g [] AFTER_FIRST_DEAL) (taken_jobs (gWon g)) (auto_waits s g)"
    using hears_taken_jobs [OF wf(2,1)] by (rule hears_mono) (auto intro: waits)
  ultimately show ?thesis
    unfolding catch_up_jobs_def using hears_trick_for [OF g] by (metis hears_Cons hears_append)
qed

lemma hears_round:
  assumes g: "fair (gScenario g)" "in_round g" "deal_kept g" and s: "real_side s"
    and new: "gWon g = []" "gHands g s = deal_of g s"
  shows "hears ord (at_rest AFTER_TOTAL) (deal_job s g # trick_for s g) (auto_follows s g)"
proof -
  have started: "round_started g" "cards_ok g" using g(2) by (simp_all add: in_round_def)
  note hand = hand_cards [OF g(1) started g(3) s]
  have "length (deal_of g s) = TRICKS_PER_ROUND"
  proof -
    obtain r st u where rnd: "gScenario g ! gRound g = (r, st, u)" by (cases "gScenario g ! gRound g")
    have "(r, st, u) \<in> set (gScenario g)" using started(1) rnd by (metis nth_mem round_started_def)
    then have ok: "round_ok (r, st, u)" using g(1) by (auto simp: fair_def scenario_ok_def)
    then have "s \<in> dom st" using s by (simp add: round_ok_def real_side_def)
    then obtain h where "st s = Some h" by blast
    with ok rnd show ?thesis by (auto simp: deal_of_def round_ok_def get_def dest: ranI)
  qed
  then have waits: "auto_waits s g w" if "dealt s g [] AFTER_DEAL w" for w
    using that new by (simp add: dealt_def at_rest_def auto_waits_def gTrickNo_def yet_to_play_def)
  have "hears ord (at_rest AFTER_TOTAL) [deal_job s g] (dealt s g [] AFTER_DEAL)"
    using hears_deal [OF hand(3), of ord AFTER_TOTAL] by simp
  then have "hears ord (at_rest AFTER_TOTAL) [deal_job s g] (auto_waits s g)"
    by (rule hears_mono) (auto intro: waits)
  then show ?thesis using hears_trick_for [OF g] by (rule hears_Cons)
qed

text \<open>The player's own card: the text he sent determines it.\<close>

lemma sent_card_unique:
  assumes "sent_card c n w" and "sent_card d n w" and "wf_card c" and "wf_card d"
  shows "c = d"
proof -
  have "genMsg [] (SendJobTrick [c] n) = genMsg [] (SendJobTrick [d] n)" using assms(1,2) by (simp add: sent_card_def)
  then have "toString c = toString d" by simp
  then show ?thesis using toString_inject assms(3,4) by blast
qed

lemma own_card_played:
  assumes g: "fair (gScenario g)" "in_round g" "deal_kept g" and c: "gLegal s n c g" and s: "real_side s"
    and w: "auto_asked s g w" and own: "sent_card c n w"
  shows "auto_played s (put_card c g) w" and "auto_settled s (put_card c g) w"
proof -
  have started: "round_started g" "cards_ok g" using g(2) by (simp_all add: in_round_def)
  note hand = hand_cards [OF g(1) started g(3) s]
  have turn: "n = gTrickNo g" "gTurn g = s" "c \<in> set (gHands g s)" using c by (auto simp: gLegal_def legal_move_def)
  have wf: "x \<in> set (gHands g s) \<Longrightarrow> wf_card x" for x using hand(1,6) by (auto intro: game_card_wf)
  obtain d where d: "lastCards (plr w) = [d]" "gLegal s n d g" "set (strategy (plr w)) = set (gHands g s) - {d}" "sent_card d n w"
    using w turn(1) by (auto simp: auto_asked_def)
  then have "d \<in> set (gHands g s)" by (auto simp: gLegal_def legal_move_def)
  then have "d = c" using sent_card_unique [OF d(4) own] wf turn(3) by blast
  moreover have "set (gHands (put_card c g) s) = set (gHands g s) - {c}" using turn(2) hand(2) by simp
  moreover have "\<not> yet_to_play (put_card c g) s"
  proof -
    have "length (gHands g s) = TRICKS_PER_ROUND - length (gWon g)" "length (gWon g) < TRICKS_PER_ROUND"
      using turn_yet [OF g(2)] g(2) turn(2) by (simp_all add: yet_to_play_def in_round_def seats_ok_def)
    then show ?thesis using turn(2,3) by (simp add: yet_to_play_def length_remove1)
  qed
  ultimately show "auto_played s (put_card c g) w" "auto_settled s (put_card c g) w"
    using w d by (simp_all add: auto_asked_def auto_played_def auto_settled_def)
qed

text \<open>A card of another side.\<close>

lemma other_card_played:
  assumes g: "in_round g" and c: "gLegal t n c g" and s: "real_side s" "t \<noteq> s"
  shows "auto_waits s (put_card c g) w = auto_waits s g w" and "auto_played s (put_card c g) w = auto_played s g w"
    and "gTurn (put_card c g) = s \<Longrightarrow> in_round (put_card c g) \<Longrightarrow> \<not> auto_played s (put_card c g) w"
    and "length (gTable g) = 3 \<Longrightarrow> auto_waits s g w \<or> auto_played s g w \<Longrightarrow> auto_settled s (put_card c g) w"
proof -
  have turn: "gTurn g = t" using c by (simp add: gLegal_def)
  have same: "gHands (put_card c g) s = gHands g s" "gTrickNo (put_card c g) = gTrickNo g"
    "deal_of (put_card c g) = deal_of g" "yet_to_play (put_card c g) s = yet_to_play g s" "gWon (put_card c g) = gWon g"
    using turn s(2) not_sym [OF s(2)] by (simp_all add: gTrickNo_def deal_of_def fun_eq_iff yet_to_play_def)
  show "auto_waits s (put_card c g) w = auto_waits s g w" "auto_played s (put_card c g) w = auto_played s g w"
    by (simp_all only: auto_waits_def auto_played_def same)
  show "\<not> auto_played s (put_card c g) w" if "gTurn (put_card c g) = s" "in_round (put_card c g)"
    using turn_yet [OF that(2)] that(1) by (simp add: auto_played_def)
  show "auto_settled s (put_card c g) w" if "length (gTable g) = 3" "auto_waits s g w \<or> auto_played s g w"
  proof -
    have "\<not> yet_to_play g s" using last_to_play [OF g that(1) s(1)] turn s(2) by auto
    with that(2) show ?thesis
      unfolding auto_waits_def auto_played_def auto_settled_def same by blast
  qed
qed

lemma hears_card:
  assumes g: "fair (gScenario g)" "in_round g" "deal_kept g" and c: "gLegal t n c g" and s: "real_side s"
    and kept: "deal_kept (put_card c g)"
  defines "P \<equiv> \<lambda>w. auto_follows s g w \<and> (t = s \<longrightarrow> sent_card c n w)"
  shows "in_round (put_card c g) \<Longrightarrow> hears ord P (trick_for s (put_card c g)) (auto_follows s (put_card c g))"
    and "length (gTable g) = 3 \<Longrightarrow> P w \<Longrightarrow> auto_settled s (put_card c g) w"
proof -
  have turn: "gTurn g = t" using c by (simp add: gLegal_def)
  show "hears ord P (trick_for s (put_card c g)) (auto_follows s (put_card c g))" if r: "in_round (put_card c g)"
  proof (cases "t = s")
    case True
    have "gTurn (put_card c g) \<noteq> s" using True turn s by (cases s) simp_all
    moreover have "auto_follows s (put_card c g) w" if "P w" for w
    proof -
      have "auto_asked s g w" "sent_card c n w" using that True turn g(2) by (simp_all add: P_def auto_follows_def)
      with own_card_played(1) [OF g c [unfolded True] s] show ?thesis using r \<open>gTurn (put_card c g) \<noteq> s\<close>
        by (simp add: auto_follows_def)
    qed
    ultimately show ?thesis by (simp add: trick_for_def hears_Nil)
  next
    case False
    note other = other_card_played [OF g(2) c s False]
    have "auto_waits s g w \<or> auto_played s g w" if "P w" for w using that False turn g(2) by (simp add: P_def auto_follows_def)
    note P = this
    show ?thesis
    proof (cases "gTurn (put_card c g) = s")
      case True
      then have "auto_waits s (put_card c g) w" if "P w" for w using P [OF that] other(1-3) r by blast
      with hears_trick_for [OF _ r kept] g(1) show ?thesis by (auto intro: hears_mono)
    next
      case mine: False
      then have "auto_follows s (put_card c g) w" if "P w" for w using P [OF that] other(1-2) r by (simp add: auto_follows_def)
      with mine show ?thesis by (simp add: trick_for_def hears_Nil)
    qed
  qed
  show "auto_settled s (put_card c g) w" if "length (gTable g) = 3" "P w"
  proof (cases "t = s")
    case True
    have "auto_asked s g w" "sent_card c n w" using that(2) True turn g(2) by (simp_all add: P_def auto_follows_def)
    with own_card_played(2) [OF g c [unfolded True] s] show ?thesis by blast
  next
    case False
    then have "auto_waits s g w \<or> auto_played s g w" using that(2) turn g(2) by (simp add: P_def auto_follows_def)
    with other_card_played(4) [OF g(2) c s False that(1)] show ?thesis by blast
  qed
qed

lemma hears_move:
  assumes g: "fair (gScenario g)" "in_round g" "deal_kept g" and c: "gLegal t n c g" and s: "real_side s"
    and after: "game_inv (spec_move c g)" "deal_kept (spec_move c g)"
  shows "hears ord (\<lambda>w. auto_follows s g w \<and> (t = s \<longrightarrow> sent_card c n w))
    (for_side s (spec_msgs c g)) (auto_follows s (spec_move c g))"
proof -
  let ?P = "\<lambda>w. auto_follows s g w \<and> (t = s \<longrightarrow> sent_card c n w)" and ?g = "put_card c g"
  have turn: "gTurn g = t" "c \<in> set (gHands g t)" using c by (auto simp: gLegal_def legal_move_def)
  then have put: "deal_kept ?g" using deal_kept_put [OF g(3)] in_round_turn [OF g(2)] by simp
  note card = hears_card [OF g c s put]
  have fair: "fair (gScenario ?g)" "fair (gScenario (spec_move c g))" using g(1) after(1) by (simp_all add: game_inv_def)
  have taken: "hears ord ?P [taken_job ?g] (auto_waits s (next_trick ?g))" if "trick_full ?g"
  proof -
    have three: "length (gTable g) = 3" using that by (simp add: trick_full_def)
    show ?thesis
      by (rule hears_mono [OF hears_taken [OF fair(1) that put s]]) (use card(2) [OF three] in \<open>blast+\<close>)
  qed
  have scores: "hears ord (auto_waits s (next_trick ?g)) (score_jobs (next_trick ?g)) (at_rest AFTER_TOTAL)"
    by (rule hears_scores) (simp add: auto_waits_def at_rest_def)
  from g(2) c s show ?thesis
  proof (cases rule: spec_msgs_for_side)
    case card: card
    with hears_card(1) [OF g c s put] show ?thesis by simp
  next
    case trick
    then have "in_round (next_trick ?g)" using after(1) by (auto simp: game_inv_def game_over_def)
    with trick hears_Cons [OF taken hears_trick_for] fair after show ?thesis by simp
  next
    case last
    then have "\<not> in_round (spec_move c g)" by (simp add: in_round_def round_started_def)
    then have "auto_follows s (spec_move c g) w" if "at_rest AFTER_TOTAL w" for w
      using that by (simp add: auto_follows_def at_rest_def)
    with hears_Cons [OF taken [OF last(1)] scores] last show ?thesis by (auto intro: hears_mono)
  next
    case round
    have new: "gWon (spec_move c g) = []" "gHands (spec_move c g) s = deal_of (spec_move c g) s"
      using round(2) by (simp_all add: deal_round_hands)
        (cases "gScenario g ! gRound (close_round (next_trick ?g))", simp add: deal_round_def)
    then have "in_round (spec_move c g)" using after(1) by (auto simp: game_inv_def game_over_def TRICKS_PER_ROUND_def)
    with hears_Cons [OF taken [OF round(1)] hears_append [OF scores hears_round]] fair after new s round show ?thesis by simp
  qed
qed

end
