(* ===== verification/Auto_Play.thy ===== *)
theory Auto_Play
  imports Auto_Follow Sample_Game
begin

text \<open>
  Automatic players in a game: one at a table with arbitrary others, and four among themselves. The
  messages of the specified game reach each client in arbitrary pieces.
\<close>

section \<open>What reaches a client\<close>

text \<open>The client's loop over some division of the text of the messages into reads ends with \<open>r\<close> in \<open>w'\<close>.\<close>

definition delivered :: "side list \<Rightarrow> send_job list \<Rightarrow> player_auto client \<Rightarrow> unit res \<Rightarrow> player_auto client \<Rightarrow> bool" where
  "delivered ord js w r w' \<longleftrightarrow>
     (\<exists>css. concat css = concat (map (genMsg ord) js) \<and> client_loop auto_client (map tcp_chunk css) w = (r, w'))"

definition readable :: "side list \<Rightarrow> send_job list \<Rightarrow> bool" where
  "readable ord js \<longleftrightarrow> (\<forall>j \<in> set js. server_job ord j \<and> \<not> is_busy j)"

lemma readable_simps [simp]:
  "readable ord []" "readable ord (j # js) = (server_job ord j \<and> \<not> is_busy j \<and> readable ord js)"
  "readable ord (xs @ ys) = (readable ord xs \<and> readable ord ys)"
  by (auto simp: readable_def)

lemma delivered_hears:
  assumes "hears ord P js Q" and "readable ord js" and "P w" and "listening w" and "delivered ord js w r w'"
  shows "r = Inr () \<and> Q w'"
proof -
  obtain css where css: "concat css = concat (map (genMsg ord) js)" "client_loop auto_client (map tcp_chunk css) w = (r, w')"
    using assms(5) by (auto simp: delivered_def)
  have "client_loop auto_client (map tcp_chunk css) w = foldA (message_step auto_client ord) js w"
    using auto_player.stream_in_chunks [OF _ _ _ css(1)] assms(2,4) by (simp add: readable_def listening_def)
  with css(2) hearsD [OF assms(1,3)] show ?thesis by auto
qed

lemma delivered_exists: "\<exists>r w'. delivered ord js w r w'"
proof -
  obtain r w' where "client_loop auto_client (map tcp_chunk [concat (map (genMsg ord) js)]) w = (r, w')"
    by (cases "client_loop auto_client (map tcp_chunk [concat (map (genMsg ord) js)]) w")
  then show ?thesis unfolding delivered_def by (intro exI [of _ r] exI [of _ w'] exI [of _ "[concat (map (genMsg ord) js)]"]) simp
qed

lemma follows_listening: "auto_follows s g w \<Longrightarrow> listening w"
  by (auto simp: auto_follows_def auto_asked_def auto_waits_def auto_played_def split: if_splits)

section \<open>The messages of a game can be read\<close>

lemma trick_for_readable:
  "fair (gScenario g) \<Longrightarrow> in_round g \<Longrightarrow> deal_kept g \<Longrightarrow> readable ord (trick_for s g)"
  by (simp add: trick_for_def trick_job_ok del: job_ok.simps)

lemma deal_for_readable:
  assumes "fair (gScenario g)" and "in_round g" and "deal_kept g" and "real_side s"
  shows "readable ord (deal_job s g # trick_for s g)"
proof -
  have "server_job ord (deal_job s g)"
    using deal_job_ok [OF assms(1) _ _ assms(4)] assms(2) in_round_turn by (simp add: in_round_def)
  then show ?thesis using trick_for_readable [OF assms(1-3)] by (simp add: deal_job_def)
qed

lemma taken_jobs_readable:
  assumes "fair (gScenario g)" and "in_round g"
  shows "readable ord (taken_jobs (gWon g))"
proof -
  have started: "round_started g" "cards_ok g" "won_ok g" "length (gWon g) < TRICKS_PER_ROUND"
    using assms(2) by (simp_all add: in_round_def seats_ok_def)
  have "mset (all_cards (gHands g) @ gTable g @ won_cards g) = mset deck"
    using started(2) deal_deck(1) [OF assms(1) started(1)] by (simp add: cards_ok_def ac_simps)
  then have "set (all_cards (gHands g) @ gTable g @ won_cards g) = set deck" by (rule mset_eq_setD)
  then have cards: "\<forall>x \<in> set (won_cards g). game_card x" by (auto simp: set_deck)
  have "server_job ord (SendJobTaken (fst (gWon g ! i)) (snd (gWon g ! i)) (int (Suc i)))" if i: "i < length (gWon g)" for i
  proof -
    have u: "gWon g ! i \<in> set (gWon g)" using i by simp
    then have "length (fst (gWon g ! i)) = 4" "real_side (snd (gWon g ! i))" using started(3) by (auto simp: won_ok_def)
    with u cards i started(4) show ?thesis by (auto simp: server_job_def)
  qed
  then show ?thesis by (auto simp: readable_def taken_jobs_def)
qed

lemma catch_up_readable:
  assumes "fair (gScenario g)" and "in_round g" and "deal_kept g" and "real_side s"
  shows "readable ord (catch_up_jobs s g)"
  using deal_for_readable [OF assms] taken_jobs_readable [OF assms(1,2)] by (simp add: catch_up_jobs_def)

lemma move_readable:
  assumes "mset ord = mset sides" and inv: "game_inv g" "in_round g" "deal_kept g" "points_ok g"
    and small: "length (gScenario g) \<le> 1000000" and c: "gLegal t n c g" and s: "real_side s"
    and after: "game_inv (spec_move c g)" "deal_kept (spec_move c g)"
  shows "readable ord (for_side s (spec_msgs c g))"
proof -
  let ?g = "put_card c g"
  have turn: "gTurn g = t" "c \<in> set (gHands g t)" using c by (auto simp: gLegal_def legal_move_def)
  then have put: "deal_kept ?g" using deal_kept_put [OF inv(3)] in_round_turn [OF inv(2)] by simp
  have fair: "fair (gScenario ?g)" "fair (gScenario (spec_move c g))" using inv(1) after(1) by (simp_all add: game_inv_def)
  have taken: "server_job ord (taken_job ?g) \<and> \<not> is_busy (taken_job ?g)" if "trick_full ?g"
    using taken_job_ok [OF fair(1) that put] by (simp add: taken_job_def)
  have scores: "readable ord (score_jobs (next_trick ?g))" if "trick_full ?g" "Suc (length (gWon g)) = TRICKS_PER_ROUND"
    using round_scores_ok [OF assms(1) inv(1,4) small that(1) refl that(2)]
    by (auto simp: readable_def score_jobs_def)
  from inv(2) c s show ?thesis
  proof (cases rule: spec_msgs_for_side)
    case card
    with trick_for_readable [OF fair(1) _ put] show ?thesis by simp
  next
    case trick
    then have "in_round (spec_move c g)" using after(1) by (auto simp: game_inv_def game_over_def)
    with trick taken trick_for_readable [OF fair(2) _ after(2)] show ?thesis by simp
  next
    case last
    with taken scores show ?thesis by simp
  next
    case round
    then have "gWon (spec_move c g) = []"
      by (cases "gScenario g ! gRound (close_round (next_trick ?g))") (simp add: deal_round_def)
    then have "in_round (spec_move c g)" using after(1) by (auto simp: game_inv_def game_over_def TRICKS_PER_ROUND_def)
    with round taken scores deal_for_readable [OF fair(2) _ after(2) s] show ?thesis by simp
  qed
qed

section \<open>One automatic player\<close>

text \<open>The conditions under which scores and sides can be read: a score of an \<^verbatim>\<open>int\<close>, all four sides.\<close>

definition fair_table :: "side list \<Rightarrow> game_scenario \<Rightarrow> bool" where
  "fair_table ord sc \<longleftrightarrow> mset ord = mset sides \<and> fair sc \<and> sc \<noteq> [] \<and> length sc \<le> 1000000"

lemma plays_facts:
  assumes "fair_table ord sc" and "plays sc g"
  shows "game_inv g" and "gScenario g = sc" and "deal_kept g" and "points_ok g" and "fair (gScenario g)"
    and "mset ord = mset sides" and "length (gScenario g) \<le> 1000000"
  using plays_inv [OF assms(2)] plays_dealt [OF assms(2)] assms(1) by (auto simp: fair_table_def)

lemma seat_join:
  assumes t: "fair_table ord sc" "plays sc g" "\<not> game_over g" "real_side s"
    and "at_rest PRE w" and "delivered ord (catch_up_jobs s g) w r w'"
  shows "r = Inr () \<and> auto_follows s g w'"
proof -
  note g = plays_facts [OF t(1,2)]
  have "in_round g" using g(1) t(3) by (simp add: game_inv_def)
  note round = g(5) this g(3) t(4)
  have "listening w" using assms(5) by (simp add: at_rest_def)
  from delivered_hears [OF hears_join [OF round] catch_up_readable [OF round] assms(5) this assms(6)] show ?thesis .
qed

lemma seat_move:
  assumes t: "fair_table ord sc" "plays sc g" "gLegal t n c g" "real_side s"
    and w: "auto_follows s g w" "t = s \<longrightarrow> sent_card c n w"
    and "delivered ord (for_side s (spec_msgs c g)) w r w'"
  shows "r = Inr () \<and> auto_follows s (spec_move c g) w'"
proof -
  note g = plays_facts [OF t(1,2)] and g' = plays_facts [OF t(1) plays.move [OF t(2,3)]]
  have "fair sc" "sc \<noteq> []" using t(1) by (simp_all add: fair_table_def)
  from plays_round(1) [OF t(2) this t(3)] have round: "in_round g" .
  from delivered_hears [OF hears_move [OF g(5) round g(3) t(3,4) g'(1,3)]
      move_readable [OF g(6,1) round g(3,4,7) t(3,4) g'(1,3)] _ follows_listening [OF w(1)] assms(7)] w
  show ?thesis by blast
qed

lemma seat_again:
  assumes t: "fair_table ord sc" "plays sc g" "\<not> game_over g" "gTurn g = s"
    and w: "auto_follows s g w" and "delivered ord [SendJobTrick (gTable g) (gTrickNo g)] w r w'"
  shows "r = Inr () \<and> auto_follows s g w'"
proof -
  note g = plays_facts [OF t(1,2)]
  have round: "in_round g" using g(1) t(3) by (simp add: game_inv_def)
  then have asked: "auto_follows s g v = auto_asked s g v" for v using t(4) by (simp add: auto_follows_def)
  have "readable ord [SendJobTrick (gTable g) (gTrickNo g)]"
    using trick_job_ok [OF g(5) round g(3)] by simp
  from delivered_hears [OF hears_again this _ follows_listening [OF w] assms(6)] w asked show ?thesis by blast
qed

text \<open>
  The history of one client at a table, \<open>r\<close> being what its loop returns: it takes the side in any
  state of the game, the moves go on (its own with the card it sent last), and the server may
  repeat a request.
\<close>

inductive seat_run :: "side list \<Rightarrow> game_scenario \<Rightarrow> side \<Rightarrow> game \<Rightarrow> unit res \<Rightarrow> player_auto client \<Rightarrow> bool" for ord sc s where
  joins: "plays sc g \<Longrightarrow> \<not> game_over g \<Longrightarrow> at_rest PRE w \<Longrightarrow> delivered ord (catch_up_jobs s g) w r w' \<Longrightarrow>
    seat_run ord sc s g r w'"
| moves: "seat_run ord sc s g (Inr ()) w \<Longrightarrow> gLegal t n c g \<Longrightarrow> (t = s \<longrightarrow> sent_card c n w) \<Longrightarrow>
    delivered ord (for_side s (spec_msgs c g)) w r w' \<Longrightarrow> seat_run ord sc s (spec_move c g) r w'"
| again: "seat_run ord sc s g (Inr ()) w \<Longrightarrow> \<not> game_over g \<Longrightarrow> gTurn g = s \<Longrightarrow>
    delivered ord [SendJobTrick (gTable g) (gTrickNo g)] w r w' \<Longrightarrow> seat_run ord sc s g r w'"

inductive_cases seat_run_cases: "seat_run ord sc s g r w"

lemma seat_run_follows:
  "seat_run ord sc s g r w \<Longrightarrow> fair_table ord sc \<Longrightarrow> real_side s \<Longrightarrow> plays sc g \<and> r = Inr () \<and> auto_follows s g w"
proof (induction rule: seat_run.induct)
  case (joins g w r w')
  with seat_join show ?case by blast
next
  case (moves g w t n c r w')
  then have "plays sc (spec_move c g)" using plays.move by blast
  with moves seat_move show ?case by blast
next
  case (again g w r w')
  with seat_again show ?case by blast
qed

lemma follows_end:
  assumes "fair_table ord sc" and "plays sc g" and "auto_follows s g w"
  shows "if game_over g then stage w = AFTER_TOTAL
    else gTurn g = s \<longrightarrow> (\<exists>c. gLegal s (gTrickNo g) c g \<and> sent_card c (gTrickNo g) w)"
proof -
  note g = plays_facts [OF assms(1,2)]
  have "game_over g \<Longrightarrow> \<not> in_round g" by (auto simp: game_over_def in_round_def round_started_def)
  with g(1) assms(3) show ?thesis by (auto simp: game_inv_def auto_follows_def auto_asked_def)
qed

text \<open>C8: An automatic player who takes a side in any state of the game, and whatever the others play,
  follows the game to its end: its client never fails on what it is sent, in whatever pieces it comes;
  whenever its side is to move, the last message it has sent is a card the rules allow, for the current
  trick; and when the game is over its client is in the stage in which the end of the connection is
  no error. A repeated request does not disturb it.\<close>

theorem auto_player_follows:
  assumes "fair_table ord sc" and "real_side s" and "seat_run ord sc s g r w"
  shows "r = Inr () \<and> (if game_over g then stage w = AFTER_TOTAL
    else gTurn g = s \<longrightarrow> (\<exists>c. gLegal s (gTrickNo g) c g \<and> sent_card c (gTrickNo g) w))"
  using seat_run_follows [OF assms(3,1,2)] follows_end [OF assms(1)] by blast

section \<open>Four automatic players\<close>

text \<open>
  The game and the four clients: the cards are dealt to clients that have been let in, and a turn is
  the card the client of the side to move has sent, with what each side is sent for it.
\<close>

type_synonym seats = "side \<Rightarrow> player_auto client"

definition table_dealt :: "side list \<Rightarrow> game_scenario \<Rightarrow> seats \<Rightarrow> seats \<Rightarrow> bool" where
  "table_dealt ord sc ws0 ws \<longleftrightarrow>
     (\<forall>u. real_side u \<longrightarrow> at_rest PRE (ws0 u) \<and> delivered ord (catch_up_jobs u (start_game sc)) (ws0 u) (Inr ()) (ws u))"

inductive table_step :: "side list \<Rightarrow> game \<times> seats \<Rightarrow> game \<times> seats \<Rightarrow> bool" for ord where
  turn: "gLegal t n c g \<Longrightarrow> sent_card c n (ws t) \<Longrightarrow>
    (\<forall>u. real_side u \<longrightarrow> delivered ord (for_side u (spec_msgs c g)) (ws u) (Inr ()) (ws' u)) \<Longrightarrow>
    table_step ord (g, ws) (spec_move c g, ws')"

inductive_cases table_step_cases: "table_step ord (g, ws) y"

definition table_ok :: "game_scenario \<Rightarrow> game \<times> seats \<Rightarrow> bool" where
  "table_ok sc x \<longleftrightarrow> plays sc (fst x) \<and> (\<forall>u. real_side u \<longrightarrow> auto_follows u (fst x) (snd x u))"

lemma table_dealt_ok:
  assumes "fair_table ord sc" and "table_dealt ord sc ws0 ws"
  shows "table_ok sc (start_game sc, ws)"
proof -
  have "cards_left (start_game sc) \<noteq> 0"
    using assms(1) by (cases "sc ! 0") (simp add: fair_table_def cards_left_def start_game_def deal_round_def TRICKS_PER_ROUND_def)
  then have more: "\<not> game_over (start_game sc)" by (auto simp: game_over_def cards_left_def)
  from seat_join [OF assms(1) plays.start more] assms(2) show ?thesis
    by (auto simp: table_ok_def table_dealt_def intro: plays.start)
qed

lemma table_step_ok:
  assumes "fair_table ord sc" and "table_step ord x y" and "table_ok sc x"
  shows "table_ok sc y"
  using assms(2,3)
proof (cases rule: table_step.cases)
  case (turn t n c g ws ws')
  then have g: "plays sc g" "\<forall>u. real_side u \<longrightarrow> auto_follows u g (ws u)" using assms(3) by (simp_all add: table_ok_def)
  have "auto_follows u (spec_move c g) (ws' u)" if u: "real_side u" for u
    using seat_move [OF assms(1) g(1) turn(3) u, of "ws u" "Inr ()" "ws' u"] g(2) turn(4,5) u by blast
  with plays.move [OF g(1) turn(3)] turn show ?thesis by (simp add: table_ok_def)
qed

lemma table_runs_ok:
  "(table_step ord)\<^sup>*\<^sup>* x y \<Longrightarrow> fair_table ord sc \<Longrightarrow> table_ok sc x \<Longrightarrow> table_ok sc y"
  by (induction rule: rtranclp_induct) (auto intro: table_step_ok)

lemma table_goes_on:
  assumes "fair_table ord sc" and "table_ok sc (g, ws)" and "\<not> game_over g"
  shows "\<exists>g' ws'. table_step ord (g, ws) (g', ws') \<and> cards_left g = Suc (cards_left g')"
proof -
  have plays: "plays sc g" and follow: "\<forall>u. real_side u \<longrightarrow> auto_follows u g (ws u)"
    using assms(2) by (simp_all add: table_ok_def)
  note g = plays_facts [OF assms(1) plays]
  have round: "in_round g" using g(1) assms(3) by (simp add: game_inv_def)
  let ?t = "gTurn g" and ?n = "gTrickNo g"
  have "real_side ?t" by (rule in_round_turn [OF round])
  then obtain c where c: "gLegal ?t ?n c g" "sent_card c ?n (ws ?t)"
    using follows_end [OF assms(1) plays, of ?t "ws ?t"] follow assms(3) by auto
  have "\<exists>w'. real_side u \<longrightarrow> delivered ord (for_side u (spec_msgs c g)) (ws u) (Inr ()) w'" for u
  proof -
    obtain r w' where d: "delivered ord (for_side u (spec_msgs c g)) (ws u) r w'" using delivered_exists by blast
    have "?t = u \<longrightarrow> sent_card c ?n (ws u)" using c(2) by blast
    with seat_move [OF assms(1) plays c(1) _ _ this d] follow d show ?thesis by blast
  qed
  then obtain ws' where "\<forall>u. real_side u \<longrightarrow> delivered ord (for_side u (spec_msgs c g)) (ws u) (Inr ()) (ws' u)" by metis
  then have "table_step ord (g, ws) (spec_move c g, ws')" by (rule table_step.turn [where ws = ws, OF c])
  with cards_left_move [OF round c(1)] show ?thesis by blast
qed

lemma table_ends:
  assumes "fair_table ord sc"
  shows "table_ok sc (g, ws) \<Longrightarrow> \<exists>y. (table_step ord ^^ cards_left g) (g, ws) y \<and> game_over (fst y)"
proof (induction "cards_left g" arbitrary: g ws)
  case 0
  then have "game_inv g" using plays_facts(1) [OF assms] by (simp add: table_ok_def)
  with 0 cards_left_over show ?case by auto
next
  case (Suc k)
  then have "game_inv g" using plays_facts(1) [OF assms] by (simp add: table_ok_def)
  with Suc(2) cards_left_over have "\<not> game_over g" by force
  with table_goes_on [OF assms Suc.prems] obtain g' ws' where
    step: "table_step ord (g, ws) (g', ws')" "cards_left g = Suc (cards_left g')" by blast
  then have "k = cards_left g'" using Suc(2) by simp
  from Suc(1) [OF this table_step_ok [OF assms step(1) Suc.prems]]
  obtain y where y: "(table_step ord ^^ cards_left g') (g', ws') y" "game_over (fst y)" by blast
  have "(table_step ord ^^ Suc (cards_left g')) (g, ws) y" by (rule relpowp_Suc_I2) (fact step(1), fact y(1))
  with y(2) step(2) show ?case by metis
qed

section \<open>The sample game\<close>

lemma sample_table: "fair_table sides simple_game"
  using simple_fair by (simp add: fair_table_def simple_game_def)

lemma at_rest_new [simp]: "at_rest PRE (new_client (PlayerAuto s) s)"
  by (simp add: at_rest_def listening_def PlayerAuto_def)

lemma sample_more: "\<not> game_over (start_game simple_game)"
  by (simp add: game_over_def start_game_def simple_game_def deal_round_def)

text \<open>West, whose turn it is first, joins: he has sent a legal card.\<close>

theorem auto_player_follows_witness:
  "\<exists>w c. delivered sides (catch_up_jobs W (start_game simple_game)) (new_client (PlayerAuto W) W) (Inr ()) w \<and>
     gLegal W 1 c (start_game simple_game) \<and> sent_card c 1 w"
proof -
  let ?g = "start_game simple_game"
  obtain r w where d: "delivered sides (catch_up_jobs W ?g) (new_client (PlayerAuto W) W) r w"
    using delivered_exists by blast
  have "seat_run sides simple_game W ?g r w"
    by (rule seat_run.joins [OF plays.start sample_more at_rest_new d])
  from auto_player_follows [OF sample_table _ this] sample_more d show ?thesis
    by (auto simp: start_game_def simple_game_def deal_round_def gTrickNo_def)
qed

lemma sample_dealt: "\<exists>ws. table_dealt sides simple_game (\<lambda>u. new_client (PlayerAuto u) u) ws"
proof -
  let ?ws0 = "\<lambda>u. new_client (PlayerAuto u) u"
  have "\<exists>w'. real_side u \<longrightarrow> delivered sides (catch_up_jobs u (start_game simple_game)) (?ws0 u) (Inr ()) w'" for u
    using delivered_exists seat_join [OF sample_table plays.start sample_more _ at_rest_new] by metis
  then show ?thesis unfolding table_dealt_def using at_rest_new by metis
qed

section \<open>The end of the connection\<close>

text \<open>The socket is ready and at its end.\<close>

definition closed_turn :: client_turn where
  "closed_turn = (tcp_chunk '''')\<lparr>tcpEnd := Read_eof\<rparr>"

lemma closed_loop:
  assumes "listening w"
  shows "client_loop auto_client (closed_turn # js) w =
    (Inr (), w\<lparr>exitFlag := (if stage w = AFTER_TOTAL then 0 else 1), cTerminate := True\<rparr>)"
proof -
  have "client_step auto_client closed_turn w =
      (Inr (), w\<lparr>exitFlag := (if stage w = AFTER_TOTAL then 0 else 1), cTerminate := True\<rparr>)"
    by (simp add: client_step_def closed_turn_def tcp_chunk_def tcp_turn_def bindA_def modifyA_def returnA_def)
  then have step: "thenA (client_step auto_client closed_turn) (client_loop auto_client js) w =
      client_loop auto_client js (w\<lparr>exitFlag := (if stage w = AFTER_TOTAL then 0 else 1), cTerminate := True\<rparr>)"
    by (simp add: thenA_def bindA_def)
  have stop: "client_loop auto_client js v = (Inr (), v)" if "cTerminate v" for v
    using that by (cases js) (simp_all add: bindA_def readA_def returnA_def)
  have "client_loop auto_client (closed_turn # js) w =
      thenA (client_step auto_client closed_turn) (client_loop auto_client js) w"
    using assms by (simp add: listening_def bindA_def readA_def)
  then show ?thesis unfolding step by (simp add: stop)
qed

lemma follows_stage:
  assumes "fair_table ord sc" and "plays sc g" and "auto_follows s g w"
  shows "stage w = AFTER_TOTAL \<longleftrightarrow> game_over g"
proof (cases "game_over g")
  case True
  then show ?thesis using follows_end [OF assms] by simp
next
  case False
  then have "in_round g" using plays_facts(1) [OF assms(1,2)] by (simp add: game_inv_def)
  with assms(3) False show ?thesis
    by (auto simp: auto_follows_def auto_asked_def auto_waits_def auto_played_def split: if_splits)
qed



end
