(* ===== verification/Whole_Game.thy ===== *)
theory Whole_Game
  imports Server_End Auto_Play
begin

text \<open>
  The server with four automatic players. A step takes the line that the client of the side to move
  has sent through the worker that serves it and into the game, and what the server has queued for
  each client into that client. The steps simulate those of the table of the specified game, and
  every one of these is simulated.
\<close>

section \<open>The system\<close>

text \<open>What the queue of each worker has grown by.\<close>

definition new_jobs :: "server \<Rightarrow> server \<Rightarrow> side \<Rightarrow> send_job list" where
  "new_jobs s s' u = drop (length (inbox (workerMgr s) (act s u))) (inbox (workerMgr s') (act s u))"

inductive system_step :: "side list \<Rightarrow> server \<times> seats \<Rightarrow> server \<times> seats \<Rightarrow> bool" for ord where
  turn: "\<not> exiting s \<Longrightarrow> wid w = act s (nextMove s) \<Longrightarrow> kind w = IOWorkerHandler \<Longrightarrow> reading w \<Longrightarrow>
    sentMsgs (ws (nextMove s)) \<noteq> [] \<Longrightarrow> rxBytes n = last (sentMsgs (ws (nextMove s))) \<Longrightarrow>
    socketAction (server_ctx no_write_error ord' fds now (wid w)) i (w, n, s) = Some (Inr (w', n', s')) \<Longrightarrow>
    (\<forall>u. real_side u \<longrightarrow> delivered ord (new_jobs s s' u) (ws u) (Inr ()) (ws' u)) \<Longrightarrow>
    system_step ord (s, ws) (s', ws')"

inductive_cases system_step_cases: "system_step ord (s, ws) y"

definition system_ok :: "game_scenario \<Rightarrow> server \<times> seats \<Rightarrow> bool" where
  "system_ok sc x \<longleftrightarrow> runs sc (fst x) \<and> playersConnected (fst x) = 4 \<and>
     (exiting (fst x) \<longleftrightarrow> game_over (game_of (fst x))) \<and> table_ok sc (game_of (fst x), snd x) \<and>
     (game_over (game_of (fst x)) \<longrightarrow> (\<forall>jx. alive jx (fst x) \<longrightarrow> killed (workerMgr (fst x)) jx))"

section \<open>A turn\<close>

text \<open>The card on its way: whatever worker serves the side to move, its line makes the move.\<close>

lemma system_card:
  assumes t: "fair_table ord sc" and ok: "system_ok sc (s, ws)" and more: "\<not> game_over (game_of s)"
    and w: "wid w = act s (nextMove s)" "kind w = IOWorkerHandler" "reading w"
    and rx: "rxBytes n = last (sentMsgs (ws (nextMove s)))"
  shows "\<exists>c w' n' s'. socketAction (server_ctx no_write_error ord' fds now (wid w)) i (w, n, s) = Some (Inr (w', n', s')) \<and>
    gLegal (nextMove s) (gTrickNo (game_of s)) c (game_of s) \<and> sent_card c (gTrickNo (game_of s)) (ws (nextMove s)) \<and>
    runs sc s' \<and> playersConnected s' = 4 \<and> (exiting s' \<longleftrightarrow> game_over (game_of s')) \<and> game_of s' = spec_move c (game_of s) \<and>
    roles (workerMgr s') = roles (workerMgr s) \<and> exitCode s' = exitCode s \<and>
    (game_over (game_of s') \<longrightarrow> (\<forall>jx. alive jx s' \<longrightarrow> killed (workerMgr s') jx)) \<and>
    (\<forall>u. real_side u \<longrightarrow> new_jobs s s' u = for_side u (spec_msgs c (game_of s)))"
proof -
  let ?g = "game_of s" and ?t = "nextMove s"
  have run: "runs sc s" and four: "playersConnected s = 4"
    and follow: "\<forall>u. real_side u \<longrightarrow> auto_follows u ?g (ws u)" and plays: "plays sc ?g"
    using ok by (simp_all add: system_ok_def table_ok_def)
  have sc: "fair sc" "sc \<noteq> []" using t by (simp_all add: fair_table_def)
  have inv: "srv_inv sc s" and core: "core_inv sc s" using runs_inv [OF run sc] runs_core [OF run sc] by simp_all
  have real: "real_side ?t" by (rule core_turn [OF core])
  then obtain c where c: "gLegal ?t (gTrickNo ?g) c ?g" "sent_card c (gTrickNo ?g) (ws ?t)"
    using follows_end [OF t plays, of ?t "ws ?t"] follow more by auto
  note g = plays_facts [OF t plays]
  have round: "in_round ?g" using g(1) more by (simp add: game_inv_def)
  then have started: "round_started ?g" "cards_ok ?g" by (simp_all add: in_round_def)
  have "c \<in> set (gHands ?g ?t)" using c(1) by (auto simp: gLegal_def legal_move_def)
  then have card: "game_card c" using hand_cards(1,6) [OF g(5) started g(3) real] by blast
  have sp: "speaks_for s (wid w) ?t" using seated_speaks [OF core _ real] four w(1) by simp
  have line: "rxBytes n = genMsg ord (SendJobTrick [c] (gTrickNo ?g)) @ []"
    using rx c(2) by (simp add: sent_card_def)
  have good: "good_state sc s" using run sc by (simp add: good_state_def)
  obtain w' n' s' where s': "socketAction (server_ctx no_write_error ord' fds now (wid w)) i (w, n, s) = Some (Inr (w', n', s'))"
    "playerTricked no_write_error (gTrickNo ?g) c (wid w) s = Inr (True, s')" "game_of s' = spec_move c ?g"
    "\<forall>u. real_side u \<longrightarrow> inbox (workerMgr s') (act s u) = inbox (workerMgr s) (act s u) @ for_side u (spec_msgs c ?g)"
    using wire_card [OF good four sp w(2,3) card c(1) line] by blast
  have after: "playersConnected s' = 4 \<and> (exiting s' \<longleftrightarrow> game_over (game_of s'))"
    "roles (workerMgr s') = roles (workerMgr s) \<and> exitCode s' = exitCode s"
    using playerTricked_legal [OF inv four sp game_card_wf [OF card] c(1)] s'(2) four more ok
    by (auto simp: system_ok_def)
  have "killed (workerMgr s') jx" if "game_over (game_of s')" "alive jx s'" for jx
  proof -
    have "\<not> exiting s" using ok more by (simp add: system_ok_def)
    moreover have "alive jx s" using that(2) after(2) by (simp add: alive_def role_is_def)
    ultimately show ?thesis
      using last_card [OF inv four sp game_card_wf [OF card] c(1)] that(1) s'(2,3) by simp
  qed
  moreover have "runs sc s'"
    by (rule runs.event [OF run, of "Ev_trick (gTrickNo ?g) c (wid w)"])
      (use s'(2) sp game_card_wf [OF card] in \<open>auto simp: role_is_def speaks_for_def\<close>)
  ultimately show ?thesis using s' c after by (auto simp: new_jobs_def)
qed

section \<open>Simulation\<close>

lemma no_legal_over: "game_over g \<Longrightarrow> real_side (gTurn g) \<Longrightarrow> \<not> gLegal t n c g"
  using game_over_no_move by (auto simp: gLegal_def)

text \<open>Every turn of the table is one of the system.\<close>

lemma system_simulates:
  assumes t: "fair_table ord sc" and ok: "system_ok sc (s, ws)" and step: "table_step ord (game_of s, ws) (g', ws')"
  shows "\<exists>s'. system_step ord (s, ws) (s', ws') \<and> game_of s' = g' \<and> system_ok sc (s', ws')"
proof -
  let ?g = "game_of s" and ?t = "nextMove s"
  obtain u k d where d: "gLegal u k d ?g" "sent_card d k (ws u)" "g' = spec_move d ?g"
    "\<forall>v. real_side v \<longrightarrow> delivered ord (for_side v (spec_msgs d ?g)) (ws v) (Inr ()) (ws' v)"
    using step by (auto elim: table_step_cases)
  then have u: "u = ?t" "k = gTrickNo ?g" by (simp_all add: gLegal_def)
  have plays: "plays sc ?g" using ok by (simp add: system_ok_def table_ok_def)
  note g = plays_facts [OF t plays]
  have real: "real_side ?t" using game_inv_turn [OF g(1)] by simp
  then have more: "\<not> game_over ?g" using d(1) no_legal_over [of ?g] by auto
  let ?w = "mk_handler 3 (act s ?t) 4 (0, '''') (0, '''') 5 0"
  have w: "wid ?w = act s ?t" "kind ?w = IOWorkerHandler" "reading ?w"
    by (simp_all add: mk_handler_def IOWorker_def reading_def)
  let ?n = "fresh_wire\<lparr>rxBytes := last (sentMsgs (ws ?t))\<rparr>"
  obtain c w' n' s' where s': "socketAction (server_ctx no_write_error ord (0, 0) 0 (wid ?w)) undefined (?w, ?n, s) = Some (Inr (w', n', s'))"
    "gLegal ?t (gTrickNo ?g) c ?g" "sent_card c (gTrickNo ?g) (ws ?t)"
    "runs sc s'" "playersConnected s' = 4" "exiting s' \<longleftrightarrow> game_over (game_of s')" "game_of s' = spec_move c ?g"
    "game_over (game_of s') \<longrightarrow> (\<forall>jx. alive jx s' \<longrightarrow> killed (workerMgr s') jx)"
    "\<forall>v. real_side v \<longrightarrow> new_jobs s s' v = for_side v (spec_msgs c ?g)"
    using system_card [OF t ok more w, of ?n] by fastforce
  have started: "round_started ?g" "cards_ok ?g" using g(1) more by (simp_all add: game_inv_def in_round_def)
  note hand = hand_cards [OF g(5) started g(3) real]
  have "wf_card x" if "gLegal ?t (gTrickNo ?g) x ?g" for x
    using that hand(1,6) by (auto simp: gLegal_def legal_move_def intro: game_card_wf)
  then have "c = d" using sent_card_unique [OF s'(3)] d(1,2) s'(2) u by simp
  moreover have "\<not> exiting s" using ok more by (simp add: system_ok_def)
  ultimately have "system_step ord (s, ws) (s', ws')"
    using s' d w by (intro system_step.turn [of s ?w ws ?n ord "(0, 0)" 0 undefined w' n' s' ord ws']) (simp_all add: sent_card_def)
  moreover have "table_ok sc (g', ws')"
    by (rule table_step_ok [OF t step]) (use ok in \<open>simp add: system_ok_def\<close>)
  ultimately show ?thesis using s' d \<open>c = d\<close> by (auto simp: system_ok_def)
qed

text \<open>And every step of the system is a turn of the table.\<close>

lemma system_refines:
  assumes t: "fair_table ord sc" and ok: "system_ok sc (s, ws)" and step: "system_step ord (s, ws) (s', ws')"
  shows "table_step ord (game_of s, ws) (game_of s', ws') \<and> system_ok sc (s', ws') \<and>
    roles (workerMgr s') = roles (workerMgr s) \<and> exitCode s' = exitCode s"
  using step
proof (cases rule: system_step.cases)
  case (turn w n ord' fds now i w' n')
  then have more: "\<not> game_over (game_of s)" using ok by (simp add: system_ok_def)
  obtain c s2 where c: "s2 = s'" "gLegal (nextMove s) (gTrickNo (game_of s)) c (game_of s)"
    "sent_card c (gTrickNo (game_of s)) (ws (nextMove s))" "runs sc s2" "playersConnected s2 = 4"
    "exiting s2 \<longleftrightarrow> game_over (game_of s2)" "game_of s2 = spec_move c (game_of s)"
    "roles (workerMgr s2) = roles (workerMgr s)" "exitCode s2 = exitCode s"
    "game_over (game_of s2) \<longrightarrow> (\<forall>jx. alive jx s2 \<longrightarrow> killed (workerMgr s2) jx)"
    "\<forall>u. real_side u \<longrightarrow> new_jobs s s2 u = for_side u (spec_msgs c (game_of s))"
    using system_card [OF t ok more, of w n ord' fds now i] turn by auto
  then have step': "table_step ord (game_of s, ws) (game_of s', ws')"
    using turn table_step.turn [of _ _ c "game_of s" ws ord ws'] by auto
  have "table_ok sc (game_of s', ws')"
    by (rule table_step_ok [OF t step']) (use ok in \<open>simp add: system_ok_def\<close>)
  with step' c show ?thesis by (simp add: system_ok_def)
qed

lemma system_reaches:
  "(system_step ord)\<^sup>*\<^sup>* x y \<Longrightarrow> fair_table ord sc \<Longrightarrow> system_ok sc x \<Longrightarrow> system_ok sc y"
proof (induction rule: rtranclp_induct)
  case (step y z)
  obtain s ws s' ws' where "y = (s, ws)" "z = (s', ws')" by (cases y; cases z)
  with step system_refines show ?case by blast
qed

lemma system_simulates_run:
  assumes "fair_table ord sc"
  shows "(table_step ord ^^ k) (game_of s, ws) y \<Longrightarrow> system_ok sc (s, ws) \<Longrightarrow>
    \<exists>s' ws'. (system_step ord ^^ k) (s, ws) (s', ws') \<and> (game_of s', ws') = y \<and> system_ok sc (s', ws')"
proof (induction k arbitrary: s ws)
  case 0
  then show ?case by auto
next
  case (Suc k)
  obtain g1 ws1 where t: "table_step ord (game_of s, ws) (g1, ws1)" "(table_step ord ^^ k) (g1, ws1) y"
    using relpowp_Suc_D2 [OF Suc.prems(1)] by auto
  obtain s1 where s1: "system_step ord (s, ws) (s1, ws1)" "game_of s1 = g1" "system_ok sc (s1, ws1)"
    using system_simulates [OF assms Suc.prems(2) t(1)] by blast
  with Suc.IH [of s1 ws1] t(2) obtain s' ws' where
    r: "(system_step ord ^^ k) (s1, ws1) (s', ws')" "(game_of s', ws') = y" "system_ok sc (s', ws')" by auto
  have "(system_step ord ^^ Suc k) (s, ws) (s', ws')" by (rule relpowp_Suc_I2) (fact s1(1), fact r(1))
  with r show ?case by blast
qed

section \<open>The whole game\<close>

text \<open>A server with four connected players and a fresh game, and clients that have been sent its first deal.\<close>

definition system_start :: "side list \<Rightarrow> game_scenario \<Rightarrow> server \<times> seats \<Rightarrow> bool" where
  "system_start ord sc x \<longleftrightarrow> runs sc (fst x) \<and> playersConnected (fst x) = 4 \<and> \<not> exiting (fst x) \<and>
     game_of (fst x) = start_game sc \<and> (\<exists>ws0. table_dealt ord sc ws0 (snd x))"

lemma system_start_ok:
  assumes "fair_table ord sc" and "system_start ord sc (s, ws)"
  shows "system_ok sc (s, ws)"
proof -
  have ok: "table_ok sc (start_game sc, ws)" using table_dealt_ok [OF assms(1)] assms(2) by (auto simp: system_start_def)
  have "exiting s" if "game_over (game_of s)"
  proof -
    have "core_inv sc s" using runs_core assms by (auto simp: system_start_def fair_table_def)
    then show ?thesis using over_exiting that by blast
  qed
  with ok show ?thesis using assms(2) by (auto simp: system_start_def system_ok_def)
qed

text \<open>C6: A server with four automatic players plays its scenario to the end. From every state the system has come
  to, in whatever pieces the messages have reached the clients, it can go on, and after exactly as
  many lines of the clients as there are cards left the game inside the server is over, the server
  has begun to exit, and every client is in the stage in which the end of the connection is no error.\<close>

theorem whole_game_ends:
  assumes "fair_table ord sc" and "system_start ord sc x" and "(system_step ord)\<^sup>*\<^sup>* x (s, ws)"
  shows "\<exists>s' ws'. (system_step ord ^^ cards_left (game_of s)) (s, ws) (s', ws') \<and> game_over (game_of s') \<and>
    exiting s' \<and> (\<forall>u. real_side u \<longrightarrow> stage (ws' u) = AFTER_TOTAL)"
proof -
  obtain s0 ws0 where "x = (s0, ws0)" by (cases x)
  then have ok: "system_ok sc (s, ws)"
    using system_reaches [OF assms(3,1)] system_start_ok [OF assms(1)] assms(2) by simp
  then have table: "table_ok sc (game_of s, ws)" by (simp add: system_ok_def)
  obtain g y where "(table_step ord ^^ cards_left (game_of s)) (game_of s, ws) (g, y)" "game_over g"
    using table_ends [OF assms(1) table] by auto
  from system_simulates_run [OF assms(1) this(1) ok] this(2) obtain s' ws' where
    r: "(system_step ord ^^ cards_left (game_of s)) (s, ws) (s', ws')" "game_over (game_of s')" "system_ok sc (s', ws')"
    by auto
  then have "plays sc (game_of s')" "\<forall>u. real_side u \<longrightarrow> auto_follows u (game_of s') (ws' u)"
    by (simp_all add: system_ok_def table_ok_def)
  with follows_end [OF assms(1)] r(2) have "\<forall>u. real_side u \<longrightarrow> stage (ws' u) = AFTER_TOTAL" by fastforce
  with r show ?thesis by (auto simp: system_ok_def)
qed

text \<open>C7: The server with its workers and the four clients refines the table: each step of the system (a line
  of the client of the side to move read from its socket, what is queued for each client read from its
  own) is one turn of the specified game with the four clients, and each such turn is a step of the system.\<close>

theorem whole_game_refines:
  assumes "fair_table ord sc" and "system_start ord sc x" and "(system_step ord)\<^sup>*\<^sup>* x (s, ws)"
  shows "(system_step ord (s, ws) (s', ws') \<longrightarrow> table_step ord (game_of s, ws) (game_of s', ws')) \<and>
    (table_step ord (game_of s, ws) (g', ws') \<longrightarrow> (\<exists>s'. system_step ord (s, ws) (s', ws') \<and> game_of s' = g'))"
proof -
  obtain s0 ws0 where "x = (s0, ws0)" by (cases x)
  then have ok: "system_ok sc (s, ws)"
    using system_reaches [OF assms(3,1)] system_start_ok [OF assms(1)] assms(2) by simp
  show ?thesis using system_refines [OF assms(1) ok] system_simulates [OF assms(1) ok] by blast
qed

section \<open>Both programs end\<close>

lemma system_keeps:
  assumes "fair_table ord sc"
  shows "(system_step ord ^^ k) x y \<Longrightarrow> system_ok sc x \<Longrightarrow>
    system_ok sc y \<and> roles (workerMgr (fst y)) = roles (workerMgr (fst x)) \<and> exitCode (fst y) = exitCode (fst x)"
proof (induction k arbitrary: y)
  case (Suc k)
  from Suc.prems(1) obtain z where z: "(system_step ord ^^ k) x z" "system_step ord z y" by (rule relpowp_Suc_E)
  obtain s ws s' ws' where "z = (s, ws)" "y = (s', ws')" by (cases z; cases y)
  with Suc.IH [OF z(1) Suc.prems(2)] system_refines [OF assms] z(2) show ?case by fastforce
qed simp


section \<open>The sample game\<close>

lemma sample_system: "\<exists>s ws. system_start sides simple_game (s, ws) \<and> serving s \<and> exitCode s = 0"
proof -
  obtain s where "runs simple_game s" "\<not> exiting s" "game_of s = start_game simple_game" "serving s" "exitCode s = 0"
    using runs_open [OF simple_nonempty] by blast
  with fill_table [OF _ simple_fair simple_nonempty] obtain s' where
    "runs simple_game s'" "playersConnected s' = 4" "\<not> exiting s'" "game_of s' = start_game simple_game"
    "serving s'" "exitCode s' = 0" by metis
  moreover obtain ws where "table_dealt sides simple_game (\<lambda>u. new_client (PlayerAuto u) u) ws" using sample_dealt by blast
  ultimately show ?thesis unfolding system_start_def by auto
qed

theorem whole_game_ends_witness:
  "\<exists>s ws s' ws'. runs simple_game s \<and> game_of s = start_game simple_game \<and>
    (system_step sides ^^ 52) (s, ws) (s', ws') \<and> game_over (game_of s') \<and> exiting s' \<and> stage (ws' N) = AFTER_TOTAL"
proof -
  obtain s ws where start: "system_start sides simple_game (s, ws)" using sample_system by blast
  then have s: "runs simple_game s" "game_of s = start_game simple_game" by (simp_all add: system_start_def)
  then have "cards_left (game_of s) = 52"
    by (simp add: cards_left_def start_game_def simple_game_def deal_round_def TRICKS_PER_ROUND_def)
  with whole_game_ends [OF sample_table start rtranclp.rtrancl_refl] s show ?thesis by (metis real_side_simps(1))
qed

text \<open>In the sample game the first step of the system plays a card of West.\<close>

theorem whole_game_refines_witness:
  "\<exists>s ws s' ws'. system_step sides (s, ws) (s', ws') \<and>
    table_step sides (start_game simple_game, ws) (game_of s', ws')"
proof -
  obtain s ws where start: "system_start sides simple_game (s, ws)" using sample_system by blast
  then have g: "game_of s = start_game simple_game" by (simp add: system_start_def)
  have "table_ok simple_game (game_of s, ws)"
    using system_start_ok [OF sample_table start] by (simp add: system_ok_def)
  then obtain g' ws' where step: "table_step sides (game_of s, ws) (g', ws')"
    using table_goes_on [OF sample_table] sample_more g by metis
  note refines = whole_game_refines [OF sample_table start rtranclp.rtrancl_refl]
  from refines [THEN conjunct2] step obtain s' where "system_step sides (s, ws) (s', ws')" "game_of s' = g'" by blast
  with step g show ?thesis by auto
qed


end
