(* ===== verification/Session.thy ===== *)
theory Session
  imports Whole_Game
begin

text \<open>
  How a session of four automatic players begins: a client connects and introduces itself, its line is
  read by the worker that serves the connection, and when it is the fourth, all of them are dealt
  their cards; what is queued for the four brings the system into a state in which it starts.
\<close>

section \<open>A client starts\<close>

lemma intro_sent:
  assumes "at_rest PRE w"
  shows "\<exists>v. sendMessage auto_anyMsg (SendJobIntro t) w = (Inr (), v) \<and>
    sentMsgs v = sentMsgs w @ [genMsg [] (SendJobIntro t)] \<and> at_rest PRE v"
proof -
  have "eager w" using assms by (simp add: at_rest_def listening_def)
  moreover have "at_rest PRE (w\<lparr>sentMsgs := ms\<rparr>)" for ms
    using assms by (simp add: at_rest_def listening_def eager_def)
  ultimately show ?thesis by (simp add: send_eager log_auto del: genMsg.simps msg_body.simps)
qed

lemma at_rest_connect:
  "at_rest st (w\<lparr>cProto := p, tcpSock := fd, openSock := b, cOwnAddr := a\<rparr>) = at_rest st w"
  by (simp add: at_rest_def listening_def eager_def)

lemma client_introduces:
  assumes "at_rest PRE w" and "client_start env auto_client w = (Inr (), v)"
  shows "sentMsgs v = sentMsgs w @ [genMsg [] (SendJobIntro (cSide w))] \<and> at_rest PRE v"
proof -
  obtain addr fd own where "getIntAddr (addrInfo env) (snd (cServerAddr w)) (cProto w) (htons (fst (cServerAddr w))) = Inr addr"
    "makeConnection env (family_of addr) = Inr fd" "getAddrStruct (sockName env) (family_of addr) = Inr own" "connectOk env"
    and v: "sendMessage auto_anyMsg (SendJobIntro (cSide w))
      (w\<lparr>cProto := family_of addr, tcpSock := fd, openSock := True, cOwnAddr := own\<rparr>) = (Inr (), v)"
    using assms(2)
    by (auto simp: client_start_def bindA_def thenA_def readA_def liftA_def modifyA_def returnA_def throwA_def
        simp del: genMsg.simps split: prod.splits sum.splits if_splits)
  show ?thesis using intro_sent [of "w\<lparr>cProto := family_of addr, tcpSock := fd, openSock := True, cOwnAddr := own\<rparr>" "cSide w"]
      v assms(1) by (auto simp: at_rest_connect simp del: genMsg.simps)
qed

section \<open>The fourth player\<close>

text \<open>What the queue of the worker that serves a side has grown by.\<close>

definition queued :: "server \<Rightarrow> server \<Rightarrow> side \<Rightarrow> send_job list" where
  "queued s s' u = drop (length (inbox (workerMgr s) (act s' u))) (inbox (workerMgr s') (act s' u))"

lemma first_deal_jobs:
  assumes "real_side u"
  shows "for_side u (deal_msgs (start_game sc) @ trick_msg (start_game sc)) = catch_up_jobs u (start_game sc)"
proof -
  obtain g where g: "start_game sc = deal_round g" by (simp add: start_game_def)
  then have "gWon (start_game sc) = []" by (cases "gScenario g ! gRound g") (simp add: deal_round_def)
  then show ?thesis using for_side_deal [OF assms, of g] g by (simp add: catch_up_jobs_def taken_jobs_def)
qed

text \<open>C9: The beginning of a session. Three players are there and no cards have been dealt. A client that starts
  sends its introduction; the worker that serves its connection reads that line, and the server gives
  it the free side it asks for and deals: the queue of each side's worker has grown by exactly what a
  player needs (his hand, and the table if it is his turn), and four automatic clients that are sent
  these messages, cut into any pieces, are in a state from which the session runs to its end.\<close>

theorem session_starts:
  assumes "fair_table ord sc" and "runs sc s" and "playersConnected s = 3" and "lastDeal s = Map.empty"
    and "game_of s = start_game sc" and "\<not> exiting s" and "roles (workerMgr s) (wid w) = Some SERVING_UNKNOWN"
    and "kind w = IOWorkerHandler" and "reading w" and "real_side (cSide c)" and "activeSides s (cSide c) = Some (- 1)"
    and "at_rest PRE c" and "client_start env auto_client c = (Inr (), c')" and "rxBytes n = last (sentMsgs c')"
  shows "\<exists>w' n' s'. socketAction (server_ctx no_write_error ord' fds now (wid w)) i (w, n, s) = Some (Inr (w', n', s')) \<and>
    rxBytes n' = '''' \<and> at_rest PRE c' \<and> (serving s \<longrightarrow> serving s') \<and> exitCode s' = exitCode s \<and>
    (\<forall>u. real_side u \<longrightarrow> queued s s' u = catch_up_jobs u (start_game sc)) \<and>
    (\<forall>ws0 ws. (\<forall>u. real_side u \<longrightarrow> at_rest PRE (ws0 u) \<and> delivered ord (queued s s' u) (ws0 u) (Inr ()) (ws u)) \<longrightarrow>
      system_start ord sc (s', ws))"
proof -
  have sc: "fair sc" "sc \<noteq> []" using assms(1) by (simp_all add: fair_table_def)
  note inv = runs_inv [OF assms(2) sc]
  obtain s' where s': "playerIntro no_write_error ord' (cSide c) (wid w) s = Inr (True, s')"
    "playersConnected s' = 4" "game_of s' = game_of s" "exiting s' = exiting s" "exitCode s' = exitCode s"
    "roles (workerMgr s') = (roles (workerMgr s))(wid w \<mapsto> SERVING_ACTIVE)"
    "\<forall>u. real_side u \<longrightarrow> inbox (workerMgr s') (act s' u) = inbox (workerMgr s) (act s' u) @
        for_side u (deal_msgs (game_of s) @ trick_msg (game_of s))"
    using first_deal_inbox [OF inv assms(7,10,11,4,3)] by blast
  note c' = client_introduces [OF assms(12,13)]
  have "rxBytes n = genMsg [] (SendJobIntro (cSide c)) @ ''''" using assms(14) c' by simp
  from wire_intro [OF assms(8-10) this s'(1)] obtain w' n' where
    read: "socketAction (server_ctx no_write_error ord' fds now (wid w)) i (w, n, s) = Some (Inr (w', n', s'))"
    "rxBytes n' = ''''" by blast
  have run: "runs sc s'"
    by (rule runs.event [OF assms(2), of "Ev_intro ord' (cSide c) (wid w)"])
      (use s'(1) assms(7,10) in \<open>simp_all add: role_is_def\<close>)
  have jobs: "queued s s' u = catch_up_jobs u (start_game sc)" if "real_side u" for u
    using s'(7) that first_deal_jobs [OF that] assms(5) by (simp add: queued_def)
  have "serving s'" if "serving s"
    by (rule serving_upd [OF that s'(6)]) simp_all
  moreover have "system_start ord sc (s', ws)"
    if "\<forall>u. real_side u \<longrightarrow> at_rest PRE (ws0 u) \<and> delivered ord (queued s s' u) (ws0 u) (Inr ()) (ws u)" for ws0 ws
  proof -
    have "table_dealt ord sc ws0 ws" using that jobs by (simp add: table_dealt_def)
    with run s' assms(5,6) show ?thesis by (auto simp: system_start_def)
  qed
  ultimately show ?thesis using read c' jobs s'(5) by blast
qed

text \<open>The server of the sample game with three players, and a client of North.\<close>

lemma sample_three:
  "\<exists>s ix. runs simple_game s \<and> playersConnected s = 3 \<and> lastDeal s = Map.empty \<and> game_of s = start_game simple_game \<and>
    \<not> exiting s \<and> activeSides s N = Some (- 1) \<and> roles (workerMgr s) ix = Some SERVING_UNKNOWN"
proof -
  note game = simple_fair simple_nonempty
  obtain s0 where s0: "runs simple_game s0" "\<not> exiting s0" "game_of s0 = start_game simple_game"
    "playersConnected s0 = 0" "lastDeal s0 = Map.empty" "activeSides s0 = [W \<mapsto> - 1, E \<mapsto> - 1, S \<mapsto> - 1, N \<mapsto> - 1]"
    using runs_open [OF simple_nonempty] by blast
  obtain s1 a where s1: "runs simple_game s1" "playersConnected s1 = 1" "game_of s1 = game_of s0" "exiting s1 = exiting s0"
    "lastDeal s1 = Map.empty" "activeSides s1 = (activeSides s0)(W \<mapsto> a)"
    using join_step [OF s0(1) game, of W] s0(4-6) by auto
  obtain s2 b where s2: "runs simple_game s2" "playersConnected s2 = 2" "game_of s2 = game_of s0" "exiting s2 = exiting s0"
    "lastDeal s2 = Map.empty" "activeSides s2 = (activeSides s1)(E \<mapsto> b)"
    using join_step [OF s1(1) game, of E] s0(6) s1 by auto
  obtain s3 d where s3: "runs simple_game s3" "playersConnected s3 = 3" "game_of s3 = game_of s0" "exiting s3 = exiting s0"
    "lastDeal s3 = Map.empty" "activeSides s3 = (activeSides s2)(S \<mapsto> d)"
    using join_step [OF s2(1) game, of S] s0(6) s1(6) s2 by auto
  obtain s ix where s: "handle (Ev_connect 0 1 0 0 (0, '''')) s3 = Inr s" "game_of s = game_of s3" "exiting s = exiting s3"
    "roles (workerMgr s) = (roles (workerMgr s3))(ix \<mapsto> SERVING_UNKNOWN)" "activeSides s = activeSides s3"
    "playersConnected s = playersConnected s3" "lastDeal s = lastDeal s3"
    using connect_step [OF runs_inv [OF s3(1) game]] by blast
  have "runs simple_game s" using runs.event [OF s3(1) _ s(1)] by simp
  then show ?thesis using s s3 s2(6) s1(6) s0(2,3,6) by (intro exI [of _ s] exI [of _ ix]) simp
qed

definition home_env :: client_env where
  "home_env = \<lparr>addrInfo = (\<lambda>host fam. Inr [(AF_INET, ''127.0.0.1'')]), sockFd = 3, bindOk = True,
     sockName = (\<lambda>fam. Some (0, ''127.0.0.1'')), connectOk = True\<rparr>"

text \<open>A client of North starts, and the introduction it sends is what the fourth worker of the sample game reads.\<close>

lemma home_start: "\<exists>v. client_start home_env auto_client (new_client (PlayerAuto N) N) = (Inr (), v)"
proof -
  let ?w = "new_client (PlayerAuto N) N"
  have start: "client_start home_env auto_client ?w =
      sendMessage auto_anyMsg (SendJobIntro N) (?w\<lparr>cProto := AF_INET, tcpSock := 3, openSock := True, cOwnAddr := own\<rparr>)"
    if "getAddrStruct (sockName home_env) AF_INET = Inr own" for own
    using that by (simp add: client_start_def home_env_def getIntAddr_def makeConnection_def
        del: genMsg.simps msg_body.simps)
  have "\<exists>own. getAddrStruct (sockName home_env) AF_INET = Inr own" by (simp add: home_env_def getAddrStruct_def)
  then obtain own where own: "getAddrStruct (sockName home_env) AF_INET = Inr own" by blast
  have "at_rest PRE (?w\<lparr>cProto := AF_INET, tcpSock := 3, openSock := True, cOwnAddr := own\<rparr>)"
    by (simp add: at_rest_connect)
  from intro_sent [OF this, of N] show ?thesis by (auto simp: start [OF own] simp del: genMsg.simps)
qed

theorem session_starts_witness:
  "\<exists>s ix c' n w' n' s'. runs simple_game s \<and> playersConnected s = 3 \<and>
    client_start home_env auto_client (new_client (PlayerAuto N) N) = (Inr (), c') \<and>
    socketAction (server_ctx no_write_error sides (7, 8) 0 ix) quiet_turn
      (mk_handler 3 ix 4 (0, '''') (0, '''') 5 0, n, s) = Some (Inr (w', n', s')) \<and>
    queued s s' W = catch_up_jobs W (start_game simple_game)"
proof -
  let ?c = "new_client (PlayerAuto N) N"
  obtain s ix where s: "runs simple_game s" "playersConnected s = 3" "lastDeal s = Map.empty"
    "game_of s = start_game simple_game" "\<not> exiting s" "activeSides s N = Some (- 1)"
    "roles (workerMgr s) ix = Some SERVING_UNKNOWN" using sample_three by blast
  obtain c' where c': "client_start home_env auto_client ?c = (Inr (), c')" using home_start by blast
  let ?h = "mk_handler 3 ix 4 (0, '''') (0, '''') 5 0"
  have h: "kind ?h = IOWorkerHandler" "reading ?h" "wid ?h = ix" by (simp_all add: mk_handler_def IOWorker_def reading_def)
  have side: "cSide ?c = N" by simp
  show ?thesis
    using session_starts [OF sample_table s(1-5), of ?h ?c home_env c' "fresh_wire\<lparr>rxBytes := last (sentMsgs c')\<rparr>"
        sides "(7, 8)" 0 quiet_turn] s h side c' at_rest_new [of N]
    by (simp del: genMsg.simps) (metis real_side_simps)
qed

end
