(* ===== verification/Server_Hangs.thy ===== *)
theory Server_Hangs
  imports Server_End
begin

text \<open>
  Two ways in which the server does not end: a worker that has reported an internal error is never
  erased, although its thread has ended; and a client that is accepted while the server is exiting is
  served by a worker that nobody tells to die. In both the loop of \<^verbatim>\<open>waitForClearing\<close> goes on for ever.
\<close>

section \<open>A worker that does not leave\<close>

text \<open>Any event that is not the worker \<open>ix\<close> calling the exit callback.\<close>

fun exits_as :: "int \<Rightarrow> event \<Rightarrow> bool" where
  "exits_as ix (Ev_exit es jx hw) \<longleftrightarrow> jx = ix"
| "exits_as ix e \<longleftrightarrow> False"

inductive others_step :: "int \<Rightarrow> server \<Rightarrow> server \<Rightarrow> bool" for ix where
  other: "admissible e s \<Longrightarrow> \<not> exits_as ix e \<Longrightarrow> handle e s = Inr s' \<Longrightarrow> others_step ix s s'"

inductive_cases others_step_cases: "others_step ix s s'"

lemma clean_spares:
  assumes "good_state sc s" and "handle Ev_clean s = Inr s'"
  shows "roles (workerMgr s') = roles (workerMgr s)"
proof (cases "waitForClearing (workerMgr s)")
  case (Some r)
  with assms(2) obtain b m' where r: "r = Inr (b, m')" "s' = s\<lparr>workerMgr := clear_join m'\<rparr>"
    by (cases r) auto
  have "pool_inv (workerMgr s)" using assms(1) runs_core core_pool by (auto simp: good_state_def)
  with waitForClearing_step Some r show ?thesis by (simp add: pool_inv_join)
qed (use assms(2) in simp)

lemma handle_spares:
  assumes "good_state sc s" and "\<not> exits_as ix e" and "handle e s = Inr s'"
  shows "spares ix s s'"
proof (cases e)
  case Ev_clean
  with clean_spares [OF assms(1)] assms(3) show ?thesis by (simp add: spares_def)
next
  case (Ev_own jx w)
  then have "roles (workerMgr s') = roles (workerMgr s)"
    using assms(3) by (auto simp: own_step_def split: option.splits)
  then show ?thesis by (simp add: spares_def)
next
  case (Ev_exit es jx hw)
  with assms exit_spares show ?thesis by auto
qed (use assms(3) in \<open>auto intro!: kept_spares dest: playerIntro_kept playerTricked_kept handleWrongMessage_kept
    handleTimeout_kept forwardConnection_kept\<close>)

lemma others_alive:
  "(others_step ix)\<^sup>*\<^sup>* s s' \<Longrightarrow> good_state sc s \<Longrightarrow> alive ix s \<Longrightarrow> good_state sc s' \<and> alive ix s'"
proof (induction rule: rtranclp_induct)
  case (step u v)
  then have u: "good_state sc u" "alive ix u" by simp_all
  from step.hyps(2) obtain e where e: "admissible e u" "\<not> exits_as ix e" "handle e u = Inr v"
    by (rule others_step_cases)
  have "good_state sc v" using good_step [OF u(1) e(1)] e(3) by (metis sum.inject(2))
  moreover have "alive ix v"
    using handle_spares [OF u(1) e(2,3)] u(2) unfolding spares_def alive_def role_is_def
    by (auto split: option.splits)
  ultimately show ?case by simp
qed simp

lemma never_ends:
  assumes "good_state sc s" and "alive ix s" and "(others_step ix)\<^sup>*\<^sup>* s s'"
  shows "run_end s' \<noteq> Some (Inr (Some k, u))"
  using others_alive [OF assms(3,1,2)] served_waits by blast

section \<open>An internal error\<close>

lemma exit_errs_internal:
  assumes "core_inv sc s" and "\<exists>e \<in> set es. errType e = IO_ERR_INTERNAL"
  shows "\<exists>l. exit_errs no_write_error es s = Inr (True, finalized (s\<lparr>sysLog := l, exitCode := 1\<rparr>))"
  using assms
proof (induction es arbitrary: s)
  case (Cons e es)
  let ?s = "s\<lparr>sysLog := sysLog s @ [e]\<rparr>"
  show ?case
  proof (cases "errType e = IO_ERR_INTERNAL")
    case True
    moreover have "finalize no_write_error (?s\<lparr>exitCode := 1\<rparr>) = Inr (finalized (?s\<lparr>exitCode := 1\<rparr>))"
      using op_finalize [of sc "?s\<lparr>exitCode := 1\<rparr>"] Cons.prems(1) by simp
    ultimately show ?thesis by (auto simp: handleSysErr_def sys_err_body_def Let_def)
  next
    case False
    with Cons.IH [of ?s] Cons.prems show ?thesis by (simp add: handleSysErr_def sys_err_body_def Let_def)
  qed
qed simp

lemma exit_internal:
  assumes inv: "srv_inv sc s" and e: "\<exists>e \<in> set es. errType e = IO_ERR_INTERNAL"
  shows "\<exists>s'. grandExitCallback no_write_error es ix hw s = Inr (True, s') \<and> exiting s' \<and> exitCode s' = 1 \<and>
    roles (workerMgr s') = roles (workerMgr s)"
proof -
  have core: "core_inv sc (s\<lparr>gameStateMutex := True\<rparr>)" using inv by (simp add: srv_inv_def)
  obtain l where l: "exit_errs no_write_error es (s\<lparr>gameStateMutex := True\<rparr>) =
      Inr (True, finalized (s\<lparr>gameStateMutex := True, sysLog := l, exitCode := 1\<rparr>))"
    using exit_errs_internal [OF core e] by auto
  let ?s = "(finalized (s\<lparr>gameStateMutex := True, sysLog := l, exitCode := 1\<rparr>))\<lparr>gameStateMutex := False\<rparr>"
  have "grandExitCallback no_write_error es ix hw s = Inr (True, ?s)"
    using inv l by (simp add: grandExitCallback_def with_game_def srv_inv_def del: bindE_eq_Inr exit_errs.simps)
  then show ?thesis by (intro exI [of _ ?s]) simp
qed

text \<open>The thread of a worker whose pipe cannot be read.\<close>

lemma pipe_read_error:
  assumes good: "good_state sc s" and alive: "alive (wid w) s" and go: "\<not> terminate w"
    and i: "pollRes i = Poll_ready" "pipeEnd i = Read_error e" "e \<noteq> EAGAIN" "e \<noteq> EWOULDBLOCK"
  shows "\<exists>w' n' s'. run_loop (server_ctx no_write_error ord fds now (wid w)) (i # js) (w, n, s) = Some (Inr (w', n', s')) \<and>
    terminate w' \<and> good_state sc s' \<and> alive (wid w) s' \<and> exiting s' \<and> exitCode s' = 1"
proof -
  let ?cx = "server_ctx no_write_error ord fds now (wid w)"
  let ?w = "(w\<lparr>nextTimeout := - 1\<rparr>)\<lparr>errs := errs w @ [Err ''read'' e IO_ERR_INTERNAL], terminate := True\<rparr>"
  let ?n = "n\<lparr>rxBytes := rxBytes n @ arrived i\<rparr>"
  have turn: "turn ?cx i (w, n, s) = Some (Inr (?w, ?n, s))"
    using i by (simp add: turn_def ready_part_def handlePipe_def Let_def)
  have inv: "srv_inv sc s" using good runs_inv by (simp add: good_state_def)
  have "\<exists>x \<in> set (errs ?w). errType x = IO_ERR_INTERNAL" by (simp add: Err_def)
  from exit_internal [OF inv this, of "wid w" "hasWork ?w"] obtain s' where s':
    "grandExitCallback no_write_error (errs ?w) (wid w) (hasWork ?w) s = Inr (True, s')"
    "exiting s'" "exitCode s' = 1" "roles (workerMgr s') = roles (workerMgr s)" by blast
  have "exitCb ?cx = grandExitCallback no_write_error" "wid ?w = wid w" by (simp_all add: server_ctx_def)
  with s'(1) have "call_exit ?cx (?w, ?n, s) = Inr (True, ?w\<lparr>terminate := True\<rparr>, ?n, s')"
    unfolding call_exit_def by simp
  then have "run_loop ?cx js (?w, ?n, s) = Some (Inr (?w\<lparr>terminate := True\<rparr>, ?n, s'))" by (cases js) simp_all
  moreover have "alive (wid w) s'" using alive s'(4) by (simp add: alive_def role_is_def)
  moreover have "present (wid w) s" using alive by (auto simp: alive_def present_def role_is_def split: option.splits)
  with good_exit [OF good, of "wid w" "errs ?w" "hasWork ?w"] s'(1) have "good_state sc s'" by (auto simp: yields_def)
  ultimately show ?thesis using turn go s'
    by (intro exI [of _ "?w\<lparr>terminate := True\<rparr>"] exI [of _ ?n] exI [of _ s']) simp
qed

text \<open>C26: An internal error keeps the server from ending. When a worker cannot read its pipe, its thread ends, the
  exit code becomes 1 and the server begins to exit; but the exit callback returns before the worker is
  erased, so whatever the other workers, the clients and the cleaner do from then on, the loop of
  \<open>waitForClearing\<close> does not end and \<open>run\<close> never returns that code.\<close>

theorem internal_error_hangs:
  assumes "fair sc" and "sc \<noteq> []" and "runs sc s" and "role_is (\<lambda>r. r \<noteq> SHUTDOWN) (wid w) s" and "\<not> terminate w"
    and "pollRes i = Poll_ready" and "pipeEnd i = Read_error e" and "e \<noteq> EAGAIN" and "e \<noteq> EWOULDBLOCK"
  shows "\<exists>w' n' s'. run_loop (server_ctx no_write_error ord fds now (wid w)) (i # js) (w, n, s) = Some (Inr (w', n', s')) \<and>
    terminate w' \<and> exiting s' \<and> exitCode s' = 1 \<and>
    (\<forall>s'' k u. (others_step (wid w))\<^sup>*\<^sup>* s' s'' \<longrightarrow> run_end s'' \<noteq> Some (Inr (Some k, u)))"
proof -
  have "good_state sc s" "alive (wid w) s" using assms(1-4) by (simp_all add: good_state_def alive_def)
  from pipe_read_error [OF this assms(5-9), of ord fds now js n] never_ends show ?thesis by blast
qed

lemma fresh_threads:
  "waiting (mk_handler 3 ix 4 (0, '''') (0, '''') 5 0, fresh_wire)" "waiting (mk_connect 3 ix 4 (0, '''') 0, fresh_wire)"
  "wid (mk_handler 3 ix 4 (0, '''') (0, '''') 5 0) = ix" "wid (mk_connect 3 ix 4 (0, '''') 0) = ix"
  "kind (mk_connect 3 ix 4 (0, '''') 0) = IOWorkerConnect" "\<not> terminate (mk_handler 3 ix 4 (0, '''') (0, '''') 5 0)"
  by (simp_all add: waiting_def reading_def mk_handler_def mk_connect_def IOWorker_def fresh_wire_def)

theorem internal_error_hangs_witness:
  "\<exists>s w' n' s'. runs simple_game s \<and>
    run_loop (server_ctx no_write_error sides (7, 8) 0 0) [quiet_turn\<lparr>pipeEnd := Read_error EPIPE\<rparr>]
      (mk_connect 3 0 4 (0, '''') 0, fresh_wire, s) = Some (Inr (w', n', s')) \<and> exitCode s' = 1 \<and>
    run_end s' \<noteq> Some (Inr (Some 1, s'))"
proof -
  let ?w = "mk_connect 3 0 4 (0, '''') 0"
  obtain s where s: "runs simple_game s" "roles (workerMgr s) 0 = Some SERVING_PROXY"
    using runs_open [OF simple_nonempty] by blast
  have w: "role_is (\<lambda>r. r \<noteq> SHUTDOWN) (wid ?w) s" "\<not> terminate ?w"
    using s(2) fresh_threads by (simp_all add: role_is_def waiting_def)
  have i: "pollRes (quiet_turn\<lparr>pipeEnd := Read_error EPIPE\<rparr>) = Poll_ready"
    "pipeEnd (quiet_turn\<lparr>pipeEnd := Read_error EPIPE\<rparr>) = Read_error EPIPE" "EPIPE \<noteq> EAGAIN" "EPIPE \<noteq> EWOULDBLOCK"
    by (simp_all add: quiet_turn_def)
  from internal_error_hangs [OF simple_fair simple_nonempty s(1) w i, of sides "(7, 8)" 0 "[]" fresh_wire] s(1)
  show ?thesis unfolding fresh_threads by blast
qed

section \<open>A client accepted too late\<close>

lemma forward_state:
  assumes "good_state sc s"
  obtains s' jx where "forwardConnection no_write_error True (Inr fds) now fd addr s = Inr ((), s')" "good_state sc s'"
    "roles (workerMgr s) jx = None" "roles (workerMgr s') = (roles (workerMgr s))(jx \<mapsto> SERVING_UNKNOWN)"
    "\<not> killed (workerMgr s') jx" "\<And>ix. ix \<noteq> jx \<Longrightarrow> killed (workerMgr s') ix = killed (workerMgr s) ix"
    "exiting s' = exiting s"
proof -
  let ?jx = "nextIx (workerMgr s)"
  have free: "mgr_free (workerMgr s)" using assms runs_core core_free by (auto simp: good_state_def)
  have nomx: "\<not> gameStateMutex s" by (rule good_mutex [OF assms])
  have none: "roles (workerMgr s) ?jx = None" using free unfolding mgr_free_def mgr_wf_def by (auto simp: domIff)
  obtain rd wrt where fds: "fds = (rd, wrt)" by (cases fds)
  obtain m' where m': "\<And>cb. spawnNewWorker cb (Inr fds) SERVING_UNKNOWN
      (\<lambda>rd ix. mk_handler rd ix fd addr (sOwnAddr s) (sTimeout s) now) (workerMgr s) = Inr m'"
    "roles m' = (roles (workerMgr s))(?jx \<mapsto> SERVING_UNKNOWN)"
    "workers m' = (workers (workerMgr s))(?jx \<mapsto> mk_handler rd ?jx fd addr (sOwnAddr s) (sTimeout s) now)"
    unfolding fds using spawn_eq [OF free] by fastforce
  let ?s = "s\<lparr>workerMgr := m'\<rparr>"
  have code: "forwardConnection no_write_error True (Inr fds) now fd addr s = Inr ((), ?s)"
    using nomx m'(1) by (cases s) (simp add: forwardConnection_def with_game_def mgr_op_def)
  have "good_state sc ?s"
    using good_step [OF assms, of "Ev_connect rd wrt now fd addr"] code fds by auto
  moreover have "\<not> killed m' ?jx" "\<And>ix. ix \<noteq> ?jx \<Longrightarrow> killed m' ix = killed (workerMgr s) ix"
    using m'(3) by (simp_all add: killed_def mk_handler_def IOWorker_def JobQueue_def)
  ultimately show thesis using that [of ?s ?jx] code none m'(2) by simp
qed

text \<open>C27: While the server is exiting, the worker that accepts connections does not look at its order to die
  before it accepts: a client that is in the listening queue in its last turn gets a worker of its own, in
  the role of an unknown player, with no order to die. As long as that worker does not leave (the client
  is silent, or waits for the game to begin), \<open>run\<close> does not return, whatever else happens.\<close>

theorem late_connection_stays:
  assumes "fair sc" and "sc \<noteq> []" and "runs sc s" and "exiting s"
    and "kind w = IOWorkerConnect" and "waiting (w, n)" and "roles (workerMgr s) (wid w) = Some SERVING_PROXY"
    and "killed (workerMgr s) (wid w)" and "undisturbed i" and "acceptRes i = Accepted fd addr"
  shows "\<exists>w' n' s' jx. turn (server_ctx no_write_error ord fds now (wid w)) i (w, n, s) = Some (Inr (w', n', s')) \<and>
    terminate w' \<and> roles (workerMgr s') (wid w) = Some SHUTDOWN \<and>
    roles (workerMgr s') jx = Some SERVING_UNKNOWN \<and> \<not> killed (workerMgr s') jx \<and>
    (\<forall>s'' k u. (others_step jx)\<^sup>*\<^sup>* s' s'' \<longrightarrow> run_end s'' \<noteq> Some (Inr (Some k, u)))"
proof -
  let ?cx = "server_ctx no_write_error ord fds now (wid w)" and ?w = "w\<lparr>nextTimeout := - 1\<rparr>"
  have good: "good_state sc s" using assms(1-3) by (simp add: good_state_def)
  obtain s1 jx where s1: "forwardConnection no_write_error True (Inr fds) now fd addr s = Inr ((), s1)"
    "good_state sc s1" "roles (workerMgr s) jx = None"
    "roles (workerMgr s1) = (roles (workerMgr s))(jx \<mapsto> SERVING_UNKNOWN)" "\<not> killed (workerMgr s1) jx"
    "\<And>ix. ix \<noteq> jx \<Longrightarrow> killed (workerMgr s1) ix = killed (workerMgr s) ix" "exiting s1 = exiting s"
    using forward_state [OF good, of fds now fd addr] by metis
  have ne: "wid w \<noteq> jx" using s1(3) assms(7) by auto
  have "accCb ?cx = forwardConnection no_write_error True (Inr fds) now" by (simp add: server_ctx_def)
  then have "socketAction ?cx i (?w, n, s) = Some (Inr (?w, n, s1))"
    using s1(1) assms(5,10) by (simp add: socketAction_def connect_action_def)
  from killed_after_action [OF s1(2) _ assms(9,6) this, of SERVING_PROXY] s1(4,6,7) assms(4,7,8) ne
  obtain w' n' s' where s': "turn ?cx i (w, n, s) = Some (Inr (w', n', s'))" "terminate w'" "good_state sc s'"
    "left_by (wid w) s1 s'" by auto
  have "roles (workerMgr s') jx = Some SERVING_UNKNOWN" "\<not> killed (workerMgr s') jx"
    using left_by_others(2) [OF s'(4), of jx] s'(4) s1(4,5) ne by (simp_all add: left_by_def)
  moreover from this have "alive jx s'" by (simp add: alive_def role_is_def)
  moreover have "roles (workerMgr s') (wid w) = Some SHUTDOWN" using s'(4) by (simp add: left_by_def)
  ultimately show ?thesis using s' never_ends [OF s'(3)] by blast
qed

theorem late_connection_stays_witness:
  "\<exists>s w' n' s' jx. runs simple_game s \<and> exiting s \<and>
    turn (server_ctx no_write_error sides (7, 8) 0 0) (quiet_turn\<lparr>acceptRes := Accepted 9 (1234, ''::1'')\<rparr>)
      (mk_connect 3 0 4 (0, '''') 0, fresh_wire, s) = Some (Inr (w', n', s')) \<and>
    roles (workerMgr s') jx = Some SERVING_UNKNOWN \<and> run_end s' \<noteq> Some (Inr (Some 0, s'))"
proof -
  let ?e = "Err ''read'' EPIPE IO_ERR_INTERNAL" and ?i = "quiet_turn\<lparr>acceptRes := Accepted 9 (1234, ''::1'')\<rparr>"
  obtain s0 where s0: "runs simple_game s0" "roles (workerMgr s0) 0 = Some SERVING_PROXY" "\<not> exiting s0"
    using runs_open [OF simple_nonempty] by blast
  note inv0 = runs_inv [OF s0(1) simple_fair simple_nonempty]
  obtain s1 ix where s1: "handle (Ev_connect 0 1 0 0 (0, '''')) s0 = Inr s1" "exiting s1 = exiting s0"
    "roles (workerMgr s1) = (roles (workerMgr s0))(ix \<mapsto> SERVING_UNKNOWN)" "roles (workerMgr s0) ix = None"
    using connect_step [OF inv0] by blast
  have run1: "runs simple_game s1" using runs.event [OF s0(1) _ s1(1)] by simp
  note inv1 = runs_inv [OF run1 simple_fair simple_nonempty]
  have role: "roles (workerMgr s1) 0 = Some SERVING_PROXY" using s0(2) s1(3,4) by (cases "ix = 0") auto
  have "core_inv simple_game s1" using inv1 by (simp add: srv_inv_def)
  then have pool: "pool_inv (workerMgr s1)" by (rule core_pool)
  have live: "known (workerMgr s1) 0" "0 \<notin> set (toErase (workerMgr s1))"
    using pool_inv_known [OF pool role] pool role by (auto simp: pool_inv_def)
  obtain s where s: "grandExitCallback no_write_error [?e] ix False s1 = Inr (True, s)" "exiting s"
    "roles (workerMgr s) = roles (workerMgr s1)" "killed (workerMgr s) 0"
    using internal_error [OF inv1, of ?e ix False] s1(2) s0(3) live by (auto simp: Err_def)
  have run: "runs simple_game s"
    by (rule runs.event [OF run1, of "Ev_exit [?e] ix False"]) (use s(1) s1(3) in \<open>simp_all add: role_is_def\<close>)
  have i: "undisturbed ?i" "acceptRes ?i = Accepted 9 (1234, ''::1'')"
    using quiet_quiet by (simp_all add: quiet_def undisturbed_def takes_all_def)
  have w: "roles (workerMgr s) (wid (mk_connect 3 0 4 (0, '''') 0)) = Some SERVING_PROXY"
    "killed (workerMgr s) (wid (mk_connect 3 0 4 (0, '''') 0))"
    using s(3,4) role by (simp_all add: fresh_threads)
  from late_connection_stays [OF simple_fair simple_nonempty run s(2) fresh_threads(5,2) w i, of sides "(7, 8)" 0]
  show ?thesis using run s(2) unfolding fresh_threads by blast
qed

end
