(* ===== verification/Programs.thy ===== *)
theory Programs
  imports Client_Players Server
begin

text \<open>
  The two programs, \<^verbatim>\<open>kierki-client.cpp\<close> and \<^verbatim>\<open>kierki-server.cpp\<close>: their command lines, what
  they construct from them, and how they end. The loop over the arguments of the client need not
  end; the parsing of the server's is the boost library's, and its result is a parameter.
\<close>

section \<open>The command line of the client\<close>

record args =
  aPort :: nat
  aHost :: string
  aSide :: side
  aProto :: family
  aAuto :: bool
  aErr :: bool
  aCerr :: string

definition no_args :: args where
  "no_args = \<lparr>aPort = 0, aHost = '''', aSide = SIDE_NULL, aProto = AF_UNSPEC, aAuto = False, aErr = False,
     aCerr = ''''\<rparr>"

definition a_warn :: "string \<Rightarrow> args \<Rightarrow> args" where
  "a_warn t a = a\<lparr>aCerr := aCerr a @ t @ nl\<rparr>"

text \<open>\<^verbatim>\<open>argv[itr + 1][0] == '-'\<close>; the first character of an empty argument is its terminator.\<close>

definition dashed :: "string \<Rightarrow> bool" where
  "dashed v \<longleftrightarrow> first_char v = CHR ''-''"

text \<open>An \<^verbatim>\<open>int\<close> stored in a \<^verbatim>\<open>uint16_t\<close>.\<close>

definition uint16 :: "int \<Rightarrow> nat" where
  "uint16 k = nat (k mod 2 ^ 16)"

text \<open>The options that take no value, each with what it does.\<close>

definition arg_flag :: "string \<Rightarrow> (args \<Rightarrow> args) option" where
  "arg_flag opt =
     (if opt = ''-a'' then Some (\<lambda>a. a\<lparr>aAuto := True\<rparr>)
      else if opt = ''-4'' then Some (\<lambda>a. a\<lparr>aProto := AF_INET\<rparr>)
      else if opt = ''-6'' then Some (\<lambda>a. a\<lparr>aProto := AF_INET6\<rparr>)
      else if opt = ''-N'' then Some (\<lambda>a. a\<lparr>aSide := N\<rparr>)
      else if opt = ''-E'' then Some (\<lambda>a. a\<lparr>aSide := E\<rparr>)
      else if opt = ''-S'' then Some (\<lambda>a. a\<lparr>aSide := S\<rparr>)
      else if opt = ''-W'' then Some (\<lambda>a. a\<lparr>aSide := W\<rparr>)
      else None)"

text \<open>
  The arguments not yet passed by \<^verbatim>\<open>itr\<close> are the list. An unknown option is reported, and the
  loop goes on without having advanced.
\<close>

partial_function (option) arg_loop :: "string list \<Rightarrow> args \<Rightarrow> args res option" where
  "arg_loop argv a =
     (case argv of
        [] \<Rightarrow> Some (Inr a)
      | opt # rest \<Rightarrow>
          if opt = ''-h'' then
            (case rest of
               [] \<Rightarrow> Some (Inr (a_warn ''-h option requires value'' a))
             | v # rest' \<Rightarrow>
                 if dashed v then Some (Inr (a_warn ''-h option requires value'' a))
                 else arg_loop rest' (a\<lparr>aHost := v\<rparr>))
          else if opt = ''-p'' then
            (case rest of
               [] \<Rightarrow> Some (Inr (a_warn ''-p option requires value'' (a\<lparr>aErr := True\<rparr>)))
             | v # rest' \<Rightarrow>
                 if dashed v then Some (Inr (a_warn ''-p option requires value'' (a\<lparr>aErr := True\<rparr>)))
                 else (case atoi v of
                    Inl e \<Rightarrow> Some (Inl e)
                  | Inr n \<Rightarrow>
                      if uint16 n = 0
                      then Some (Inr (a_warn (v @ ''is not a valid port number'') (a\<lparr>aPort := 0, aErr := True\<rparr>)))
                      else arg_loop rest' (a\<lparr>aPort := uint16 n\<rparr>)))
          else (case arg_flag opt of
             Some f \<Rightarrow> arg_loop rest (f a)
           | None \<Rightarrow> arg_loop argv (a_warn (''unknown option or value for option that takes no value: '' @ opt) a)))"

text \<open>The checks after the loop. A missing side is reported only.\<close>

definition check_args :: "args \<Rightarrow> args" where
  "check_args a =
     (let a1 = (if aPort a = 0 then (a_warn ''-p <port> has to be specified'' a)\<lparr>aErr := True\<rparr> else a);
          a2 = (if aHost a1 = '''' then (a_warn ''-h <host> has to be specified'' a1)\<lparr>aErr := True\<rparr> else a1)
      in if aSide a2 = SIDE_NULL then a_warn ''side has to be specified via -N, -S, -E or -W'' a2 else a2)"

definition client_usage :: string where
  "client_usage = ''usage: kierki-client -h <host> -p <port> [-S] [-N] [-E] [-W] [-a] [-6] [-4]''"

section \<open>Running the client\<close>

text \<open>
  How a program is left: by \<^verbatim>\<open>exit\<close>, by an exception nothing catches or an abort, or not yet.
\<close>

datatype program_end = Exited int | Died exn | Running

definition what :: "exn \<Rightarrow> string" where
  "what e = (case e of Runtime_error m \<Rightarrow> m | _ \<Rightarrow> '''')"

text \<open>The \<^verbatim>\<open>try\<close> block of \<^verbatim>\<open>main\<close>; \<open>eno\<close> is \<^verbatim>\<open>errno\<close> when the exception is caught.\<close>

definition run_client ::
    "client_env \<Rightarrow> 'p c_ops \<Rightarrow> client_turn list \<Rightarrow> int \<Rightarrow> bool \<Rightarrow> 'p client \<Rightarrow> program_end \<times> 'p client" where
  "run_client env ops is eno closeOk w =
     (case catchA runtime_error (client_run env ops is) (\<lambda>e.
             thenA (complain (''client error on system call: '' @ what e @ ''!. errno: '' @ to_string eno @ nl)) (
             thenA (cleanup closeOk) (returnA (Some 1)))) w of
        (Inl e, w') \<Rightarrow> (Died e, w')
      | (Inr None, w') \<Rightarrow> (Running, w')
      | (Inr (Some status), w') \<Rightarrow> (Exited status, w'))"

text \<open>What can be seen of a program: how it ended, what it wrote, and what it sent.\<close>

type_synonym program_result = "program_end \<times> string \<times> string \<times> string list"

definition seen :: "program_end \<times> 'p client \<Rightarrow> program_result" where
  "seen r = (case r of (e, w) \<Rightarrow> (e, cout w, cerr w, sentMsgs w))"

definition start_client ::
    "outside \<Rightarrow> client_env \<Rightarrow> client_turn list \<Rightarrow> int \<Rightarrow> bool \<Rightarrow> 'p c_ops \<Rightarrow> 'p \<Rightarrow> args \<Rightarrow> program_result" where
  "start_client out env is eno closeOk ops player a =
     (case Client out player (aPort a, aHost a) (aSide a) (aProto a) '''' (aCerr a) of
        Inl e \<Rightarrow> (Died e, '''', aCerr a, [])
      | Inr w \<Rightarrow> seen (run_client env ops is eno closeOk w))"

definition client_main ::
    "outside \<Rightarrow> client_env \<Rightarrow> client_turn list \<Rightarrow> int \<Rightarrow> bool \<Rightarrow> string list \<Rightarrow> program_result option" where
  "client_main out env is eno closeOk argv =
     (case arg_loop argv no_args of
        None \<Rightarrow> None
      | Some (Inl e) \<Rightarrow> Some (Died e, '''', '''', [])
      | Some (Inr a0) \<Rightarrow>
          let a = check_args a0 in
          if aErr a then Some (Exited 1, '''', aCerr a @ client_usage, [])
          else if aAuto a then Some (start_client out env is eno closeOk auto_client (PlayerAuto (aSide a)) a)
          else Some (start_client out env is eno closeOk console_client (PlayerConsole (aSide a)) a))"

section \<open>Starting the server\<close>

text \<open>
  What \<^verbatim>\<open>po::store\<close> makes of the command line: the text of its exception, or the values given for
  each option. \<^verbatim>\<open>po::notify\<close> throws \<^verbatim>\<open>required_option\<close> if the required option is missing.
\<close>

record server_options =
  oPorts :: "nat list option"
  oFiles :: "string list option"
  oTimeouts :: "int list option"

datatype server_boot =
    Boot_exit int string
  | Boot_uncaught string
  | Boot_server "server res"

definition first_of :: "'a \<Rightarrow> 'a list \<Rightarrow> 'a" where
  "first_of d xs = (case xs of [] \<Rightarrow> d | x # ys \<Rightarrow> x)"

definition server_main ::
    "string \<Rightarrow> (string \<Rightarrow> string option) \<Rightarrow> string + server_options \<Rightarrow> server_boot" where
  "server_main argv0 readFile parsed =
     (case parsed of
        Inl m \<Rightarrow>
          Boot_exit 1 (m @ nl @ ''usage: '' @ argv0 @ '' -p <port> -f <game scenario file> [-t timeout]'')
      | Inr vm \<Rightarrow>
          (case oFiles vm of
             None \<Rightarrow> Boot_uncaught ''required_option''
           | Some fs \<Rightarrow>
               Boot_server
                 (bindE (if fs = [] then Inl Undefined else Inr (hd fs)) (\<lambda>file.
                  bindE (parseScenario (readFile file)) (\<lambda>scenario.
                  Inr (Server scenario (first_of 0 (case oPorts vm of None \<Rightarrow> [] | Some ps \<Rightarrow> ps))
                         (first_of DEFAULT_TIMEOUT (case oTimeouts vm of None \<Rightarrow> [] | Some ts \<Rightarrow> ts))))))))"

section \<open>When the loop over the arguments ends\<close>

text \<open>The arguments among which the loop stands still: it reaches one that is no option.\<close>

fun stuck :: "string list \<Rightarrow> bool" where
  "stuck [] = False"
| "stuck [opt] = (opt \<noteq> ''-h'' \<and> opt \<noteq> ''-p'' \<and> arg_flag opt = None)"
| "stuck (opt # v # rest) =
     (if opt = ''-h'' then \<not> dashed v \<and> stuck rest
      else if opt = ''-p'' then
        \<not> dashed v \<and> (case atoi v of Inl e \<Rightarrow> False | Inr n \<Rightarrow> uint16 n \<noteq> 0 \<and> stuck rest)
      else (case arg_flag opt of Some f \<Rightarrow> stuck (v # rest) | None \<Rightarrow> True))"

lemma arg_loop_Nil: "arg_loop [] a = Some (Inr a)"
  by (subst arg_loop.simps) simp

lemma arg_loop_flag:
  "opt \<noteq> ''-h'' \<Longrightarrow> opt \<noteq> ''-p'' \<Longrightarrow> arg_flag opt = Some f \<Longrightarrow> arg_loop (opt # rest) a = arg_loop rest (f a)"
  by (subst arg_loop.simps) simp

lemma arg_loop_host:
  "arg_loop [''-h''] a = Some (Inr (a_warn ''-h option requires value'' a))"
  "arg_loop (''-h'' # v # rest) a =
    (if dashed v then Some (Inr (a_warn ''-h option requires value'' a)) else arg_loop rest (a\<lparr>aHost := v\<rparr>))"
  by (subst arg_loop.simps, simp)+

lemma arg_loop_port:
  "arg_loop [''-p''] a = Some (Inr (a_warn ''-p option requires value'' (a\<lparr>aErr := True\<rparr>)))"
  "arg_loop (''-p'' # v # rest) a =
    (if dashed v then Some (Inr (a_warn ''-p option requires value'' (a\<lparr>aErr := True\<rparr>)))
     else (case atoi v of
        Inl e \<Rightarrow> Some (Inl e)
      | Inr n \<Rightarrow>
          if uint16 n = 0
          then Some (Inr (a_warn (v @ ''is not a valid port number'') (a\<lparr>aPort := 0, aErr := True\<rparr>)))
          else arg_loop rest (a\<lparr>aPort := uint16 n\<rparr>)))"
  by (subst arg_loop.simps, simp)+

lemma arg_loop_returns: "\<not> stuck argv \<Longrightarrow> \<exists>r. arg_loop argv a = Some r"
proof (induction argv arbitrary: a rule: stuck.induct)
  case 1
  then show ?case by (simp add: arg_loop_Nil)
next
  case (2 opt)
  then consider "opt = ''-h''" | "opt = ''-p''" | f where "opt \<noteq> ''-h''" "opt \<noteq> ''-p''" "arg_flag opt = Some f"
    by auto
  then show ?case by cases (simp_all add: arg_loop_host arg_loop_port arg_loop_flag arg_loop_Nil)
next
  case (3 opt v rest)
  then consider "opt = ''-h''" | "opt = ''-p''" | f where "opt \<noteq> ''-h''" "opt \<noteq> ''-p''" "arg_flag opt = Some f"
    by (auto split: if_splits option.splits)
  then show ?case
  proof cases
    case 1
    with 3 show ?thesis by (cases "dashed v") (simp_all add: arg_loop_host)
  next
    case 2
    with 3 show ?thesis
      by (cases "dashed v"; cases "atoi v") (auto simp: arg_loop_port)
  next
    case flag: 3
    with 3 show ?thesis by (simp add: arg_loop_flag)
  qed
qed

lemma arg_loop_stuck: "arg_loop argv a = Some r \<Longrightarrow> \<not> stuck argv"
proof (rule arg_loop.raw_induct [of "\<lambda>argv a r. \<not> stuck argv"], goal_cases)
  case (1 loop argv a r)
  show ?case
  proof (cases argv rule: stuck.cases)
    case (2 opt)
    with 1 show ?thesis by (cases "arg_flag opt") (auto split: if_splits dest: 1(2))
  next
    case (3 opt v rest)
    with 1 show ?thesis by (cases "arg_flag opt"; cases "atoi v") (auto split: if_splits dest: 1(2))
  qed simp
qed

section \<open>Properties\<close>

text \<open>C37: The loop over the client's arguments ends unless it comes to an argument that is no option: then
  \<open>main\<close> reports that argument for ever, since \<open>itr\<close> is not advanced.\<close>

theorem args_loop_ends: "(\<exists>r. arg_loop argv a = Some r) \<longleftrightarrow> \<not> stuck argv"
  using arg_loop_returns arg_loop_stuck by blast

theorem args_loop_ends_witness: "arg_loop [''-a'', ''-x''] no_args = None \<and> (\<exists>r. arg_loop [''-4'', ''-N'', ''-h'', ''::1''] no_args = Some r)"
  using args_loop_ends [of "[''-a'', ''-x'']" no_args] args_loop_ends [of "[''-4'', ''-N'', ''-h'', ''::1'']" no_args]
  by (simp add: arg_flag_def dashed_def first_char_def)

text \<open>An environment in which every call of the start succeeds.\<close>

definition fair_net :: client_env where
  "fair_net = \<lparr>addrInfo = (\<lambda>h f. Inr [(if f = AF_UNSPEC then AF_INET6 else f, ''::1'')]), sockFd = 3, bindOk = True,
     sockName = (\<lambda>f. Some (htons 4000, ''::1'')), connectOk = True\<rparr>"

definition start_ok :: "client_env \<Rightarrow> bool" where
  "start_ok env \<longleftrightarrow> (\<forall>h f. \<exists>ais. addrInfo env h f = Inr ais \<and> matchingSockaddr ais f \<noteq> None) \<and>
     0 \<le> sockFd env \<and> bindOk env \<and> (\<forall>f. sockName env f \<noteq> None) \<and> connectOk env"

text \<open>A start that goes well ends with the introduction on the wire.\<close>

lemma client_start_ok:
  assumes "start_ok env" and "eager w"
  shows "\<exists>own fam. client_start env ops w =
    bindA (new_message own (cServerAddr w) (msg_body [] (SendJobIntro (cSide w)))) (anyMsg ops)
      (w\<lparr>cProto := fam, tcpSock := sockFd env, openSock := True, cOwnAddr := own,
         sentMsgs := sentMsgs w @ [genMsg [] (SendJobIntro (cSide w))]\<rparr>)"
proof -
  obtain ais where "addrInfo env (snd (cServerAddr w)) (cProto w) = Inr ais" "matchingSockaddr ais (cProto w) \<noteq> None"
    using assms(1) unfolding start_ok_def by blast
  then obtain fam addr where ai: "addrInfo env (snd (cServerAddr w)) (cProto w) = Inr ais"
    "matchingSockaddr ais (cProto w) = Some (fam, addr)" by auto
  obtain a4 a6 where "sockName env AF_INET = Some a4" "sockName env AF_INET6 = Some a6"
    using assms(1) unfolding start_ok_def by (metis not_None_eq)
  then obtain own where own: "getAddrStruct (sockName env) fam = Inr own"
    by (cases a4; cases a6; cases "fam = AF_INET") (auto simp: getAddrStruct_def)
  have conn: "makeConnection env fam = Inr (sockFd env)" "connectOk env"
    using assms(1) by (simp_all add: start_ok_def makeConnection_def)
  let ?w = "w\<lparr>cProto := fam, tcpSock := sockFd env, openSock := True, cOwnAddr := own\<rparr>"
  have "eager ?w" using assms(2) by (simp add: eager_def)
  from send_eager [OF this, of "anyMsg ops" "SendJobIntro (cSide w)"]
  have "client_start env ops w =
      bindA (new_message own (cServerAddr w) (msg_body [] (SendJobIntro (cSide w)))) (anyMsg ops)
        (?w\<lparr>sentMsgs := sentMsgs w @ [genMsg [] (SendJobIntro (cSide w))]\<rparr>)"
    using ai own conn by (simp add: client_start_def getIntAddr_def del: genMsg.simps msg_body.simps)
  then show ?thesis by (intro exI)
qed

lemma nameless_side: "parseNetMsg (''IAM'' @ [CHR 0x00]) True = Inr []"
  by code_simp

text \<open>A client started without a side is not refused: it connects and introduces itself with the
  character 0 for a side, a line the server's parser rejects.\<close>

theorem side_missing:
  assumes "arg_loop argv no_args = Some (Inr a)" and "aSide a = SIDE_NULL" and "aPort a \<noteq> 0" and "aHost a \<noteq> ''''"
    and "\<not> aErr a" and "aAuto a" and "start_ok env" and "\<forall>k. oKernel out k = full_send"
  shows "(\<exists>shown told. client_main out env [] eno closeOk argv =
      Some (Running, shown, told, [''IAM'' @ [CHR 0x00] @ crlf])) \<and>
    parseNetMsg (strip_crlf (''IAM'' @ [CHR 0x00] @ crlf)) True = Inr []"
proof
  have strip: "strip_crlf (''IAM'' @ [CHR 0x00] @ crlf) = ''IAM'' @ [CHR 0x00]"
    by (simp add: strip_crlf_def crlf_def)
  show "parseNetMsg (strip_crlf (''IAM'' @ [CHR 0x00] @ crlf)) True = Inr []"
    unfolding strip by (rule nameless_side)
  let ?a = "check_args a"
  have a: "\<not> aErr ?a" "aAuto ?a" "aSide ?a = SIDE_NULL"
    using assms(2-6) by (simp_all add: check_args_def a_warn_def)
  obtain w where w: "Client out (PlayerAuto (aSide ?a)) (aPort ?a, aHost ?a) (aSide ?a) (aProto ?a) '''' (aCerr ?a) = Inr w"
    "cSide w = SIDE_NULL" "sentMsgs w = []" "\<not> cTerminate w" "eager w"
    using assms(8) a(3) by (simp add: Client_def Card_mk_card faces_def eager_def full_send_all)
  obtain own fam where start: "client_start env auto_client w =
      bindA (new_message own (cServerAddr w) (msg_body [] (SendJobIntro (cSide w)))) (anyMsg auto_client)
        (w\<lparr>cProto := fam, tcpSock := sockFd env, openSock := True, cOwnAddr := own,
           sentMsgs := sentMsgs w @ [genMsg [] (SendJobIntro (cSide w))]\<rparr>)"
    using client_start_ok [OF assms(7) w(5)] by blast
  show "\<exists>shown told. client_main out env [] eno closeOk argv =
      Some (Running, shown, told, [''IAM'' @ [CHR 0x00] @ crlf])"
    using assms(1) a w start
    by (simp add: client_main_def start_client_def run_client_def client_run_def seen_def catchA_def
        new_message_def auto_anyMsg_def Let_def thenA_def bindA_def)
qed

text \<open>The arguments of a client with everything but a side.\<close>

definition nameless :: "string list" where
  "nameless = [''-a'', ''-h'', ''::1'', ''-p'', ''1234'']"

lemma nameless_args:
  "arg_loop nameless no_args = Some (Inr (no_args\<lparr>aAuto := True, aHost := ''::1'', aPort := 1234\<rparr>))"
proof -
  have "atoi ''1234'' = Inr 1234" "uint16 1234 = 1234" "\<not> dashed ''1234''" "\<not> dashed ''::1''" by code_simp+
  then show ?thesis
    by (simp add: nameless_def arg_loop_flag arg_loop_host arg_loop_port arg_loop_Nil arg_flag_def)
qed

theorem side_missing_witness:
  "\<exists>shown told. client_main calm fair_net [] 0 True nameless = Some (Running, shown, told, [''IAM'' @ [CHR 0x00] @ crlf])"
proof -
  have "start_ok fair_net" by (simp add: start_ok_def fair_net_def)
  from side_missing [OF nameless_args _ _ _ _ _ this, of calm 0 True] show ?thesis
    by (simp add: no_args_def calm_def)
qed

text \<open>A server started without a scenario file is not told how to use it: the exception for the missing
  option is thrown outside the \<open>try\<close> block. With one it is constructed with the first value of each option,
  port 0 and five seconds being the defaults.\<close>

theorem server_options_used:
  "server_main argv0 readFile (Inr \<lparr>oPorts = ps, oFiles = None, oTimeouts = ts\<rparr>) = Boot_uncaught ''required_option'' \<and>
   server_main argv0 readFile (Inr \<lparr>oPorts = ps, oFiles = Some (f # fs), oTimeouts = ts\<rparr>) =
     Boot_server (bindE (parseScenario (readFile f)) (\<lambda>sc. Inr (Server sc
       (case ps of Some (p # xs) \<Rightarrow> p | _ \<Rightarrow> 0) (case ts of Some (t # xs) \<Rightarrow> t | _ \<Rightarrow> 5))))"
  by (simp add: server_main_def first_of_def DEFAULT_TIMEOUT_def split: option.splits list.splits)

end
