(* ===== verification/Spec2Isabelle.thy ===== *)
theory Spec2Isabelle
  imports Session Server_Hangs Programs
begin

text \<open>
  Kierki: a card game of four players over TCP. A server reads a scenario (the deals of some rounds),
  waits for four clients and plays the rounds with them; a client plays for a person at the console
  or by itself. The two programs share the cards, the messages and their parser.

  \<^bold>\<open>Parts, theories and code.\<close> The names of the definitions are those of the code.

  \<^item> \<open>Kierki_Prelude\<close>: exceptions and undefined behaviour as values (\<open>exn\<close>, the sum \<open>res\<close> with its bind),
    and what the code uses of the standard library: strings, numbers as text, \<^verbatim>\<open>atoi\<close>, maps with
    default entries, unsigned subtraction. \<open>Common_Types\<close>: \<^verbatim>\<open>common/common_types.h\<close>, \<^verbatim>\<open>common/constants.h\<close>.
  \<^item> \<open>Cards\<close>: \<^verbatim>\<open>common/card.cpp\<close>. \<open>Utils\<close>, \<open>Scenario\<close>, \<open>Net_Address\<close>: \<^verbatim>\<open>common/utils.cpp\<close>.
    \<open>Log\<close>: \<^verbatim>\<open>common/message.cpp\<close>, \<^verbatim>\<open>common/logger.cpp\<close>.
  \<^item> \<open>Send_Job\<close>: \<^verbatim>\<open>common/send_job.cpp\<close>, the text of every message. \<open>Regex\<close>, \<open>Net_Parser\<close>,
    \<open>Net_Parser_Correct\<close>: \<^verbatim>\<open>common/network_msg_parser.cpp\<close>; the matcher for the patterns is proved
    equal to their language. \<open>Protocol\<close>, \<open>Msg_Fields\<close>: what is sent is read back by the peer.
  \<^item> \<open>Game_Rules\<close>: \<^verbatim>\<open>server/game_rules.cpp\<close>. \<open>Job_Queue\<close>: \<^verbatim>\<open>server/job_queue.cpp\<close>. \<open>IO_Worker_Mgr\<close>,
    \<open>Mgr_Exec\<close>: \<^verbatim>\<open>server/io_worker_mgr.cpp\<close>. \<open>IO_Worker_State\<close>, \<open>IO_Worker\<close>, \<open>IO_Worker_Correct\<close>:
    \<^verbatim>\<open>server/io_worker.cpp\<close> and its two subclasses.
  \<^item> \<open>Server\<close>: \<^verbatim>\<open>server/server.cpp\<close>; \<open>Server_Exec\<close>, \<open>Server_Inv\<close>, \<open>Role_Frames\<close>, \<open>Server_Correct\<close> prove
    its invariants, \<open>Server_Worker\<close>, \<open>Server_Threads\<close> put it together with its workers.
  \<^item> \<open>Actions\<close>: steps on a mutable state that may throw and catch. \<open>Strategy\<close>, \<open>Player\<close>, \<open>Player_Auto\<close>,
    \<open>Player_Console\<close>, \<open>Client\<close>: the files of \<^verbatim>\<open>client/\<close>; \<open>Client_Correct\<close>, \<open>Client_Players\<close>: what a
    client does with what it reads. \<open>Programs\<close>: \<^verbatim>\<open>kierki-client.cpp\<close>, \<^verbatim>\<open>kierki-server.cpp\<close>.
  \<^item> \<open>Game_Spec\<close>: the game as its rules have it, the specification of the server; \<open>Game_Deal\<close>,
    \<open>Game_Messages\<close>: whose card is whose, and what each side is sent. \<open>Auto_Follow\<close>, \<open>Auto_Play\<close>: the
    automatic player beside that game; \<open>Whole_Game\<close>: the server with four of them, \<open>Session\<close>: how
    such a session begins. \<open>Server_End\<close>: how the threads of a server that exits end, and with them
    \<^verbatim>\<open>Server::run\<close> (\<open>run_start\<close>, then turns of \<open>run_end\<close>); \<open>Server_Hangs\<close>: when they do not.

  \<^bold>\<open>How the code is modelled.\<close> A class is a record of its members, an operation a function on it. On the
  server every callback of a worker (\<^verbatim>\<open>playerTricked\<close>, \<^verbatim>\<open>playerIntro\<close>, \<^verbatim>\<open>grandExitCallback\<close> and so on) holds
  one mutex for its whole body and is one step; the mutexes are flags, so that locking one twice is
  the value \<open>Self_deadlock\<close>. The states of a running server are those reached by \<open>runs\<close>: the start
  and then any sequence of the events the workers may raise, in any order. A worker is the record
  \<open>io_worker\<close>, a turn of its loop a function of what \<^verbatim>\<open>poll\<close>, \<^verbatim>\<open>read\<close>, \<^verbatim>\<open>recv\<close>, \<^verbatim>\<open>send\<close>, \<^verbatim>\<open>accept\<close> and the
  clock yield (\<open>turn_in\<close>) and of any server that keeps the laws of the locale \<open>worker_server\<close>,
  which the model of the server is an interpretation of. A client is the record \<open>client\<close>, extending the
  process of its player; it calls its player through the record of methods \<open>player_ops\<close>, whose
  contract is the locale \<open>client_player\<close>, with an interpretation for each of the two players.
  The locales \<open>fifo\<close> and \<open>worker_pool\<close> are the interfaces of the queue and of the manager.

  \<^bold>\<open>What the theorems show.\<close> The server plays the specified game: legal and illegal cards, turn order, the
  conservation of the cards, penalties, joining, leaving and rejoining, messages in their order, and
  that a reachable server fails on no event. A worker's turn returns without failing whatever the
  network does; a card on the wire is played, a posted job is sent. Messages, scenarios and cards are
  read back; the parser is total, with the grammar of each side. A client hands each message to
  the one method for it, however the bytes are cut; the console player sends the card typed. The
  automatic player follows any game from the messages its client reads, joins in the middle of a
  round, and always has a legal card on its way when it is its turn; with four of them the server
  plays every fair scenario to its end. Such a session is followed from the introduction of the fourth
  client, over the last card, to the exit codes: when the game is over every worker sends what is
  queued for its client and ends in its next turn, \<^verbatim>\<open>run\<close> returns 0, and so does each client whose
  connection is closed then (1 if it is closed before). Further theorems state precisely where the code fails: the
  second introduction, a failing pipe, the clean-up that never ends, the unread client socket, a bad line of
  the server, the send of a card that fails, the empty line, unknown options and the missing side; and a server that
  exits but never returns, after an internal error or when it accepts a client too late.

  \<^bold>\<open>Bounds.\<close> Numbers of tricks are at most 13, so \<^verbatim>\<open>int\<close> and \<^verbatim>\<open>size_t\<close> agree on them; scores fit an \<^verbatim>\<open>int\<close>
  for scenarios of up to a million rounds, which is assumed where a client reads them (a round has at
  most 100 points). Times and counters are unbounded integers. Unsigned subtraction wraps and the port is
  taken modulo 2 to the 16. Loops that consume what they read are structural; the loops over pending
  messages, over the outgoing queue and over the arguments may not end and are partial functions, for
  which returning is proved (or, for the arguments, characterised). The main loops of worker and
  client run over a list of turns, of any length. One reading of the clock serves a turn of a worker.

  \<^bold>\<open>Not modelled.\<close> \<^verbatim>\<open>ignoreBrokenPipe\<close> (one system call, with no effect on the state of the program; of
  \<^verbatim>\<open>setTimeout\<close> only the failure is), the destructors (closing descriptors), \<^verbatim>\<open>MutexGuard\<close> as a type, the mutex of the output
  streams, the parsing of the server's command line (the boost library; its result is a parameter)
  and name resolution, sockets and local time (parameters). A turn of a worker is one step of the
  shared state; the interleaving of the callbacks of different workers is that of the events of \<open>runs\<close>.
  How the texts of the log are interleaved is left open.
\<close>

section \<open>States of the sample game\<close>

text \<open>
  The hypotheses of the theorems below hold in states the server reaches with the scenario
  \<^verbatim>\<open>scenarios/simple.scn\<close>.
\<close>

lemma sample_full:
  "\<exists>s. runs simple_game s \<and> playersConnected s = 4 \<and> game_of s = start_game simple_game"
proof -
  obtain s where "runs simple_game s" "game_of s = start_game simple_game"
    using runs_exist [OF simple_nonempty] by blast
  then show ?thesis using fill_table [OF _ simple_fair simple_nonempty] by metis
qed

lemma sample_core: "runs simple_game s \<Longrightarrow> core_inv simple_game s"
  using runs_core simple_fair simple_nonempty by blast

lemma sample_srv: "runs simple_game s \<Longrightarrow> srv_inv simple_game s"
  using runs_inv simple_fair simple_nonempty by blast

lemma sample_connect:
  assumes "runs simple_game s"
  shows "\<exists>s' ix. runs simple_game s' \<and> roles (workerMgr s') ix = Some SERVING_UNKNOWN \<and>
     activeSides s' = activeSides s \<and> playersConnected s' = playersConnected s \<and> lastDeal s' = lastDeal s"
proof -
  obtain s' ix where "handle (Ev_connect 0 1 0 0 (0, '''')) s = Inr s'"
    "roles (workerMgr s') ix = Some SERVING_UNKNOWN" "activeSides s' = activeSides s"
    "playersConnected s' = playersConnected s" "lastDeal s' = lastDeal s"
    using connect_step [OF sample_srv [OF assms]] by (metis fun_upd_same)
  then show ?thesis using runs.event [OF assms, of "Ev_connect 0 1 0 0 (0, '''')" s'] by auto
qed

lemma sample_left:
  "\<exists>s ix. runs simple_game s \<and> roles (workerMgr s) ix = Some SERVING_UNKNOWN \<and>
     activeSides s W = Some (- 1) \<and> lastDeal s \<noteq> Map.empty"
proof -
  obtain s where s: "runs simple_game s" "playersConnected s = 4" using sample_full by blast
  note core = sample_core [OF s(1)]
  have w: "workerToSide s (act s W) = Some W" using four_active [OF core, of W] s(2) by simp
  have last: "lastDeal s \<noteq> Map.empty" using core_four [OF core] last_deal_nonempty [OF core] s(2) by simp
  obtain b s1 where s1: "grandExitCallback no_write_error [] (act s W) False s = Inr (b, s1)"
    "activeSides s1 = (activeSides s)(W \<mapsto> - 1)" "lastDeal s1 = lastDeal s"
    using leave_seat [OF sample_srv [OF s(1)] w, of "[]" False] by auto
  have "runs simple_game s1"
    by (rule runs.event [OF s(1), of "Ev_exit [] (act s W) False"])
      (use s1 core_role_active [OF core w] in \<open>simp_all add: role_is_def\<close>)
  from sample_connect [OF this] s1 last show ?thesis by auto
qed

lemma simple_start:
  "gTurn (start_game simple_game) = W" "gHands (start_game simple_game) W = simple_W"
  "gTable (start_game simple_game) = []" "gTrickNo (start_game simple_game) = 1"
  by (simp_all add: start_game_def simple_game_def deal_round_def gTrickNo_def)

text \<open>The first card of the sample game: West plays the three of clubs.\<close>

definition first_card :: card where
  "first_card = mk_card ''3'' COLOR_C"

lemma first_card_legal: "gLegal W 1 first_card (start_game simple_game)" "wf_card first_card"
  by (simp_all add: gLegal_def simple_start legal_move_def first_card_def simple_W_def faces_def)

lemma first_card_late: "\<not> gLegal W 2 first_card (start_game simple_game)"
  by (simp add: gLegal_def simple_start)

section \<open>Cards\<close>

text \<open>C1: In every state the running server reaches with four players, a card that the rules allow and that
  comes from the worker of the side to move is taken: the game advances by exactly that move, every
  player's queue grows by exactly the messages of the move in their order (TRICK to the next side;
  TAKEN, SCORE, TOTAL and DEAL when a trick or a round ends), and the server begins to exit exactly
  when the last round is over.\<close>

theorem legal_card:
  assumes "fair sc" and "sc \<noteq> []" and "runs sc s" and "playersConnected s = 4"
    and "speaks_for s ix t" and "wf_card c" and "gLegal t n c (game_of s)"
  shows "\<exists>s'. playerTricked no_write_error n c ix s = Inr (True, s') \<and>
     game_of s' = spec_move c (game_of s) \<and> act s' = act s \<and>
     (exiting s' \<longleftrightarrow> exiting s \<or> game_over (game_of s')) \<and>
     (\<forall>u. real_side u \<longrightarrow> inbox (workerMgr s') (act s u) =
        inbox (workerMgr s) (act s u) @ for_side u (spec_msgs c (game_of s)))"
  using playerTricked_legal [OF runs_inv [OF assms(3,1,2)] assms(4-7)] by blast

theorem legal_card_witness:
  "\<exists>s ix s'. runs simple_game s \<and> playerTricked no_write_error 1 first_card ix s = Inr (True, s') \<and>
     game_of s' = spec_move first_card (start_game simple_game) \<and> gTurn (game_of s') = N"
proof -
  obtain s where s: "runs simple_game s" "playersConnected s = 4" "game_of s = start_game simple_game"
    using sample_full by blast
  have "speaks_for s (act s W) W" using seated_speaks [OF sample_core [OF s(1)]] s(2) by simp
  from legal_card [OF simple_fair simple_nonempty s(1,2) this first_card_legal(2), of 1] first_card_legal(1) s(3)
  obtain s' where "playerTricked no_write_error 1 first_card (act s W) s = Inr (True, s')"
    "game_of s' = spec_move first_card (start_game simple_game)" by auto
  with s(1) show ?thesis
    by (intro exI [of _ s] exI [of _ "act s W"] exI [of _ s'])
      (simp add: spec_move_def simple_start)
qed

text \<open>C14: Any other card from a player (the wrong trick number, out of turn, not in the hand, not following
  suit) leaves the game as it is, and only that player's queue grows, by one WRONG with the number
  of the current trick.\<close>

theorem illegal_card:
  assumes "fair sc" and "sc \<noteq> []" and "runs sc s" and "playersConnected s = 4"
    and "speaks_for s ix t" and "wf_card c" and "\<not> gLegal t n c (game_of s)"
  shows "\<exists>s'. playerTricked no_write_error n c ix s = Inr (True, s') \<and> game_of s' = game_of s \<and>
     act s' = act s \<and> exiting s' = exiting s \<and>
     (\<forall>u. real_side u \<longrightarrow> inbox (workerMgr s') (act s u) =
        inbox (workerMgr s) (act s u) @ (if u = t then [SendJobWrong (trickNo s)] else []))"
  using playerTricked_illegal [OF runs_inv [OF assms(3,1,2)] assms(4-7)] .

theorem illegal_card_witness:
  "\<exists>s ix s'. runs simple_game s \<and> playerTricked no_write_error 2 first_card ix s = Inr (True, s') \<and>
     game_of s' = start_game simple_game"
proof -
  obtain s where s: "runs simple_game s" "playersConnected s = 4" "game_of s = start_game simple_game"
    using sample_full by blast
  have "speaks_for s (act s W) W" using seated_speaks [OF sample_core [OF s(1)]] s(2) by simp
  from illegal_card [OF simple_fair simple_nonempty s(1,2) this first_card_legal(2), of 2] first_card_late s
  show ?thesis by auto
qed

text \<open>While fewer than four players are connected \<open>playerTricked\<close> changes nothing and tells the worker
  to keep the message.\<close>

theorem no_card_while_waiting:
  assumes "\<not> gameStateMutex s" and "playersConnected s < 4"
  shows "playerTricked wr n c ix s = Inr (False, s)"
  using paused(1) [OF assms] .

theorem no_card_while_waiting_witness:
  "playerTricked no_write_error 1 first_card 0 (Server simple_game 0 5) = Inr (False, Server simple_game 0 5)"
  by (rule no_card_while_waiting) (simp_all add: Server_def)

section \<open>The running server\<close>



text \<open>C3: The game inside the server is at every moment a state that legal moves lead to in the specified
  game, whatever players join, leave, time out or send in between.\<close>

theorem server_plays_the_game:
  assumes "fair sc" and "sc \<noteq> []" and "runs sc s"
  shows "plays sc (game_of s)"
  using runs_core [OF assms(3,1,2)] by (simp add: core_inv_def)

theorem server_plays_the_game_witness: "\<exists>s. runs simple_game s \<and> plays simple_game (game_of s)"
  using sample_full server_plays_the_game [OF simple_fair simple_nonempty] by blast



text \<open>C15: No card is lost or doubled: until the last round is over, the hands, the table and the tricks
  taken in the round together are the deck.\<close>

theorem cards_conserved:
  assumes "fair sc" and "sc \<noteq> []" and "runs sc s" and "roundNumber s < length sc"
  shows "mset (all_cards (\<lambda>t. get [] t (hands s))) + mset (table s) +
     mset (concat (map (fst \<circ> taken_trick) (takenInRound s))) = mset deck"
proof -
  have core: "core_inv sc s" using runs_core [OF assms(3,1,2)] .
  then have sc: "gameScenario s = sc" by (simp add: core_inv_def)
  have round: "in_round (game_of s)"
    using core_game [OF core] assms(4) sc by (auto simp: game_inv_def game_over_def)
  obtain r st w where rnd: "sc ! roundNumber s = (r, st, w)" by (cases "sc ! roundNumber s")
  then have "(r, st, w) \<in> set sc" using assms(4) by (metis nth_mem)
  then have "mset (all_cards (\<lambda>t. get [] t st)) = mset deck" using assms(1) by (auto simp: fair_def)
  with round rnd sc show ?thesis by (simp add: in_round_def cards_ok_def deal_of_def [abs_def])
qed

lemma simple_round_0: "game_of s = start_game simple_game \<Longrightarrow> roundNumber s < length simple_game"
proof -
  assume "game_of s = start_game simple_game"
  then have "gRound (game_of s) = gRound (start_game simple_game)" by simp
  then show ?thesis by (simp add: start_game_def simple_game_def deal_round_def)
qed

theorem cards_conserved_witness:
  "\<exists>s. runs simple_game s \<and> mset (all_cards (\<lambda>t. get [] t (hands s))) + mset (table s) +
     mset (concat (map (fst \<circ> taken_trick) (takenInRound s))) = mset deck"
  using sample_full cards_conserved [OF simple_fair simple_nonempty _ simple_round_0] by blast

text \<open>C17: The turn goes round the table: some side leads the trick, the side to move is as many seats after it
  as there are cards on the table, and the sides that have played hold one card less than the
  others, who hold fourteen minus the number of the trick.\<close>

theorem turn_order:
  assumes "fair sc" and "sc \<noteq> []" and "runs sc s" and "roundNumber s < length sc"
  shows "length (table s) < 4 \<and> 1 \<le> trickNo s \<and> trickNo s \<le> 13 \<and>
    (\<exists>leader. real_side leader \<and> nextMove s = seat (length (table s)) leader \<and>
       (\<forall>i < 4. length (get [] (seat i leader) (hands s)) =
          14 - trickNo s - (if i < length (table s) then 1 else 0)))"
proof -
  have core: "core_inv sc s" using runs_core [OF assms(3,1,2)] .
  have "in_round (game_of s)"
    using core_game [OF core] assms(4) core by (auto simp: game_inv_def game_over_def core_inv_def)
  then have seats: "seats_ok (game_of s)" by (simp add: in_round_def)
  have "trickNo s = Suc (length (takenInRound s))" using core_shape [OF core] by (simp add: game_shape_def)
  with seats show ?thesis by (simp add: seats_ok_def TRICKS_PER_ROUND_def)
qed

theorem turn_order_witness:
  "\<exists>s leader. runs simple_game s \<and> real_side leader \<and> nextMove s = seat (length (table s)) leader"
  using sample_full turn_order [OF simple_fair simple_nonempty _ simple_round_0] by blast

text \<open>C18: The penalties of the four players add up to what the rounds finished so far hand out: each kind of
  round its total.\<close>

theorem penalties_add_up:
  assumes "fair sc" and "sc \<noteq> []" and "runs sc s"
  shows "sum_list (map (\<lambda>t. get 0 t (penalties s)) sides) =
    sum_list (map (round_total \<circ> fst) (take (roundNumber s) sc))"
proof -
  have core: "core_inv sc s" using runs_core [OF assms(3,1,2)] .
  then show ?thesis using core_game [OF core] by (simp add: game_inv_def side_sum_def core_inv_def)
qed

theorem penalties_add_up_witness:
  "\<exists>s. runs simple_game s \<and> sum_list (map (\<lambda>t. get 0 t (penalties s)) sides) =
    sum_list (map (round_total \<circ> fst) (take (roundNumber s) simple_game))"
  using sample_full penalties_add_up [OF simple_fair simple_nonempty] by blast





section \<open>Joining and leaving\<close>

text \<open>C19: A player who introduces himself for a free side once the cards have been dealt gets it, and is sent
  the deal of that side and every trick taken in the round so far, in order, followed by the table
  if all four are there and it is his turn; the game does not change.\<close>

theorem player_rejoins:
  assumes "fair sc" and "sc \<noteq> []" and "runs sc s" and "roles (workerMgr s) ix = Some SERVING_UNKNOWN"
    and "real_side t" and "activeSides s t = Some (- 1)" and "lastDeal s \<noteq> Map.empty"
  shows "\<exists>s'. playerIntro no_write_error ord t ix s = Inr (True, s') \<and>
     activeSides s' = (activeSides s)(t \<mapsto> ix) \<and> playersConnected s' = playersConnected s + 1 \<and>
     game_of s' = game_of s \<and>
     inbox (workerMgr s') ix = inbox (workerMgr s) ix @
       SendDealJob (roundMode s) (nextMove s) (get [] t (last_deal s)) # taken_jobs (gWon (game_of s)) @
       (if playersConnected s = 3 \<and> nextMove s = t then [SendJobTrick (table s) (trickNo s)] else [])"
  using rejoin_inbox [OF runs_inv [OF assms(3,1,2)] assms(4-7)] .

theorem player_rejoins_witness:
  "\<exists>s ix s'. runs simple_game s \<and> playerIntro no_write_error sides W ix s = Inr (True, s') \<and>
     activeSides s' = (activeSides s)(W \<mapsto> ix)"
proof -
  obtain s ix where s: "runs simple_game s" "roles (workerMgr s) ix = Some SERVING_UNKNOWN"
    "activeSides s W = Some (- 1)" "lastDeal s \<noteq> Map.empty" using sample_left by blast
  from player_rejoins [OF simple_fair simple_nonempty s(1,2) _ s(3,4), of sides] s(1) show ?thesis by auto
qed

text \<open>A player who asks for a side that is held is told the sides that are held, in the order of the map,
  and marked to be cleaned up; nothing else changes.\<close>

theorem side_is_busy:
  assumes "fair sc" and "sc \<noteq> []" and "runs sc s" and "roles (workerMgr s) ix = Some SERVING_UNKNOWN"
    and "real_side t" and "activeSides s t \<noteq> Some (- 1)"
  shows "\<exists>s'. playerIntro no_write_error ord t ix s = Inr (True, s') \<and>
     activeSides s' = activeSides s \<and> playersConnected s' = playersConnected s \<and> game_of s' = game_of s \<and>
     roles (workerMgr s') ix = Some CLEANUP_UNKNOWN \<and>
     inbox (workerMgr s') ix = inbox (workerMgr s) ix @
       [SendJobBusy (filter (\<lambda>u. u \<in> dom (activeSides s) \<and> act s u \<noteq> - 1) ord)]"
  using busy_inbox [OF runs_inv [OF assms(3,1,2)] assms(4-6)] .

theorem side_is_busy_witness:
  "\<exists>s ix s'. runs simple_game s \<and> playerIntro no_write_error sides W ix s = Inr (True, s') \<and>
     roles (workerMgr s') ix = Some CLEANUP_UNKNOWN"
proof -
  obtain s0 where s0: "runs simple_game s0" "playersConnected s0 = 4" using sample_full by blast
  obtain s ix where s: "runs simple_game s" "roles (workerMgr s) ix = Some SERVING_UNKNOWN"
    "playersConnected s = 4" using sample_connect [OF s0(1)] s0(2) by metis
  have w: "workerToSide s (act s W) = Some W"
    using four_active [OF sample_core [OF s(1)], of W] s(3) by simp
  have tabs: "seat_tables (activeSides s) (workerToSide s)"
    using core_conn [OF sample_core [OF s(1)]] by (simp add: conn_inv_def)
  have held: "activeSides s W \<noteq> Some (- 1)" using seat_tablesD(3) [OF tabs w] by auto
  from side_is_busy [OF simple_fair simple_nonempty s(1,2) _ held, of sides] s(1) show ?thesis by auto
qed

text \<open>C20: When the worker of a player ends, without an internal error, his side becomes free and is remembered
  for the messages still to be read from him; the worker is erased at once exactly if it has no work
  left and either all four were there or the server is exiting, and otherwise waits in CLEANUP.\<close>

theorem player_leaves:
  assumes "fair sc" and "sc \<noteq> []" and "runs sc s" and "workerToSide s ix = Some t"
    and "\<forall>e \<in> set es. errType e \<noteq> IO_ERR_INTERNAL"
  shows "\<exists>b s'. grandExitCallback no_write_error es ix hw s = Inr (b, s') \<and>
     activeSides s' = (activeSides s)(t \<mapsto> - 1) \<and> playersConnected s' = playersConnected s - 1 \<and>
     game_of s' = game_of s \<and> zombieWorkerToSide s' ix = Some t \<and>
     (if b then roles (workerMgr s') ix = Some SHUTDOWN \<and> ix \<in> set (toErase (workerMgr s'))
      else roles (workerMgr s') ix = Some CLEANUP) \<and>
     (b \<longleftrightarrow> \<not> hw \<and> (playersConnected s = 4 \<or> exiting s))"
  using leave_seat [OF runs_inv [OF assms(3,1,2)] assms(4,5)] by metis

theorem player_leaves_witness:
  "\<exists>s ix s'. runs simple_game s \<and> grandExitCallback no_write_error [Err ''recv'' ECONNRESET IO_ERR_SILENT] ix False s =
     Inr (True, s') \<and> activeSides s' W = Some (- 1) \<and> playersConnected s' = 3"
proof -
  obtain s where s: "runs simple_game s" "playersConnected s = 4" using sample_full by blast
  have "workerToSide s (act s W) = Some W" using four_active [OF sample_core [OF s(1)], of W] s(2) by simp
  from player_leaves [OF simple_fair simple_nonempty s(1) this,
      of "[Err ''recv'' ECONNRESET IO_ERR_SILENT]" False] s
  show ?thesis by fastforce
qed

section \<open>Failures\<close>



text \<open>C24: If the write to a worker's pipe fails, the manager calls back into the server with both mutexes held,
  and the thread waits for itself.\<close>

theorem pipe_failure:
  assumes "fair sc" and "sc \<noteq> []" and "runs sc s" and "roles (workerMgr s) ix = Some r" and "r \<noteq> SHUTDOWN"
    and "playersConnected s = 4" and "\<forall>fd. wr fd = Some e"
  shows "handleWrongMessage wr ix s = Inl Self_deadlock"
  using pipe_failure_deadlocks [OF runs_inv [OF assms(3,1,2)] assms(4-7)] .

theorem pipe_failure_witness:
  "\<exists>s ix. runs simple_game s \<and> handleWrongMessage (\<lambda>fd. Some EPIPE) ix s = Inl Self_deadlock"
proof -
  obtain s where s: "runs simple_game s" "playersConnected s = 4" using sample_full by blast
  have "workerToSide s (act s W) = Some W" using four_active [OF sample_core [OF s(1)], of W] s(2) by simp
  then have "roles (workerMgr s) (act s W) = Some SERVING_ACTIVE" using core_role_active [OF sample_core [OF s(1)]] by simp
  from pipe_failure [OF simple_fair simple_nonempty s(1) this _ s(2), of "\<lambda>fd. Some EPIPE" EPIPE] s(1)
  show ?thesis by auto
qed

text \<open>A scenario without rounds, which is what a file that cannot be opened yields, makes the server read
  past the end of the scenario before it does anything else.\<close>

theorem no_rounds: "parseScenario None = Inr [] \<and> run_start wr env p now (Server [] port tmo) = Inl Undefined"
  by (simp add: parseScenario_def scenario_rounds.simps empty_scenario)

section \<open>The threads of the workers\<close>

lemma quiet_takes_all: "takes_all quiet_turn"
  by (simp add: takes_all_def quiet_turn_def full_send_all)

definition sample_worker :: "int \<Rightarrow> io_worker" where
  "sample_worker ix = mk_handler 3 ix 4 (0, '''') (0, '''') 5 0"

lemma sample_worker:
  "wid (sample_worker ix) = ix" "kind (sample_worker ix) = IOWorkerHandler" "reading (sample_worker ix)"
  "buffers_ok (sample_worker ix)" "\<not> closedFd (sample_worker ix)" "pendingOutgoing (sample_worker ix) = []"
  by (simp_all add: sample_worker_def mk_handler_def IOWorker_def reading_def buffers_ok_def)

lemma quiet_input: "turn_input may quiet_turn (sample_worker ix, fresh_wire, s)"
proof -
  have "read_socket quiet_turn (w, fresh_wire\<lparr>rxBytes := []\<rparr>) = (w, fresh_wire\<lparr>rxBytes := []\<rparr>)"
    if "pendingIncoming w = []" "\<not> closedFd w" for w
    using that by (simp add: read_socket_def fresh_wire_def quiet_turn_def SILENT_ERRS_def)
  moreover have "handlePipe quiet_turn w = w" for w by (simp add: handlePipe_def quiet_turn_def)
  ultimately have "next_message quiet_turn (sample_worker ix, fresh_wire, s) = []"
    using sample_worker(3) [of ix]
    by (simp add: next_message_def reading_def) (simp add: fresh_wire_def quiet_turn_def)
  then show ?thesis by (simp add: turn_input_def sample_worker)
qed

lemma sample_seated:
  obtains s where "runs simple_game s" "playersConnected s = 4" "game_of s = start_game simple_game"
    "workerToSide s (act s W) = Some W" "roles (workerMgr s) (act s W) = Some SERVING_ACTIVE"
    "speaks_for s (act s W) W" "known (workerMgr s) (act s W)"
proof -
  obtain s where s: "runs simple_game s" "playersConnected s = 4" "game_of s = start_game simple_game"
    using sample_full by blast
  note core = sample_core [OF s(1)]
  have w: "workerToSide s (act s W) = Some W" "known (workerMgr s) (act s W)"
    using four_active [OF core, of W] s(2) by simp_all
  from w(1) have "roles (workerMgr s) (act s W) = Some SERVING_ACTIVE" using core_role_active [OF core] by simp
  with w s that show thesis by (simp add: speaks_for_def)
qed



text \<open>C12: A line that a client wrote for a legal card, read by the worker of the side to move, plays that card:
  the bytes of the line and no more are consumed, the game makes the move, and the players' queues
  grow by the messages of the move.\<close>

theorem card_from_wire:
  assumes "fair sc" and "sc \<noteq> []" and "runs sc s" and "playersConnected s = 4" and "speaks_for s (wid w) t"
    and "kind w = IOWorkerHandler" and "reading w" and "game_card c" and "gLegal t k c (game_of s)"
    and "rxBytes n = genMsg ord (SendJobTrick [c] k) @ rest"
  shows "\<exists>w' n' s'. socketAction (server_ctx no_write_error ord' fds now (wid w)) i (w, n, s) =
       Some (Inr (w', n', s')) \<and>
     game_of s' = spec_move c (game_of s) \<and> rxBytes n' = rest \<and> pendingIncoming w' = [] \<and>
     (\<forall>u. real_side u \<longrightarrow> inbox (workerMgr s') (act s u) =
        inbox (workerMgr s) (act s u) @ for_side u (spec_msgs c (game_of s)))"
proof -
  have "good_state sc s" using assms(1-3) by (simp add: good_state_def)
  from wire_card [OF this assms(4-10)] show ?thesis by blast
qed

lemma one_text: "to_string 1 = ''1''"
  by code_simp

theorem card_from_wire_witness:
  "\<exists>s w' n' s'. socketAction (server_ctx no_write_error sides (7, 8) 0 (act s W)) quiet_turn
       (sample_worker (act s W), fresh_wire\<lparr>rxBytes := ''TRICK13C'' @ crlf @ ''TRI''\<rparr>, s) = Some (Inr (w', n', s')) \<and>
     game_of s' = spec_move first_card (start_game simple_game) \<and> rxBytes n' = ''TRI''"
proof -
  obtain s where s: "runs simple_game s" "playersConnected s = 4" "game_of s = start_game simple_game"
    "speaks_for s (act s W) W" using sample_seated by metis
  let ?w = "sample_worker (act s W)" and ?n = "fresh_wire\<lparr>rxBytes := ''TRICK13C'' @ crlf @ ''TRI''\<rparr>"
  have rx: "rxBytes ?n = genMsg sides (SendJobTrick [first_card] 1) @ ''TRI''"
    using one_text by (simp add: first_card_def toString_def)
  have g: "gLegal W 1 first_card (game_of s)" "game_card first_card"
    using first_card_legal s(3) by (simp_all add: first_card_def faces_def suits_def)
  have sp: "speaks_for s (wid ?w) W" using s(4) by (simp add: sample_worker)
  from card_from_wire [OF simple_fair simple_nonempty s(1,2) sp sample_worker(2,3) g(2,1) rx,
      of sides "(7, 8)" 0 quiet_turn] s(3)
  show ?thesis unfolding sample_worker by metis
qed



section \<open>The end of the server\<close>

text \<open>An internal error that a worker reports when it ends makes the server begin to exit: the exit code
  becomes 1 and every worker the manager still serves has the order to die; the game stays as it is.\<close>

theorem internal_error_ends:
  assumes "fair sc" and "sc \<noteq> []" and "runs sc s" and "errType e = IO_ERR_INTERNAL" and "\<not> exiting s"
  shows "\<exists>s'. grandExitCallback no_write_error [e] ix hw s = Inr (True, s') \<and> exiting s' \<and> exitCode s' = 1 \<and>
    finishFlag (workerMgr s') \<and> roles (workerMgr s') = roles (workerMgr s) \<and>
    playersConnected s' = playersConnected s \<and> game_of s' = game_of s \<and>
    (\<forall>jx. known (workerMgr s) jx \<and> jx \<notin> set (toErase (workerMgr s)) \<longrightarrow> killed (workerMgr s') jx)"
  using internal_error [OF runs_inv [OF assms(3,1,2)] assms(4,5)] .

theorem internal_error_ends_witness:
  "\<exists>s s'. runs simple_game s \<and> \<not> exiting s \<and>
     grandExitCallback no_write_error [Err ''read'' EPIPE IO_ERR_INTERNAL] 0 False s = Inr (True, s') \<and> exiting s'"
proof -
  obtain s where s: "runs simple_game s" "\<not> exiting s" using runs_open [OF simple_nonempty] by blast
  from internal_error_ends [OF simple_fair simple_nonempty s(1) _ s(2),
      of "Err ''read'' EPIPE IO_ERR_INTERNAL" 0 False] s
  show ?thesis by (auto simp: Err_def)
qed

text \<open>C25: While a player is missing, a worker in CLEANUP or CLEANUP_UNKNOWN is never let go: the exit callback
  returns false and changes nothing but the log, also when the server is exiting. A server that ends
  with such a worker, after the first of the four players has left, waits for it forever.\<close>

theorem cleanup_never_ends:
  assumes "fair sc" and "sc \<noteq> []" and "runs sc s"
    and "roles (workerMgr s) ix = Some CLEANUP \<or> roles (workerMgr s) ix = Some CLEANUP_UNKNOWN"
    and "playersConnected s \<noteq> 4" and "\<forall>e \<in> set es. errType e \<noteq> IO_ERR_INTERNAL"
  shows "grandExitCallback no_write_error es ix hw s = Inr (False, s\<lparr>sysLog := sysLog s @ es\<rparr>)"
  using cleanup_stays [OF runs_inv [OF assms(3,1,2)] assms(4-6)] .

lemma sample_cleanup:
  "\<exists>s ix. runs simple_game s \<and> exiting s \<and> roles (workerMgr s) ix = Some CLEANUP \<and> playersConnected s = 3"
proof -
  obtain s where s: "runs simple_game s" "playersConnected s = 4" "workerToSide s (act s W) = Some W"
    "roles (workerMgr s) (act s W) = Some SERVING_ACTIVE" using sample_seated by metis
  let ?ix = "act s W" and ?e = "Err ''read'' EPIPE IO_ERR_INTERNAL"
  obtain s1 where s1: "grandExitCallback no_write_error [] ?ix True s = Inr (False, s1)"
    "playersConnected s1 = 3" "roles (workerMgr s1) ?ix = Some CLEANUP"
    using leave_seat [OF sample_srv [OF s(1)] s(3), of "[]" True] s(2) by auto
  have r1: "runs simple_game s1"
    by (rule runs.event [OF s(1), of "Ev_exit [] ?ix True"]) (use s1 s(4) in \<open>simp_all add: role_is_def\<close>)
  show ?thesis
  proof (cases "exiting s1")
    case True
    with r1 s1 show ?thesis by blast
  next
    case False
    then obtain s2 where s2: "grandExitCallback no_write_error [?e] ?ix True s1 = Inr (True, s2)" "exiting s2"
      "roles (workerMgr s2) = roles (workerMgr s1)" "playersConnected s2 = playersConnected s1"
      using internal_error [OF sample_srv [OF r1], of ?e ?ix True] by (auto simp: Err_def)
    have "runs simple_game s2"
      by (rule runs.event [OF r1, of "Ev_exit [?e] ?ix True"]) (use s2 s1 in \<open>simp_all add: role_is_def\<close>)
    with s2 s1 show ?thesis by (intro exI [of _ s2] exI [of _ ?ix]) simp
  qed
qed

theorem cleanup_never_ends_witness:
  "\<exists>s ix. runs simple_game s \<and> exiting s \<and> grandExitCallback no_write_error [] ix False s = Inr (False, s)"
proof -
  obtain s ix where s: "runs simple_game s" "exiting s" "roles (workerMgr s) ix = Some CLEANUP"
    "playersConnected s = 3" using sample_cleanup by blast
  have "s\<lparr>sysLog := sysLog s @ []\<rparr> = s" by simp
  with cleanup_never_ends [OF simple_fair simple_nonempty s(1) disjI1 [OF s(3)], of "[]" False] s
  show ?thesis by (intro exI [of _ s] exI [of _ ix]) simp
qed

end
